(* ===== verification/Prelude.thy ===== *)
theory Prelude
  imports Complex_Main "HOL-Library.Word" "HOL-Library.Char_ord" "HOL-Library.List_Lexorder"
    "HOL-Library.AList" "HOL-Library.Sublist"
begin

text \<open>
  Shared vocabulary of the development: the types the Go code spells as strings, times and
  durations; the string primitives of Go's \<^verbatim>\<open>strings\<close> package the sources call; Go maps as
  association lists (\<^theory_text>\<open>AList\<close>) where the code iterates over them; and the fact
  collections the component theories feed.

  Times and durations are integers counting nanoseconds, as Go's \<^verbatim>\<open>time.Duration\<close> does. Go strings
  are byte strings, so \<open>string\<close> (a list of 8-bit characters) is their exact counterpart, and the
  lexicographic order of \<^verbatim>\<open>List_Lexorder\<close> with \<^verbatim>\<open>Char_ord\<close> is Go's bytewise \<^verbatim>\<open><\<close>.
\<close>

section \<open>Names, times, durations\<close>

type_synonym name = string
type_synonym flavor = string
type_synonym time = int
type_synonym duration = int
type_synonym seqno = "64 word"
type_synonym strmap = "string \<rightharpoonup> string"

definition second :: duration where
  "second = 1000000000"

definition minute :: duration where
  "minute = 60 * second"

definition hour :: duration where
  "hour = 60 * minute"

named_theorems dur_defs \<open>the duration constants, unfolded\<close>
named_theorems frames \<open>what an operation leaves alone\<close>

declare second_def [dur_defs] minute_def [dur_defs] hour_def [dur_defs]

lemma dur_pos [simp]: "0 < second" "0 < minute" "0 < hour"
  by (simp_all add: dur_defs)

section \<open>Go's strings package\<close>

definition HasPrefix :: "string \<Rightarrow> string \<Rightarrow> bool" where
  "HasPrefix s p \<longleftrightarrow> take (length p) s = p"

definition TrimPrefix :: "string \<Rightarrow> string \<Rightarrow> string" where
  "TrimPrefix s p = (if HasPrefix s p then drop (length p) s else s)"

fun Contains :: "string \<Rightarrow> string \<Rightarrow> bool" where
  "Contains [] p \<longleftrightarrow> p = []"
| "Contains (c # s) p \<longleftrightarrow> HasPrefix (c # s) p \<or> Contains s p"

text \<open>\<open>LastIndex s p\<close>: the last position at which \<open>p\<close> occurs, \<open>None\<close> for Go's \<open>-1\<close>.\<close>

fun LastIndex :: "string \<Rightarrow> string \<Rightarrow> nat option" where
  "LastIndex [] p = (if p = [] then Some 0 else None)"
| "LastIndex (c # s) p =
     (case LastIndex s p of
        Some i \<Rightarrow> Some (Suc i)
      | None \<Rightarrow> if HasPrefix (c # s) p then Some 0 else None)"

lemma HasPrefix_append [simp]: "HasPrefix (p @ s) p"
  by (simp add: HasPrefix_def)

lemma HasPrefix_iff: "HasPrefix s p \<longleftrightarrow> (\<exists>r. s = p @ r)"
  unfolding HasPrefix_def by (metis append_eq_conv_conj append_take_drop_id)

lemma TrimPrefix_append [simp]: "TrimPrefix (p @ s) p = s"
  by (simp add: TrimPrefix_def)

lemma HasPrefix_Contains: "HasPrefix s p \<Longrightarrow> Contains s p"
  by (cases s) (simp_all add: HasPrefix_def)

lemma Contains_append_right: "Contains s p \<Longrightarrow> Contains (r @ s) p"
  by (induction r) simp_all

lemma Contains_iff: "Contains s p \<longleftrightarrow> (\<exists>a b. s = a @ p @ b)"
proof
  show "Contains s p \<Longrightarrow> \<exists>a b. s = a @ p @ b"
  proof (induction s)
    case Nil
    then show ?case by simp
  next
    case (Cons c s)
    show ?case
    proof (cases "HasPrefix (c # s) p")
      case True
      then obtain r where "c # s = p @ r" by (auto simp: HasPrefix_iff)
      then have "c # s = [] @ p @ r" by simp
      then show ?thesis by blast
    next
      case False
      with Cons obtain a b where "s = a @ p @ b" by auto
      then have "c # s = (c # a) @ p @ b" by simp
      then show ?thesis by blast
    qed
  qed
next
  have "Contains (a @ p @ b) p" for a b
    by (rule Contains_append_right, rule HasPrefix_Contains) simp
  then show "\<exists>a b. s = a @ p @ b \<Longrightarrow> Contains s p" by blast
qed

lemma LastIndex_Some:
  "LastIndex s p = Some i \<Longrightarrow> s = take i s @ p @ drop (i + length p) s"
proof (induction s arbitrary: i)
  case Nil
  then show ?case by (auto split: if_splits)
next
  case (Cons c s)
  show ?case
  proof (cases "LastIndex s p")
    case None
    with Cons.prems have "i = 0" and "HasPrefix (c # s) p" by (auto split: if_splits)
    then show ?thesis by (auto simp: HasPrefix_iff)
  next
    case (Some j)
    with Cons.prems have "i = Suc j" by simp
    with Cons.IH [OF Some] show ?thesis by simp
  qed
qed

section \<open>Rendering integers (Go's fmt.Sprint on an integer)\<close>

fun dec_nat :: "nat \<Rightarrow> string" where
  "dec_nat n = (if n < 10 then [char_of (48 + n)] else dec_nat (n div 10) @ [char_of (48 + n mod 10)])"

declare dec_nat.simps [simp del]

definition dec_int :: "int \<Rightarrow> string" where
  "dec_int i = (if i < 0 then ''-'' @ dec_nat (nat (- i)) else dec_nat (nat i))"

section \<open>Maps with a default, as Go's m[k] reads them\<close>

definition valOf :: "strmap \<Rightarrow> string \<Rightarrow> string" where
  "valOf m k = (case m k of None \<Rightarrow> '''' | Some v \<Rightarrow> v)"

lemma valOf_Some [simp]: "m k = Some v \<Longrightarrow> valOf m k = v"
  by (simp add: valOf_def)

lemma valOf_None [simp]: "m k = None \<Longrightarrow> valOf m k = ''''"
  by (simp add: valOf_def)

section \<open>Association lists\<close>

lemma map_of_filter_keys:
  "distinct (map fst xs) \<Longrightarrow>
   map_of (filter P xs) k = (case map_of xs k of Some v \<Rightarrow> if P (k, v) then Some v else None | None \<Rightarrow> None)"
proof (induction xs)
  case Nil
  then show ?case by simp
next
  case (Cons x xs)
  obtain k' v' where x: "x = (k', v')" by (cases x)
  from Cons.prems x have "map_of xs k' = None" by (simp add: map_of_eq_None_iff)
  with Cons x show ?case by auto
qed

lemma distinct_fst_filter: "distinct (map fst xs) \<Longrightarrow> distinct (map fst (filter P xs))"
  by (induction xs) auto

section \<open>Sequence numbers\<close>

text \<open>A 64-bit counter that is not about to wrap grows by exactly one.\<close>

lemma unat_succ: "unat (s::seqno) + 1 < 2 ^ 64 \<Longrightarrow> unat (s + 1) = unat s + 1"
  by (simp add: unat_word_ariths)

lemma less_succ: "unat (s::seqno) + 1 < 2 ^ 64 \<Longrightarrow> s < s + 1"
  by (simp only: word_less_nat_alt unat_succ)

lemma le_succ: "unat (s::seqno) + 1 < 2 ^ 64 \<Longrightarrow> q \<le> s \<Longrightarrow> q \<le> s + 1"
  using less_succ [of s] by (meson less_imp_le order_trans)

section \<open>Sums\<close>

lemma is_Inr_iff: "\<not> isl x \<longleftrightarrow> (\<exists>y. x = Inr y)"
  by (cases x) simp_all

end
