(* ===== verification/Labels.thy ===== *)
theory Labels
  imports Prelude
begin

text \<open>
  \<^verbatim>\<open>src/pkg/apis/v1alpha1/labels.go\<close>: the keys the provider stamps, and the one rule that says which
  labels of a CleverNodeClass reach its nodes. The two syntax checks come from Kubernetes'
  \<^verbatim>\<open>validation\<close> package and are parameters: functions from a string to its list of complaints.
\<close>

section \<open>Keys\<close>

definition Group :: string where
  "Group = ''karpenter.clever-cloud.com''"

definition CoreGroup :: string where
  "CoreGroup = ''karpenter.sh''"

definition ManagedLabelKey :: string where
  "ManagedLabelKey = Group @ ''/managed''"
definition NodeClaimLabelKey :: string where
  "NodeClaimLabelKey = Group @ ''/nodeclaim''"
definition NodeClassLabelKey :: string where
  "NodeClassLabelKey = Group @ ''/nodeclass''"
definition NodePoolLabelKey :: string where
  "NodePoolLabelKey = Group @ ''/nodepool''"
definition NodeClassHashLabelKey :: string where
  "NodeClassHashLabelKey = Group @ ''/clevernodeclass-hash''"
definition NodeClassHashVersionAnnotationKey :: string where
  "NodeClassHashVersionAnnotationKey = Group @ ''/clevernodeclass-hash-version''"
definition TerminationFinalizer :: string where
  "TerminationFinalizer = Group @ ''/termination''"
definition InstanceCPULabelKey :: string where
  "InstanceCPULabelKey = Group @ ''/instance-cpu''"
definition InstanceMemoryLabelKey :: string where
  "InstanceMemoryLabelKey = Group @ ''/instance-memory''"
definition FlavorLabelKey :: string where
  "FlavorLabelKey = ''clever-cloud.com/flavor''"
definition NodeGroupNodeLabelKey :: string where
  "NodeGroupNodeLabelKey = ''clever-cloud.com/nodegroup''"
definition NodeRoleLabelKey :: string where
  "NodeRoleLabelKey = ''clever-cloud.com/cluster-node-role''"
definition NodeRoleWorker :: string where
  "NodeRoleWorker = ''worker''"

text \<open>karpenter-core's key for the NodePool of a node or a claim.\<close>

definition CoreNodePoolLabelKey :: string where
  "CoreNodePoolLabelKey = ''karpenter.sh/nodepool''"

lemmas key_defs = Group_def CoreGroup_def ManagedLabelKey_def NodeClaimLabelKey_def NodeClassLabelKey_def
  NodePoolLabelKey_def NodeClassHashLabelKey_def NodeClassHashVersionAnnotationKey_def
  TerminationFinalizer_def InstanceCPULabelKey_def InstanceMemoryLabelKey_def FlavorLabelKey_def
  NodeGroupNodeLabelKey_def NodeRoleLabelKey_def NodeRoleWorker_def CoreNodePoolLabelKey_def

section \<open>The rule\<close>

record label_rules =
  IsQualifiedName :: "string \<Rightarrow> string list"
  IsValidLabelValue :: "string \<Rightarrow> string list"

datatype label_error =
    KubernetesIODomain string
  | ReservedPrefix string
  | KarpenterDomain string
  | InvalidKey string "string list"
  | InvalidValue string string "string list"

definition inKubernetesIODomain :: "string \<Rightarrow> bool" where
  "inKubernetesIODomain key \<longleftrightarrow> Contains key ''kubernetes.io/''"

definition inKarpenterDomain :: "string \<Rightarrow> bool" where
  "inKarpenterDomain key \<longleftrightarrow>
     HasPrefix key (CoreGroup @ ''/'') \<or> Contains key (''.'' @ CoreGroup @ ''/'')"

text \<open>\<open>None\<close> is Go's nil error: the label is delivered.\<close>

definition ValidateNodeClassLabel :: "label_rules \<Rightarrow> string \<Rightarrow> string \<Rightarrow> label_error option" where
  "ValidateNodeClassLabel R key val =
     (if inKubernetesIODomain key then Some (KubernetesIODomain key)
      else if HasPrefix key ''clever-cloud.com/'' then Some (ReservedPrefix key)
      else if inKarpenterDomain key then Some (KarpenterDomain key)
      else if IsQualifiedName R key \<noteq> [] then Some (InvalidKey key (IsQualifiedName R key))
      else if IsValidLabelValue R val \<noteq> [] then Some (InvalidValue key val (IsValidLabelValue R val))
      else None)"

definition IsLegacyNodeClassLabel :: "string \<Rightarrow> string \<Rightarrow> bool" where
  "IsLegacyNodeClassLabel key val \<longleftrightarrow>
     (if \<not> inKubernetesIODomain key \<and> \<not> inKarpenterDomain key then False
      else if \<exists>p \<in> set [''kubernetes.io/'', ''node.kubernetes.io/'', ''clever-cloud.com/'']. HasPrefix key p
      then False
      else length val \<le> 63)"

text \<open>The rule of the CRD's XValidation marker on \<^verbatim>\<open>CleverNodeClassSpec.Labels\<close>, for one key.\<close>

definition crd_label_rule :: "string \<Rightarrow> bool" where
  "crd_label_rule k \<longleftrightarrow>
     \<not> Contains k ''kubernetes.io/'' \<and> \<not> HasPrefix k ''clever-cloud.com/'' \<and>
     \<not> HasPrefix k ''karpenter.sh/'' \<and> \<not> Contains k ''.karpenter.sh/''"

section \<open>What the rule promises\<close>

lemma delivered_passes_crd_rule: "ValidateNodeClassLabel R k v = None \<Longrightarrow> crd_label_rule k"
  by (simp add: crd_label_rule_def ValidateNodeClassLabel_def inKubernetesIODomain_def
      inKarpenterDomain_def CoreGroup_def split: if_splits)

text \<open>
  Admission and delivery agree up to syntax. The CRD's rule admits a key exactly when the shared
  rule's objection to it, if any, is about label syntax; so nothing the shared rule delivers is
  refused at admission, and no domain violation passes admission.
\<close>

theorem crd_rule_mirrors_shared_rule:
  "crd_label_rule k \<longleftrightarrow>
     (case ValidateNodeClassLabel R k v of
        None \<Rightarrow> True
      | Some (InvalidKey _ _) \<Rightarrow> True
      | Some (InvalidValue _ _ _) \<Rightarrow> True
      | Some _ \<Rightarrow> False)"
  by (simp add: crd_label_rule_def ValidateNodeClassLabel_def inKubernetesIODomain_def
      inKarpenterDomain_def CoreGroup_def)

text \<open>
  The rule of v0.12.0, as the comment on \<open>IsLegacyNodeClassLabel\<close> states it: three prefixes and
  over-long values were refused, and nothing else.
\<close>

definition v0_12_0_accepts :: "string \<Rightarrow> string \<Rightarrow> bool" where
  "v0_12_0_accepts key val \<longleftrightarrow>
     \<not> HasPrefix key ''kubernetes.io/'' \<and> \<not> HasPrefix key ''node.kubernetes.io/'' \<and>
     \<not> HasPrefix key ''clever-cloud.com/'' \<and> length val \<le> 63"

text \<open>
  The upgrade breaks no label that worked. A label in the two withdrawn domains is tolerated as
  legacy exactly when v0.12.0 accepted it; a tolerated label is never delivered; and outside those
  domains a label v0.12.0 accepted is refused now only for its syntax.
\<close>

theorem legacy_labels_are_v0_12_0_labels:
  "(IsLegacyNodeClassLabel k v \<longleftrightarrow>
      (inKubernetesIODomain k \<or> inKarpenterDomain k) \<and> v0_12_0_accepts k v) \<and>
   \<not> (IsLegacyNodeClassLabel k v \<and> ValidateNodeClassLabel R k v = None) \<and>
   (v0_12_0_accepts k v \<and> \<not> IsLegacyNodeClassLabel k v \<longrightarrow>
      (case ValidateNodeClassLabel R k v of
         None \<Rightarrow> True
       | Some e \<Rightarrow> e = InvalidKey k (IsQualifiedName R k) \<or> e = InvalidValue k v (IsValidLabelValue R v)))"
  by (auto simp: IsLegacyNodeClassLabel_def v0_12_0_accepts_def ValidateNodeClassLabel_def)

theorem legacy_labels_are_v0_12_0_labels_witness:
  "v0_12_0_accepts ''a b'' ''x'' \<and> \<not> IsLegacyNodeClassLabel ''a b'' ''x'' \<and>
   ValidateNodeClassLabel \<lparr>IsQualifiedName = (\<lambda>k. [''space'']), IsValidLabelValue = (\<lambda>v. [])\<rparr> ''a b'' ''x''
     = Some (InvalidKey ''a b'' [''space''])"
proof -
  let ?R = "\<lparr>IsQualifiedName = (\<lambda>k. [''space'']), IsValidLabelValue = (\<lambda>v. [])\<rparr>"
  have h: "v0_12_0_accepts ''a b'' ''x''" "\<not> IsLegacyNodeClassLabel ''a b'' ''x''"
    by (simp_all add: v0_12_0_accepts_def IsLegacyNodeClassLabel_def inKubernetesIODomain_def
        inKarpenterDomain_def CoreGroup_def HasPrefix_def)
  have "ValidateNodeClassLabel ?R ''a b'' ''x'' \<noteq> None"
    "ValidateNodeClassLabel ?R ''a b'' ''x'' \<noteq> Some (InvalidValue ''a b'' ''x'' [])"
    by (simp_all add: ValidateNodeClassLabel_def)
  then show ?thesis
    using h legacy_labels_are_v0_12_0_labels [of "''a b''" "''x''" ?R] by auto
qed

lemma delivered_not_core_key: "ValidateNodeClassLabel R k v = None \<Longrightarrow> \<not> HasPrefix k ''karpenter.sh/''"
  by (auto simp: ValidateNodeClassLabel_def inKarpenterDomain_def CoreGroup_def split: if_splits)

lemma nodepool_key_never_delivered: "ValidateNodeClassLabel R CoreNodePoolLabelKey v \<noteq> None"
  by (simp add: ValidateNodeClassLabel_def inKarpenterDomain_def CoreGroup_def CoreNodePoolLabelKey_def
      HasPrefix_def)

end
