(* ===== verification/NodeGroupTypes.thy ===== *)
theory NodeGroupTypes
  imports Prelude
begin

text \<open>
  \<^verbatim>\<open>src/pkg/apis/nodegroup/v1/types.go\<close>: the NodeGroup custom resource and the accessors that read
  the node-group operator's verdict out of its status. The object metadata is Kubernetes'
  \<^verbatim>\<open>metav1.ObjectMeta\<close>, with the fields the sources read or write.
\<close>

section \<open>Object metadata\<close>

record owner_ref =
  orAPIVersion :: string
  orKind :: string
  orName :: name
  orUID :: string

record object_meta =
  omName :: name
  omUID :: string
  omResourceVersion :: string
  omLabels :: strmap
  omAnnotations :: strmap
  omOwners :: "owner_ref list"
  omFinalizers :: "string list"
  omCreated :: time
  omDeleted :: "time option"

definition meta0 :: object_meta where
  "meta0 = \<lparr>omName = '''', omUID = '''', omResourceVersion = '''', omLabels = Map.empty,
            omAnnotations = Map.empty, omOwners = [], omFinalizers = [], omCreated = 0,
            omDeleted = None\<rparr>"

section \<open>The NodeGroup\<close>

definition ConditionTypeReady :: string where
  "ConditionTypeReady = ''Ready''"
definition ConditionTypeReconcileInProgress :: string where
  "ConditionTypeReconcileInProgress = ''ReconcileInProgress''"
definition ConditionTypeReconcileFailed :: string where
  "ConditionTypeReconcileFailed = ''ReconcileFailed''"
definition PhaseQuotaExceeded :: string where
  "PhaseQuotaExceeded = ''QuotaExceeded''"
definition ReasonQuotaExceeded :: string where
  "ReasonQuotaExceeded = ''QuotaExceeded''"
definition ReasonUpstreamError :: string where
  "ReasonUpstreamError = ''UpstreamError''"
definition ConditionTrue :: string where
  "ConditionTrue = ''True''"

lemmas ng_consts = ConditionTypeReady_def ConditionTypeReconcileInProgress_def
  ConditionTypeReconcileFailed_def PhaseQuotaExceeded_def ReasonQuotaExceeded_def
  ReasonUpstreamError_def ConditionTrue_def

definition transientFailureReasons :: "string \<Rightarrow> bool" where
  "transientFailureReasons r \<longleftrightarrow> r = ReasonUpstreamError"

record ng_taint =
  ntKey :: string
  ntValue :: string
  ntEffect :: string

record ng_condition =
  ncType :: string
  ncStatus :: string
  ncLastTransition :: time
  ncReason :: string
  ncMessage :: string
  ncObservedGeneration :: int

record ng_spec =
  nsFlavor :: flavor
  nsNodeCount :: int
  nsLabels :: strmap
  nsTaints :: "ng_taint list"

record ng_status =
  stConditions :: "ng_condition list"
  stNodeCount :: int
  stTargetNodeCount :: int
  stPhase :: string
  stUpstreamID :: string
  stLabels :: strmap
  stTaints :: "ng_taint list"

record nodegroup =
  ngMeta :: object_meta
  ngSpec :: ng_spec
  ngStatus :: ng_status

abbreviation ngName :: "nodegroup \<Rightarrow> name" where "ngName ng \<equiv> omName (ngMeta ng)"
abbreviation ngUID :: "nodegroup \<Rightarrow> string" where "ngUID ng \<equiv> omUID (ngMeta ng)"
abbreviation ngFlavor :: "nodegroup \<Rightarrow> flavor" where "ngFlavor ng \<equiv> nsFlavor (ngSpec ng)"

text \<open>\<open>!ng.DeletionTimestamp.IsZero()\<close>: deletion was requested.\<close>

abbreviation ngTerminating :: "nodegroup \<Rightarrow> bool" where
  "ngTerminating ng \<equiv> omDeleted (ngMeta ng) \<noteq> None"

definition status0 :: ng_status where
  "status0 = \<lparr>stConditions = [], stNodeCount = 0, stTargetNodeCount = 0, stPhase = '''',
              stUpstreamID = '''', stLabels = Map.empty, stTaints = []\<rparr>"

section \<open>Reading the operator's verdict\<close>

definition GetCondition :: "nodegroup \<Rightarrow> string \<Rightarrow> ng_condition option" where
  "GetCondition ng t = find (\<lambda>c. ncType c = t) (stConditions (ngStatus ng))"

definition IsQuotaExceeded :: "nodegroup \<Rightarrow> bool" where
  "IsQuotaExceeded ng =
     (if stPhase (ngStatus ng) = PhaseQuotaExceeded then True
      else case GetCondition ng ConditionTypeReconcileFailed of
             Some c \<Rightarrow> ncStatus c = ConditionTrue \<and> ncReason c = ReasonQuotaExceeded
           | None \<Rightarrow> False)"

definition reconcileFailed :: "nodegroup \<Rightarrow> ng_condition option" where
  "reconcileFailed ng =
     (case GetCondition ng ConditionTypeReconcileFailed of
        None \<Rightarrow> None
      | Some c \<Rightarrow> if ncStatus c \<noteq> ConditionTrue then None else Some c)"

text \<open>\<open>Refusal\<close> and \<open>TransientFailure\<close> return Go's triple as an option of reason and message.\<close>

definition Refusal :: "nodegroup \<Rightarrow> (string \<times> string) option" where
  "Refusal ng =
     (case reconcileFailed ng of
        None \<Rightarrow> None
      | Some c \<Rightarrow> if transientFailureReasons (ncReason c) then None
                  else Some (ncReason c, ncMessage c))"

definition IsRefused :: "nodegroup \<Rightarrow> bool" where
  "IsRefused ng = (if IsQuotaExceeded ng then True else Refusal ng \<noteq> None)"

definition TransientFailure :: "nodegroup \<Rightarrow> (string \<times> string) option" where
  "TransientFailure ng =
     (case reconcileFailed ng of
        None \<Rightarrow> None
      | Some c \<Rightarrow> if \<not> transientFailureReasons (ncReason c) then None
                  else Some (ncReason c, ncMessage c))"

definition IsSynced :: "nodegroup \<Rightarrow> bool" where
  "IsSynced ng =
     (case GetCondition ng ConditionTypeReady of
        None \<Rightarrow> False
      | Some c \<Rightarrow> ncStatus c = ConditionTrue)"

definition IsReconciling :: "nodegroup \<Rightarrow> bool" where
  "IsReconciling ng =
     (case GetCondition ng ConditionTypeReconcileInProgress of
        None \<Rightarrow> False
      | Some c \<Rightarrow> ncStatus c = ConditionTrue)"

lemmas verdict_defs = GetCondition_def IsQuotaExceeded_def reconcileFailed_def Refusal_def
  IsRefused_def TransientFailure_def IsSynced_def IsReconciling_def transientFailureReasons_def

section \<open>How the verdicts relate\<close>

lemma Refusal_excludes_TransientFailure: "Refusal ng \<noteq> None \<Longrightarrow> TransientFailure ng = None"
  by (auto simp: Refusal_def TransientFailure_def split: option.splits if_splits)

lemma quota_reason_not_transient: "\<not> transientFailureReasons ReasonQuotaExceeded"
  by (simp add: transientFailureReasons_def ng_consts)

lemma IsQuotaExceeded_cases:
  "IsQuotaExceeded ng \<Longrightarrow> stPhase (ngStatus ng) \<noteq> PhaseQuotaExceeded \<Longrightarrow> Refusal ng \<noteq> None"
  by (auto simp: IsQuotaExceeded_def Refusal_def reconcileFailed_def quota_reason_not_transient
      split: if_splits option.splits)

lemma IsRefused_iff: "IsRefused ng \<longleftrightarrow> IsQuotaExceeded ng \<or> Refusal ng \<noteq> None"
  by (simp add: IsRefused_def)

lemma not_refused_cases:
  "\<not> IsRefused ng \<longleftrightarrow> \<not> IsQuotaExceeded ng \<and> Refusal ng = None"
  by (cases "Refusal ng") (simp_all add: IsRefused_def)

text \<open>
  What the operator's status means to the provider. A ReconcileFailed=True condition is a refusal
  or a transient failure, never both and never neither; and a group counts as refused exactly when
  its phase is QuotaExceeded or that condition carries any reason other than UpstreamError, reasons
  never seen before included.
\<close>

theorem verdict_partition:
  "(reconcileFailed ng \<noteq> None \<longleftrightarrow> (Refusal ng \<noteq> None) \<noteq> (TransientFailure ng \<noteq> None)) \<and>
   (IsRefused ng \<longleftrightarrow>
      stPhase (ngStatus ng) = PhaseQuotaExceeded \<or>
      (\<exists>c. GetCondition ng ConditionTypeReconcileFailed = Some c \<and> ncStatus c = ConditionTrue \<and>
           ncReason c \<noteq> ReasonUpstreamError))"
  using quota_reason_not_transient
  by (cases "GetCondition ng ConditionTypeReconcileFailed")
     (auto simp: IsRefused_def IsQuotaExceeded_def Refusal_def TransientFailure_def
        reconcileFailed_def transientFailureReasons_def)

end
