(* ===== verification/Sizing.thy ===== *)
theory Sizing
  imports Prelude
begin

text \<open>
  The sizing table of \<^verbatim>\<open>src/pkg/providers/instancetype/instancetype.go\<close>: what a flavor's vCPU count
  and memory are, and when one flavor is at least as large as another. The quota memory of the
  nodegroup provider and the catalogue both rest on it.
\<close>

datatype sizing = Sizing (CPU: int) (MemoryKi: int)

definition AtLeast :: "sizing \<Rightarrow> sizing \<Rightarrow> bool" where
  "AtLeast s oth \<longleftrightarrow> CPU s \<ge> CPU oth \<and> MemoryKi s \<ge> MemoryKi oth"

definition FlavorSizing :: "(flavor \<times> sizing) list" where
  "FlavorSizing =
     [(''2XS'', Sizing 4 3715344), (''XS'', Sizing 6 7553664), (''S'', Sizing 8 11385832),
      (''M'', Sizing 10 15229256), (''L'', Sizing 12 22896304), (''XL'', Sizing 16 30584176)]"

definition SizingByName :: "flavor \<rightharpoonup> sizing" where
  "SizingByName = map_of FlavorSizing"

text \<open>Flavor sizes are partially ordered; \<^const>\<open>AtLeast\<close> is the order read from right to left.\<close>

instantiation sizing :: order
begin

definition less_eq_sizing :: "sizing \<Rightarrow> sizing \<Rightarrow> bool" where
  "s \<le> t \<longleftrightarrow> CPU s \<le> CPU t \<and> MemoryKi s \<le> MemoryKi t"

definition less_sizing :: "sizing \<Rightarrow> sizing \<Rightarrow> bool" where
  "(s::sizing) < t \<longleftrightarrow> s \<le> t \<and> \<not> t \<le> s"

instance
  by standard (auto simp: less_eq_sizing_def less_sizing_def intro: sizing.expand)

end

lemma AtLeast_iff_le: "AtLeast s t \<longleftrightarrow> t \<le> s"
  by (simp add: AtLeast_def less_eq_sizing_def)

lemma AtLeast_refl [simp, intro]: "AtLeast s s"
  by (simp add: AtLeast_iff_le)

lemma AtLeast_trans: "AtLeast s t \<Longrightarrow> AtLeast t u \<Longrightarrow> AtLeast s u"
  by (simp add: AtLeast_iff_le)

text \<open>
  The built-in table is ordered from the smallest flavor to the largest in both dimensions, so
  of any two built-in flavors one is at least as large as the other, and no two share a name.
\<close>

theorem FlavorSizing_chain:
  "sorted_wrt (<) (map snd FlavorSizing) \<and> distinct (map fst FlavorSizing)"
  by (simp add: FlavorSizing_def less_sizing_def less_eq_sizing_def)

end
