(* ===== verification/RefusalMemory.thy ===== *)
theory RefusalMemory
  imports Sizing
begin

text \<open>
  What the nodegroup provider remembers of the operator's refusals
  (\<^verbatim>\<open>src/pkg/providers/nodegroup/nodegroup.go\<close>, the fields of \<^verbatim>\<open>Provider\<close> that \<^verbatim>\<open>mu\<close> guards): per flavor
  the organisation quota's last rejection, and per flavor the last refusal for another reason. Every
  operation below is one critical section of \<^verbatim>\<open>mu\<close>; the clock reading it makes is its argument
  \<open>now\<close>. \<open>cat\<close> is the provider's catalogue, \<open>None\<close> for Go's nil interface.
\<close>

section \<open>State\<close>

definition QuotaBackoff :: duration where
  "QuotaBackoff = minute"

definition flavorBackoff :: duration where
  "flavorBackoff = 5 * minute"

declare QuotaBackoff_def [dur_defs] flavorBackoff_def [dur_defs]

record flavorHoldOut =
  hoAt :: time
  hoSeq :: seqno

record quotaRejection =
  qrAt :: time
  qrMessage :: string
  qrSeq :: seqno
  qrSize :: "sizing option"

record refusals =
  quotaRejections :: "(flavor \<times> quotaRejection) list"
  quotaRejectionSeq :: seqno
  rejectedFlavors :: "(flavor \<times> flavorHoldOut) list"
  holdOutSeq :: seqno

definition refusals0 :: refusals where
  "refusals0 = \<lparr>quotaRejections = [], quotaRejectionSeq = 0, rejectedFlavors = [], holdOutSeq = 0\<rparr>"

type_synonym catalogue = "(flavor \<Rightarrow> sizing option) option"

definition sizing :: "catalogue \<Rightarrow> flavor \<Rightarrow> sizing option" where
  "sizing cat f = (case cat of None \<Rightarrow> None | Some c \<Rightarrow> c f)"

section \<open>Operations\<close>

definition recordQuotaRejection :: "catalogue \<Rightarrow> time \<Rightarrow> flavor \<Rightarrow> string \<Rightarrow> refusals \<Rightarrow> refusals" where
  "recordQuotaRejection cat now f msg m =
     (let sz = sizing cat f; q = quotaRejectionSeq m + 1
      in m\<lparr>quotaRejectionSeq := q,
           quotaRejections := AList.update f
             \<lparr>qrAt = now, qrMessage = msg, qrSeq = q, qrSize = sz\<rparr> (quotaRejections m)\<rparr>)"

definition coverage :: "quotaRejection \<Rightarrow> flavor \<Rightarrow> flavor \<Rightarrow> sizing option \<Rightarrow> time option" where
  "coverage r rejected f sz =
     (if rejected = f then Some (qrAt r + QuotaBackoff)
      else case (sz, qrSize r) of
             (Some s, Some rs) \<Rightarrow> if AtLeast s rs then Some (qrAt r + 2 * QuotaBackoff) else None
           | _ \<Rightarrow> None)"

text \<open>One iteration of the loop of \<open>quotaRejectionCovering\<close> over the map of rejections.\<close>

definition covering_step ::
  "time \<Rightarrow> flavor \<Rightarrow> sizing option \<Rightarrow> flavor \<times> quotaRejection \<Rightarrow>
   (flavor \<times> quotaRejection \<times> time) option \<Rightarrow> (flavor \<times> quotaRejection \<times> time) option" where
  "covering_step now f sz e acc =
     (case e of (rejected, r) \<Rightarrow>
        (case coverage r rejected f sz of
           None \<Rightarrow> acc
         | Some end \<Rightarrow>
             if \<not> now < end then acc
             else case acc of
                    None \<Rightarrow> Some (rejected, r, end)
                  | Some (coveredBy, covering, until) \<Rightarrow>
                      if until < end \<or> end = until \<and> rejected < coveredBy
                      then Some (rejected, r, end) else acc))"

definition quotaRejectionCovering ::
  "time \<Rightarrow> flavor \<Rightarrow> sizing option \<Rightarrow> refusals \<Rightarrow> (flavor \<times> quotaRejection \<times> time) option" where
  "quotaRejectionCovering now f sz m = fold (covering_step now f sz) (quotaRejections m) None"

definition held :: "time \<Rightarrow> flavor \<Rightarrow> refusals \<Rightarrow> bool" where
  "held now f m =
     (case map_of (rejectedFlavors m) f of
        None \<Rightarrow> False
      | Some h \<Rightarrow> now - hoAt h < flavorBackoff)"

definition Unavailable :: "catalogue \<Rightarrow> time \<Rightarrow> flavor \<Rightarrow> refusals \<Rightarrow> bool" where
  "Unavailable cat now f m =
     (let sz = sizing cat f
      in if held now f m then True
         else quotaRejectionCovering now f sz m \<noteq> None)"

definition recordFlavorRejection :: "time \<Rightarrow> flavor \<Rightarrow> refusals \<Rightarrow> refusals" where
  "recordFlavorRejection now f m =
     (let q = holdOutSeq m + 1
      in m\<lparr>holdOutSeq := q,
           rejectedFlavors := AList.update f \<lparr>hoAt = now, hoSeq = q\<rparr> (rejectedFlavors m)\<rparr>)"

definition holdOutMark :: "refusals \<Rightarrow> seqno" where
  "holdOutMark m = holdOutSeq m"

definition clearFlavorRejection :: "flavor \<Rightarrow> seqno \<Rightarrow> refusals \<Rightarrow> refusals" where
  "clearFlavorRejection f mark m =
     (case map_of (rejectedFlavors m) f of
        None \<Rightarrow> m
      | Some h \<Rightarrow> if hoSeq h \<le> mark then m\<lparr>rejectedFlavors := AList.delete f (rejectedFlavors m)\<rparr>
                  else m)"

definition quotaRejectionMark :: "refusals \<Rightarrow> seqno" where
  "quotaRejectionMark m = quotaRejectionSeq m"

definition clearQuotaRejections :: "seqno \<Rightarrow> refusals \<Rightarrow> refusals" where
  "clearQuotaRejections mark m =
     m\<lparr>quotaRejections := filter (\<lambda>(f, r). \<not> qrSeq r \<le> mark) (quotaRejections m)\<rparr>"

section \<open>The text of a fast-failed launch\<close>

datatype ErrQuotaExceeded = ErrQuotaExceeded (qeFlavor: flavor) (qeMessage: string)

text \<open>Go's \<open>Duration.String\<close> on a whole number of seconds, and \<open>Duration.Round\<close> to the second.\<close>

definition show_seconds :: "nat \<Rightarrow> string" where
  "show_seconds s =
     (if s < 60 then dec_nat s @ ''s''
      else if s < 3600 then dec_nat (s div 60) @ ''m'' @ dec_nat (s mod 60) @ ''s''
      else dec_nat (s div 3600) @ ''h'' @ dec_nat (s mod 3600 div 60) @ ''m'' @ dec_nat (s mod 60) @ ''s'')"

definition round_second :: "duration \<Rightarrow> int" where
  "round_second d = (if 0 \<le> d then (d + second div 2) div second else - ((- d + second div 2) div second))"

definition quotaFastFail :: "catalogue \<Rightarrow> time \<Rightarrow> flavor \<Rightarrow> refusals \<Rightarrow> ErrQuotaExceeded option" where
  "quotaFastFail cat now f m =
     (let sz = sizing cat f
      in case quotaRejectionCovering now f sz m of
           None \<Rightarrow> None
         | Some (rejected, r, until) \<Rightarrow>
             (let cause = (if rejected \<noteq> f
                           then ''the organisation quota rejected '' @ rejected @ '', and it is at least as large''
                           else ''the organisation quota rejected it'');
                  cause' = (if qrMessage r \<noteq> '''' then cause @ '' ('' @ qrMessage r @ '')'' else cause);
                  remaining = max (round_second (until - now)) 1
              in Some (ErrQuotaExceeded f
                   (cause' @ ''; it stays unavailable for another '' @ show_seconds (nat remaining) @
                    ''; an accepted NodeGroup DELETE sent by this provider may allow an earlier retry without confirming freed quota''))))"

section \<open>The rejection that covers a flavor\<close>

definition candidate ::
  "time \<Rightarrow> flavor \<Rightarrow> sizing option \<Rightarrow> (flavor \<times> quotaRejection) list \<Rightarrow>
   flavor \<Rightarrow> quotaRejection \<Rightarrow> time \<Rightarrow> bool" where
  "candidate now f sz rs c r u \<longleftrightarrow> (c, r) \<in> set rs \<and> coverage r c f sz = Some u \<and> now < u"

lemma candidate_append [simp]:
  "candidate now f sz (rs @ [e]) c r u \<longleftrightarrow>
     candidate now f sz rs c r u \<or> e = (c, r) \<and> coverage r c f sz = Some u \<and> now < u"
  by (auto simp: candidate_def)

text \<open>\<open>best\<close>: what the loop has found once it has gone through \<open>rs\<close>.\<close>

fun best ::
  "time \<Rightarrow> flavor \<Rightarrow> sizing option \<Rightarrow> (flavor \<times> quotaRejection) list \<Rightarrow>
   (flavor \<times> quotaRejection \<times> time) option \<Rightarrow> bool" where
  "best now f sz rs None \<longleftrightarrow> (\<forall>c r u. \<not> candidate now f sz rs c r u)"
| "best now f sz rs (Some (c, r, u)) \<longleftrightarrow>
     candidate now f sz rs c r u \<and>
     (\<forall>c' r' u'. candidate now f sz rs c' r' u' \<longrightarrow> u' < u \<or> u' = u \<and> c \<le> c')"

lemma best_step:
  assumes "best now f sz rs acc"
  shows "best now f sz (rs @ [(d, q)]) (covering_step now f sz (d, q) acc)"
proof (cases "\<exists>u. coverage q d f sz = Some u \<and> now < u")
  case False
  with assms show ?thesis
    by (cases acc) (auto simp: covering_step_def split: option.splits)
next
  case True
  then obtain u where u: "coverage q d f sz = Some u" "now < u" by blast
  show ?thesis
  proof (cases acc)
    case None
    with assms u show ?thesis by (simp add: covering_step_def)
  next
    case (Some a)
    then obtain c r v where acc: "acc = Some (c, r, v)" by (cases a) simp
    show ?thesis
    proof (cases "v < u \<or> u = v \<and> d < c")
      case True
      with assms u acc show ?thesis
        by (auto simp: covering_step_def) (metis order.strict_trans less_le_trans order.order_iff_strict)+
    next
      case False
      with assms u acc show ?thesis
        by (auto simp: covering_step_def not_less)
    qed
  qed
qed

lemma best_fold: "best now f sz rs (fold (covering_step now f sz) rs None)"
proof (induction rs rule: rev_induct)
  case Nil
  then show ?case by (simp add: candidate_def)
next
  case (snoc e rs)
  then show ?case
    by (cases e) (simp add: best_step)
qed

lemma covering_Some:
  assumes "quotaRejectionCovering now f sz m = Some (c, r, u)"
  shows "candidate now f sz (quotaRejections m) c r u"
    and "candidate now f sz (quotaRejections m) c' r' u' \<Longrightarrow> u' < u \<or> u' = u \<and> c \<le> c'"
  using best_fold [of now f sz "quotaRejections m"] assms
  by (auto simp: quotaRejectionCovering_def)

lemma covering_None:
  "quotaRejectionCovering now f sz m = None \<longleftrightarrow>
     (\<forall>c r u. \<not> candidate now f sz (quotaRejections m) c r u)"
proof (cases "quotaRejectionCovering now f sz m")
  case None
  then show ?thesis
    using best_fold [of now f sz "quotaRejections m"] by (simp add: quotaRejectionCovering_def)
next
  case (Some a)
  then obtain c r u where "quotaRejectionCovering now f sz m = Some (c, r, u)" by (cases a) simp
  with covering_Some(1) [OF this] show ?thesis by auto
qed

lemma covering_ex:
  "quotaRejectionCovering now f sz m \<noteq> None \<longleftrightarrow>
     (\<exists>c r u. candidate now f sz (quotaRejections m) c r u)"
  by (simp only: covering_None) blast

text \<open>The memory is well formed: one entry per flavor, no entry numbered past its counter.\<close>

definition wf_quota :: "refusals \<Rightarrow> bool" where
  "wf_quota m \<longleftrightarrow>
     distinct (map fst (quotaRejections m)) \<and>
     (\<forall>(f, r) \<in> set (quotaRejections m). qrSeq r \<le> quotaRejectionSeq m)"

definition wf_holds :: "refusals \<Rightarrow> bool" where
  "wf_holds m \<longleftrightarrow>
     distinct (map fst (rejectedFlavors m)) \<and>
     (\<forall>(f, h) \<in> set (rejectedFlavors m). hoSeq h \<le> holdOutSeq m)"

lemma wf_refusals0 [simp]: "wf_quota refusals0" "wf_holds refusals0"
  by (simp_all add: wf_quota_def wf_holds_def refusals0_def)

lemma candidate_map_of:
  "distinct (map fst rs) \<Longrightarrow>
   candidate now f sz rs c r u \<longleftrightarrow> map_of rs c = Some r \<and> coverage r c f sz = Some u \<and> now < u"
  by (simp add: candidate_def)

section \<open>The contract of a log with marks\<close>

text \<open>
  Both halves of the memory keep the same contract with their callers. A caller reads the counter
  (its mark) before an API call, other goroutines may record further refusals while the call runs,
  and the caller then clears what it has an answer for. The counter makes the clearing exact: it
  drops the entries in its scope recorded up to the mark and no entry recorded since.
  \<open>seqOf\<close> reads an entry's number, \<open>lastSeq\<close> the counter, \<open>covers sc f\<close> says that a clearing with
  scope \<open>sc\<close> concerns \<open>f\<close>, \<open>elsewhere\<close> is whatever else the memory's owner does, and \<open>ok\<close> is the representation's invariant.
\<close>

datatype ('i, 's, 'o) log_op = Remember 'i flavor | Forget 's seqno | Other 'o

locale refusal_log =
  fixes seqOf :: "'m \<Rightarrow> flavor \<Rightarrow> seqno option"
    and lastSeq :: "'m \<Rightarrow> seqno"
    and remember :: "'i \<Rightarrow> flavor \<Rightarrow> 'm \<Rightarrow> 'm"
    and forget :: "'s \<Rightarrow> seqno \<Rightarrow> 'm \<Rightarrow> 'm"
    and covers :: "'s \<Rightarrow> flavor \<Rightarrow> bool"
    and elsewhere :: "'o \<Rightarrow> 'm \<Rightarrow> 'm"
    and ok :: "'m \<Rightarrow> bool"
  assumes last_remember: "lastSeq (remember i f m) = lastSeq m + 1"
    and last_forget: "lastSeq (forget sc k m) = lastSeq m"
    and seq_remember: "seqOf (remember i f m) = (seqOf m)(f \<mapsto> lastSeq m + 1)"
    and seq_forget: "ok m \<Longrightarrow> seqOf (forget sc k m) f =
      (case seqOf m f of None \<Rightarrow> None | Some q \<Rightarrow> if covers sc f \<and> q \<le> k then None else Some q)"
    and ok_bounded: "ok m \<Longrightarrow> seqOf m f = Some q \<Longrightarrow> q \<le> lastSeq m"
    and ok_remember: "ok m \<Longrightarrow> unat (lastSeq m) + 1 < 2 ^ 64 \<Longrightarrow> ok (remember i f m)"
    and ok_forget: "ok m \<Longrightarrow> ok (forget sc k m)"
    and last_elsewhere: "lastSeq (elsewhere x m) = lastSeq m"
    and seq_elsewhere: "seqOf (elsewhere x m) = seqOf m"
    and ok_elsewhere: "ok m \<Longrightarrow> ok (elsewhere x m)"
begin

text \<open>What any number of goroutines does to the log, one critical section after the other.\<close>

fun play :: "('i, 's, 'o) log_op list \<Rightarrow> 'm \<Rightarrow> 'm" where
  "play [] m = m"
| "play (Remember i f # ops) m = play ops (remember i f m)"
| "play (Forget sc k # ops) m = play ops (forget sc k m)"
| "play (Other x # ops) m = play ops (elsewhere x m)"

lemma play_ok:
  "ok m \<Longrightarrow> unat (lastSeq m) + length ops < 2 ^ 64 \<Longrightarrow>
   ok (play ops m) \<and> lastSeq m \<le> lastSeq (play ops m) \<and>
   unat (lastSeq (play ops m)) \<le> unat (lastSeq m) + length ops"
proof (induction ops m rule: play.induct)
  case (1 m)
  then show ?case by simp
next
  case (2 i f ops m)
  then have step: "unat (lastSeq m + 1) = unat (lastSeq m) + 1" by (simp add: unat_succ)
  with 2 have "ok (play ops (remember i f m)) \<and> lastSeq m + 1 \<le> lastSeq (play ops (remember i f m)) \<and>
      unat (lastSeq (play ops (remember i f m))) \<le> unat (lastSeq m) + 1 + length ops"
    by (simp add: last_remember ok_remember)
  moreover have "lastSeq m \<le> lastSeq m + 1" using step by (simp add: word_le_nat_alt)
  ultimately show ?case by auto
next
  case (3 sc k ops m)
  then show ?case by (simp add: last_forget ok_forget)
next
  case (4 x ops m)
  then show ?case by (simp add: last_elsewhere ok_elsewhere)
qed

text \<open>An entry that nobody clears afterwards keeps a number above every mark taken before it.\<close>

lemma play_keeps:
  assumes "ok m" and "seqOf m f = Some q" and "unat (lastSeq m) + length ops < 2 ^ 64"
    and "\<And>sc k. Forget sc k \<in> set ops \<Longrightarrow> covers sc f \<Longrightarrow> k < q"
  shows "\<exists>q'. seqOf (play ops m) f = Some q' \<and> q \<le> q'"
  using assms
proof (induction ops m arbitrary: q rule: play.induct)
  case (1 m)
  then show ?case by simp
next
  case (2 i g ops m)
  then have step: "unat (lastSeq m + 1) = unat (lastSeq m) + 1" by (simp add: unat_succ)
  have okr: "ok (remember i g m)" using 2 by (simp add: ok_remember)
  show ?case
  proof (cases "g = f")
    case False
    with 2 step okr show ?thesis by (auto simp: seq_remember last_remember)
  next
    case True
    have q: "q \<le> lastSeq m" using 2 by (blast intro: ok_bounded)
    then have le: "q \<le> lastSeq m + 1" using "2.prems"(3) by (intro le_succ) simp_all
    have "\<exists>q'. seqOf (play ops (remember i g m)) f = Some q' \<and> lastSeq m + 1 \<le> q'"
      using "2.prems" True step okr le
      by (intro "2.IH") (auto simp: seq_remember last_remember dest: order.strict_trans2)
    with le show ?thesis by (auto intro: order_trans)
  qed
next
  case (3 sc k ops m)
  have "\<not> (covers sc f \<and> q \<le> k)" using "3.prems"(4) [of sc k] by (auto simp: not_le)
  then have "seqOf (forget sc k m) f = Some q" using "3.prems" by (simp add: seq_forget)
  with 3 show ?case by (auto simp: last_forget ok_forget)
next
  case (4 x ops m)
  then show ?case by (auto simp: last_elsewhere seq_elsewhere ok_elsewhere)
qed

text \<open>
  The point of the marks: whatever ran since the mark was taken, an entry recorded in between and
  cleared by no one else survives the clearing with that mark.
\<close>

lemma recorded_since_mark_survives:
  assumes "ok m" and "unat (lastSeq m) + length ops < 2 ^ 64"
    and "ops = xs @ Remember i f # ys"
    and "\<And>sc k. Forget sc k \<in> set ys \<Longrightarrow> covers sc f \<Longrightarrow> k \<le> lastSeq m"
  shows "\<exists>q. seqOf (forget sc (lastSeq m) (play ops m)) f = Some q \<and> lastSeq m < q"
proof -
  let ?m1 = "play xs m"
  have split: "play ops m = play ys (remember i f ?m1)"
    unfolding assms(3) by (induction xs m rule: play.induct) simp_all
  have p: "ok ?m1" "lastSeq m \<le> lastSeq ?m1" "unat (lastSeq ?m1) \<le> unat (lastSeq m) + length xs"
    using play_ok [of m xs] assms by auto
  then have nowrap: "unat (lastSeq ?m1) + 1 + length ys < 2 ^ 64"
    using assms(2,3) by simp
  then have new: "lastSeq ?m1 < lastSeq ?m1 + 1" "ok (remember i f ?m1)"
    using p(1) by (auto intro: less_succ ok_remember)
  have above: "lastSeq m < lastSeq ?m1 + 1" using p(2) new(1) by order
  have "\<exists>q. seqOf (play ys (remember i f ?m1)) f = Some q \<and> lastSeq ?m1 + 1 \<le> q"
  proof (rule play_keeps [OF new(2)])
    show "seqOf (remember i f ?m1) f = Some (lastSeq ?m1 + 1)" by (simp add: seq_remember)
    show "unat (lastSeq (remember i f ?m1)) + length ys < 2 ^ 64"
      using nowrap by (simp add: last_remember unat_succ)
    show "k < lastSeq ?m1 + 1" if "Forget sc k \<in> set ys" "covers sc f" for sc k
      using assms(4) [OF that] above by order
  qed
  then obtain q where q: "seqOf (play ops m) f = Some q" "lastSeq ?m1 + 1 \<le> q"
    by (auto simp: split)
  have gt: "lastSeq m < q" using above q(2) by order
  have "ok (play ops m)" using play_ok [of m ops] assms by blast
  with q gt show ?thesis by (auto simp: seq_forget not_le)
qed

text \<open>And what was there when the mark was taken is gone, if it is in scope.\<close>

lemma older_is_forgotten: "ok m \<Longrightarrow> covers sc f \<Longrightarrow> seqOf (forget sc (lastSeq m) m) f = None"
  by (auto simp: seq_forget dest: ok_bounded split: option.splits)

end

section \<open>The two logs of the provider\<close>

text \<open>One critical section of \<^verbatim>\<open>mu\<close> that writes, as a value, so that runs of them are lists.\<close>

datatype ref_op =
    RecordQuota flavor string time
  | RecordHold flavor time
  | ClearQuota seqno
  | ClearHold flavor seqno

fun run_op :: "catalogue \<Rightarrow> ref_op \<Rightarrow> refusals \<Rightarrow> refusals" where
  "run_op cat (RecordQuota f msg now) m = recordQuotaRejection cat now f msg m"
| "run_op cat (RecordHold f now) m = recordFlavorRejection now f m"
| "run_op cat (ClearQuota k) m = clearQuotaRejections k m"
| "run_op cat (ClearHold f k) m = clearFlavorRejection f k m"

definition run_ops :: "catalogue \<Rightarrow> ref_op list \<Rightarrow> refusals \<Rightarrow> refusals" where
  "run_ops cat ops m = fold (run_op cat) ops m"

lemma run_ops_simps [simp]:
  "run_ops cat [] m = m"
  "run_ops cat (x # ops) m = run_ops cat ops (run_op cat x m)"
  by (simp_all add: run_ops_def)

abbreviation quotaSeqOf :: "refusals \<Rightarrow> flavor \<Rightarrow> seqno option" where
  "quotaSeqOf m f \<equiv> map_option qrSeq (map_of (quotaRejections m) f)"

abbreviation holdSeqOf :: "refusals \<Rightarrow> flavor \<Rightarrow> seqno option" where
  "holdSeqOf m f \<equiv> map_option hoSeq (map_of (rejectedFlavors m) f)"

fun hold_op :: "ref_op \<Rightarrow> refusals \<Rightarrow> refusals" where
  "hold_op (RecordHold f now) m = recordFlavorRejection now f m"
| "hold_op (ClearHold f k) m = clearFlavorRejection f k m"
| "hold_op _ m = m"

fun quota_op :: "catalogue \<times> ref_op \<Rightarrow> refusals \<Rightarrow> refusals" where
  "quota_op (cat, RecordQuota f msg now) m = recordQuotaRejection cat now f msg m"
| "quota_op (cat, ClearQuota k) m = clearQuotaRejections k m"
| "quota_op _ m = m"

lemma quota_frames [frames, simp]:
  "rejectedFlavors (recordQuotaRejection cat now f msg m) = rejectedFlavors m"
  "holdOutSeq (recordQuotaRejection cat now f msg m) = holdOutSeq m"
  "rejectedFlavors (clearQuotaRejections k m) = rejectedFlavors m"
  "holdOutSeq (clearQuotaRejections k m) = holdOutSeq m"
  by (simp_all add: recordQuotaRejection_def clearQuotaRejections_def Let_def)

lemma hold_frames [frames, simp]:
  "quotaRejections (recordFlavorRejection now f m) = quotaRejections m"
  "quotaRejectionSeq (recordFlavorRejection now f m) = quotaRejectionSeq m"
  "quotaRejections (clearFlavorRejection f k m) = quotaRejections m"
  "quotaRejectionSeq (clearFlavorRejection f k m) = quotaRejectionSeq m"
  by (simp_all add: recordFlavorRejection_def clearFlavorRejection_def Let_def split: option.splits)

lemma hold_op_frames [simp]:
  "quotaRejections (hold_op x m) = quotaRejections m"
  "quotaRejectionSeq (hold_op x m) = quotaRejectionSeq m"
  by (cases x; simp)+

lemma quota_op_frames [simp]:
  "rejectedFlavors (quota_op x m) = rejectedFlavors m"
  "holdOutSeq (quota_op x m) = holdOutSeq m"
  by (cases "(x, m)" rule: quota_op.cases; simp)+

lemma set_update_distinct:
  "distinct (map fst xs) \<Longrightarrow>
   set (AList.update k v xs) = insert (k, v) {(c, r) \<in> set xs. c \<noteq> k}"
  by (induction xs) (auto simp: rev_image_eqI)

lemma recordQuotaRejection_simps:
  "quotaRejectionSeq (recordQuotaRejection cat now f msg m) = quotaRejectionSeq m + 1"
  "map_of (quotaRejections (recordQuotaRejection cat now f msg m)) =
     (map_of (quotaRejections m))(f \<mapsto>
        \<lparr>qrAt = now, qrMessage = msg, qrSeq = quotaRejectionSeq m + 1, qrSize = sizing cat f\<rparr>)"
  by (simp_all add: recordQuotaRejection_def Let_def update_conv')

lemma recordFlavorRejection_simps:
  "holdOutSeq (recordFlavorRejection now f m) = holdOutSeq m + 1"
  "map_of (rejectedFlavors (recordFlavorRejection now f m)) =
     (map_of (rejectedFlavors m))(f \<mapsto> \<lparr>hoAt = now, hoSeq = holdOutSeq m + 1\<rparr>)"
  by (simp_all add: recordFlavorRejection_def Let_def update_conv')

lemma wf_quota_record:
  "wf_quota m \<Longrightarrow> unat (quotaRejectionSeq m) + 1 < 2 ^ 64 \<Longrightarrow>
   wf_quota (recordQuotaRejection cat now f msg m)"
  by (auto simp: wf_quota_def recordQuotaRejection_def Let_def set_update_distinct distinct_update
      intro: le_succ)

lemma wf_holds_record:
  "wf_holds m \<Longrightarrow> unat (holdOutSeq m) + 1 < 2 ^ 64 \<Longrightarrow> wf_holds (recordFlavorRejection now f m)"
  by (auto simp: wf_holds_def recordFlavorRejection_def Let_def set_update_distinct distinct_update
      intro: le_succ)

lemma wf_quota_clear: "wf_quota m \<Longrightarrow> wf_quota (clearQuotaRejections k m)"
  by (auto simp: wf_quota_def clearQuotaRejections_def distinct_fst_filter)

lemma wf_holds_clear: "wf_holds m \<Longrightarrow> wf_holds (clearFlavorRejection f k m)"
  by (auto simp: wf_holds_def clearFlavorRejection_def AList.delete_eq distinct_fst_filter
      split: option.splits)

lemma map_of_clearQuota:
  "wf_quota m \<Longrightarrow>
   map_of (quotaRejections (clearQuotaRejections k m)) f =
     (case map_of (quotaRejections m) f of None \<Rightarrow> None | Some r \<Rightarrow> if qrSeq r \<le> k then None else Some r)"
  by (simp add: wf_quota_def clearQuotaRejections_def map_of_filter_keys split: option.splits)

lemma map_of_clearHold:
  "map_of (rejectedFlavors (clearFlavorRejection f k m)) g =
     (case map_of (rejectedFlavors m) g of None \<Rightarrow> None
      | Some h \<Rightarrow> if g = f \<and> hoSeq h \<le> k then None else Some h)"
  by (auto simp: clearFlavorRejection_def delete_conv' split: option.splits)

lemma holdOutSeq_clear [simp]: "holdOutSeq (clearFlavorRejection f k m) = holdOutSeq m"
  by (simp add: clearFlavorRejection_def split: option.splits)

lemma quotaRejectionSeq_clear [simp]:
  "quotaRejectionSeq (clearQuotaRejections k m) = quotaRejectionSeq m"
  by (simp add: clearQuotaRejections_def)

interpretation quotaLog: refusal_log quotaSeqOf quotaRejectionSeq
  "\<lambda>(cat, now, msg) f m. recordQuotaRejection cat now f msg m"
  "\<lambda>(_::unit) k m. clearQuotaRejections k m" "\<lambda>_ _. True" hold_op wf_quota
  by unfold_locales
     (auto simp: recordQuotaRejection_simps map_of_clearQuota fun_eq_iff wf_quota_record
        wf_quota_clear split: option.splits dest: map_of_SomeD, auto simp: wf_quota_def dest!: map_of_SomeD)

interpretation holdLog: refusal_log holdSeqOf holdOutSeq
  "\<lambda>now f m. recordFlavorRejection now f m"
  "\<lambda>f k m. clearFlavorRejection f k m" "\<lambda>f g. f = g" quota_op wf_holds
  by unfold_locales
     (auto simp: recordFlavorRejection_simps map_of_clearHold fun_eq_iff wf_holds_record
        wf_holds_clear split: option.splits dest: map_of_SomeD, auto simp: wf_holds_def dest!: map_of_SomeD)

fun as_hold_op :: "catalogue \<Rightarrow> ref_op \<Rightarrow> (time, flavor, catalogue \<times> ref_op) log_op" where
  "as_hold_op cat (RecordHold f now) = Remember now f"
| "as_hold_op cat (ClearHold f k) = Forget f k"
| "as_hold_op cat x = Other (cat, x)"

fun as_quota_op :: "catalogue \<Rightarrow> ref_op \<Rightarrow> (catalogue \<times> time \<times> string, unit, ref_op) log_op" where
  "as_quota_op cat (RecordQuota f msg now) = Remember (cat, now, msg) f"
| "as_quota_op cat (ClearQuota k) = Forget () k"
| "as_quota_op cat x = Other x"

lemma run_ops_as_holds: "run_ops cat ops m = holdLog.play (map (as_hold_op cat) ops) m"
proof (induction ops arbitrary: m)
  case (Cons x ops)
  then show ?case by (cases x) simp_all
qed simp

lemma run_ops_as_quota: "run_ops cat ops m = quotaLog.play (map (as_quota_op cat) ops) m"
proof (induction ops arbitrary: m)
  case (Cons x ops)
  then show ?case by (cases x) simp_all
qed simp

lemma as_hold_op_Forget: "as_hold_op cat x = Forget f k \<longleftrightarrow> x = ClearHold f k"
  by (cases x) auto

lemma as_quota_op_Forget: "as_quota_op cat x = Forget u k \<longleftrightarrow> x = ClearQuota k"
  by (cases x) auto

lemma wf_run_ops:
  "wf_quota m \<Longrightarrow> unat (quotaRejectionSeq m) + length ops < 2 ^ 64 \<Longrightarrow> wf_quota (run_ops cat ops m)"
  "wf_holds m \<Longrightarrow> unat (holdOutSeq m) + length ops < 2 ^ 64 \<Longrightarrow> wf_holds (run_ops cat ops m)"
  using quotaLog.play_ok [of m "map (as_quota_op cat) ops"]
    holdLog.play_ok [of m "map (as_hold_op cat) ops"]
  by (simp_all add: run_ops_as_quota [symmetric] run_ops_as_holds [symmetric])

section \<open>What the memory promises\<close>

text \<open>One rejection covering a flavor now, and unavailability as the existence of one.\<close>

definition coversNow :: "time \<Rightarrow> flavor \<Rightarrow> sizing option \<Rightarrow> flavor \<times> quotaRejection \<Rightarrow> bool" where
  "coversNow now f sz e =
     (case e of (g, r) \<Rightarrow>
        if g = f then now < qrAt r + minute
        else (\<exists>s t. sz = Some s \<and> qrSize r = Some t \<and> AtLeast s t) \<and> now < qrAt r + 2 * minute)"

lemma coversNow_iff:
  "coversNow now f sz (g, r) \<longleftrightarrow> (\<exists>u. coverage r g f sz = Some u \<and> now < u)"
  by (auto simp: coversNow_def coverage_def QuotaBackoff_def split: option.splits)

lemma covering_iff_coversNow:
  "quotaRejectionCovering now f sz m \<noteq> None \<longleftrightarrow> (\<exists>e \<in> set (quotaRejections m). coversNow now f sz e)"
proof -
  have "(\<exists>c r u. candidate now f sz rs c r u) \<longleftrightarrow> (\<exists>e \<in> set rs. coversNow now f sz e)" for rs
    unfolding candidate_def Bex_def split_paired_Ex coversNow_iff by blast
  then show ?thesis by (simp only: covering_ex)
qed

lemma Unavailable_coversNow:
  "Unavailable cat now f m \<longleftrightarrow>
     held now f m \<or> (\<exists>e \<in> set (quotaRejections m). coversNow now f (sizing cat f) e)"
  unfolding Unavailable_def Let_def covering_iff_coversNow [symmetric] by simp

lemma held_iff: "held now f m \<longleftrightarrow> (\<exists>h. map_of (rejectedFlavors m) f = Some h \<and> now < hoAt h + 5 * minute)"
  by (auto simp: held_def flavorBackoff_def split: option.splits)

text \<open>
  C15. When a flavor is unavailable. A launch of a flavor is known to fail exactly while its own
  refusal is less than five minutes old, its own quota rejection less than one minute old, or a
  quota rejection of another flavor it is at least as large as less than two minutes old (both
  flavors being sized).
\<close>

theorem Unavailable_iff:
  "Unavailable cat now f m \<longleftrightarrow>
     (\<exists>h. map_of (rejectedFlavors m) f = Some h \<and> now < hoAt h + 5 * minute) \<or>
     (\<exists>(g, r) \<in> set (quotaRejections m).
        if g = f then now < qrAt r + minute
        else (\<exists>s t. sizing cat f = Some s \<and> qrSize r = Some t \<and> AtLeast s t) \<and>
             now < qrAt r + 2 * minute)"
  unfolding Unavailable_coversNow held_iff coversNow_def ..

text \<open>
  The scheduler's view and Create's guard agree: a flavor is reported unavailable exactly when it
  is held out or a launch of it would be failed fast, and the fast-fail, which happens exactly while
  a quota rejection covers the flavor, names that flavor.
\<close>

theorem quotaFastFail_agrees:
  "(Unavailable cat now f m \<longleftrightarrow> held now f m \<or> (\<exists>e. quotaFastFail cat now f m = Some e)) \<and>
   map_option qeFlavor (quotaFastFail cat now f m) =
     map_option (\<lambda>_. f) (quotaRejectionCovering now f (sizing cat f) m)"
  by (cases "quotaRejectionCovering now f (sizing cat f) m")
     (auto simp: Unavailable_def quotaFastFail_def Let_def)

text \<open>
  Staged reopening. After a quota rejection of \<open>f\<close> at time \<open>t\<close>, what it adds to the rejections of
  the other flavors is: \<open>f\<close> itself for one minute, every other flavor at least as large for two, and
  nothing else. So for the second minute the rejected flavor, the cheapest probe, is launchable
  again while the larger ones wait for its outcome, and smaller flavors are never affected.
\<close>

theorem quota_rejection_reopens_in_stages:
  assumes "wf_quota m"
  shows "Unavailable cat now g (recordQuotaRejection cat t f msg m) \<longleftrightarrow>
     Unavailable cat now g (m\<lparr>quotaRejections := AList.delete f (quotaRejections m)\<rparr>) \<or>
     (if g = f then now < t + minute
      else (\<exists>sg sf. sizing cat g = Some sg \<and> sizing cat f = Some sf \<and> AtLeast sg sf) \<and>
           now < t + 2 * minute)"
proof -
  let ?e = "(f, \<lparr>qrAt = t, qrMessage = msg, qrSeq = quotaRejectionSeq m + 1, qrSize = sizing cat f\<rparr>)"
  have set: "set (quotaRejections (recordQuotaRejection cat t f msg m)) =
      insert ?e (set (AList.delete f (quotaRejections m)))"
    using assms
    by (auto simp: recordQuotaRejection_def Let_def wf_quota_def set_update_distinct AList.delete_eq)
  have held: "held now g (m\<lparr>quotaRejections := xs\<rparr>) = held now g m" for xs
    by (simp add: held_def)
  have held': "held now g (recordQuotaRejection cat t f msg m) = held now g m"
    by (simp add: held_def)
  show ?thesis
    unfolding Unavailable_coversNow held held' set by (auto simp: coversNow_def)
qed

theorem quota_rejection_reopens_in_stages_witness:
  "Unavailable (Some SizingByName) (90 * second) ''M''
     (recordQuotaRejection (Some SizingByName) 0 ''S'' [] refusals0) \<and>
   \<not> Unavailable (Some SizingByName) (90 * second) ''S''
     (recordQuotaRejection (Some SizingByName) 0 ''S'' [] refusals0)"
  unfolding quota_rejection_reopens_in_stages [OF wf_refusals0(1)]
  by (simp add: Unavailable_coversNow held_def refusals0_def sizing_def SizingByName_def
      FlavorSizing_def AtLeast_def dur_defs AList.delete_eq)

text \<open>
  The answer does not depend on Go's map order. Two memories that hold the same rejections, listed
  in any order, name the same covering rejection, with the same end: the fast-fail message is stable.
\<close>

theorem covering_order_independent:
  assumes "distinct (map fst (quotaRejections m))"
    and "set (quotaRejections m') = set (quotaRejections m)"
  shows "quotaRejectionCovering now f sz m' = quotaRejectionCovering now f sz m"
proof -
  have same: "candidate now f sz (quotaRejections m') c r u = candidate now f sz (quotaRejections m) c r u" for c r u
    using assms(2) by (simp add: candidate_def)
  show ?thesis
  proof (cases "quotaRejectionCovering now f sz m")
    case None
    then have "quotaRejectionCovering now f sz m' = None" by (simp add: covering_None same)
    with None show ?thesis by simp
  next
    case (Some a)
    then obtain c r u where m: "quotaRejectionCovering now f sz m = Some (c, r, u)" by (cases a) simp
    then have "quotaRejectionCovering now f sz m' \<noteq> None"
      using covering_Some(1) [OF m] by (simp only: covering_ex same) blast
    then obtain c' r' u' where m': "quotaRejectionCovering now f sz m' = Some (c', r', u')" by auto
    from covering_Some(2) [OF m, of c' r' u'] covering_Some(2) [OF m', of c r u]
      covering_Some(1) [OF m] covering_Some(1) [OF m']
    have "u' = u" "c' = c" by (auto simp: same)
    moreover have "r' = r"
      using covering_Some(1) [OF m] covering_Some(1) [OF m'] assms(1) \<open>c' = c\<close>
      by (auto simp: assms(2) candidate_def dest: eq_key_imp_eq_value)
    ultimately show ?thesis using m m' by simp
  qed
qed

theorem covering_order_independent_witness:
  "quotaRejectionCovering 0 ''L'' (Some (Sizing 12 22896304))
     (refusals0\<lparr>quotaRejections :=
        [(''XS'', \<lparr>qrAt = 0, qrMessage = [], qrSeq = 2, qrSize = Some (Sizing 6 7553664)\<rparr>),
         (''S'', \<lparr>qrAt = 0, qrMessage = [], qrSeq = 1, qrSize = Some (Sizing 8 11385832)\<rparr>)]\<rparr>)
   = Some (''S'', \<lparr>qrAt = 0, qrMessage = [], qrSeq = 1, qrSize = Some (Sizing 8 11385832)\<rparr>, 2 * minute)"
  (is "quotaRejectionCovering 0 ?f ?s ?m' = ?r")
proof -
  let ?m = "refusals0\<lparr>quotaRejections := rev (quotaRejections ?m')\<rparr>"
  have "quotaRejectionCovering 0 ?f ?s ?m' = quotaRejectionCovering 0 ?f ?s ?m"
    by (rule covering_order_independent) (simp_all add: insert_commute)
  also have "\<dots> = ?r"
    by (simp add: quotaRejectionCovering_def covering_step_def coverage_def AtLeast_def dur_defs)
  finally show ?thesis .
qed

text \<open>
  C16. A refusal recorded while a launch is polled is not answered by that launch's acceptance. Whatever
  other goroutines do between the launch's mark and its acceptance, a hold-out of the launch's
  flavor recorded in that window, and cleared by no later launch, still stands after the acceptance.
\<close>

theorem late_refusal_survives_acceptance:
  assumes "wf_holds m" and "unat (holdOutSeq m) + length ops < 2 ^ 64"
    and "ops = xs @ RecordHold f t # ys"
    and "\<And>k. ClearHold f k \<in> set ys \<Longrightarrow> k \<le> holdOutMark m"
  shows "f \<in> dom (map_of (rejectedFlavors (clearFlavorRejection f (holdOutMark m) (run_ops cat ops m))))"
proof -
  have "\<exists>q. holdSeqOf (clearFlavorRejection f (holdOutSeq m)
      (holdLog.play (map (as_hold_op cat) ops) m)) f = Some q \<and> holdOutSeq m < q"
  proof (rule holdLog.recorded_since_mark_survives)
    show "map (as_hold_op cat) ops = map (as_hold_op cat) xs @ Remember t f # map (as_hold_op cat) ys"
      by (simp add: assms(3))
    show "k \<le> holdOutSeq m" if "Forget sc k \<in> set (map (as_hold_op cat) ys)" "sc = f" for sc k
      using that assms(4) [of k] by (auto simp: holdOutMark_def as_hold_op_Forget dest!: sym [of "Forget _ _"])
  qed (use assms(1,2) in simp_all)
  then show ?thesis by (auto simp: run_ops_as_holds holdOutMark_def)
qed

theorem late_refusal_survives_acceptance_witness:
  "''M'' \<in> dom (map_of (rejectedFlavors (clearFlavorRejection ''M'' (holdOutMark refusals0)
     (run_ops None [RecordQuota ''S'' [] 0, RecordHold ''M'' 5] refusals0))))"
  by (rule late_refusal_survives_acceptance [where xs = "[RecordQuota ''S'' [] 0]" and t = 5 and ys = "[]"])
     (simp_all add: refusals0_def wf_holds_def)

text \<open>
  An accepted DELETE forgets exactly what was known before it. Every quota rejection recorded up to
  the mark is gone; one recorded while the DELETE was in flight survives it.
\<close>

theorem delete_forgets_exactly_older_rejections:
  assumes "wf_quota m" and "unat (quotaRejectionSeq m) + length ops < 2 ^ 64"
  shows "quotaRejections (clearQuotaRejections (quotaRejectionMark m) m) = [] \<and>
    (\<forall>xs f msg t ys. ops = xs @ RecordQuota f msg t # ys \<longrightarrow>
       (\<forall>k. ClearQuota k \<in> set ys \<longrightarrow> k \<le> quotaRejectionMark m) \<longrightarrow>
       f \<in> dom (map_of (quotaRejections (clearQuotaRejections (quotaRejectionMark m) (run_ops cat ops m)))))"
proof (intro conjI allI impI)
  show "quotaRejections (clearQuotaRejections (quotaRejectionMark m) m) = []"
    using assms(1)
    by (auto simp: wf_quota_def clearQuotaRejections_def quotaRejectionMark_def filter_empty_conv)
next
  fix xs f msg t ys
  assume ops: "ops = xs @ RecordQuota f msg t # ys"
    and clr: "\<forall>k. ClearQuota k \<in> set ys \<longrightarrow> k \<le> quotaRejectionMark m"
  have "\<exists>q. quotaSeqOf (clearQuotaRejections (quotaRejectionSeq m)
      (quotaLog.play (map (as_quota_op cat) ops) m)) f = Some q \<and> quotaRejectionSeq m < q"
  proof (rule quotaLog.recorded_since_mark_survives)
    show "map (as_quota_op cat) ops =
        map (as_quota_op cat) xs @ Remember (cat, t, msg) f # map (as_quota_op cat) ys"
      by (simp add: ops)
    show "k \<le> quotaRejectionSeq m" if "Forget sc k \<in> set (map (as_quota_op cat) ys)" for sc k
      using that clr by (auto simp: quotaRejectionMark_def as_quota_op_Forget dest!: sym [of "Forget _ _"])
  qed (use assms in simp_all)
  then show "f \<in> dom (map_of (quotaRejections (clearQuotaRejections (quotaRejectionMark m) (run_ops cat ops m))))"
    by (auto simp: run_ops_as_quota quotaRejectionMark_def)
qed

theorem delete_forgets_exactly_older_rejections_witness:
  "''M'' \<in> dom (map_of (quotaRejections (clearQuotaRejections (quotaRejectionMark refusals0)
     (run_ops None [RecordHold ''S'' 0, RecordQuota ''M'' [] 5] refusals0))))"
proof -
  have "wf_quota refusals0" "unat (quotaRejectionSeq refusals0) +
      length [RecordHold ''S'' 0, RecordQuota ''M'' [] 5] < 2 ^ 64"
    by (simp_all add: refusals0_def wf_quota_def)
  from delete_forgets_exactly_older_rejections [OF this, of None, THEN conjunct2, rule_format,
      of "[RecordHold ''S'' 0]" "''M''" "[]" 5 "[]"]
  show ?thesis by simp
qed

end
