(* ===== verification/System.thy ===== *)
theory System
  imports NodeGroupTypes RefusalMemory
begin

text \<open>
  What the controllers share. The Kubernetes objects they read, with the fields the sources use; the
  API as a parameter (\<open>kube\<close>): the client library and the API server are not this repository's code,
  so every call is an arbitrary function of the world, which it may change; and the process state
  (\<open>sys\<close>): the world, the trace of effects in program order, and the memory of refusals.

  Other goroutines run while an API call is in flight. The effect of that on the shared memory of
  refusals is a list of its critical sections (\<open>kOthers\<close>), again an arbitrary function of the
  world. Everything else of the process state belongs to one goroutine at a time.
\<close>

section \<open>Objects of the Kubernetes API\<close>

type_synonym quantity = rat
type_synonym resources = "string \<rightharpoonup> quantity"

record condition =
  cdStatus :: string
  cdReason :: string
  cdMessage :: string

type_synonym conditions = "string \<rightharpoonup> condition"

text \<open>\<open>conditions.Get(t).IsTrue()\<close>: a condition that is absent is not true.\<close>

definition IsTrue :: "conditions \<Rightarrow> string \<Rightarrow> bool" where
  "IsTrue cs t = (case cs t of None \<Rightarrow> False | Some c \<Rightarrow> cdStatus c = ConditionTrue)"

record class_ref =
  crGroup :: string
  crKind :: string
  crName :: name

record requirement =
  rqKey :: string
  rqOperator :: string
  rqValues :: "string list"
  rqMinValues :: "int option"

record nodeclaim =
  ncMeta :: object_meta
  ncClassRef :: "class_ref option"
  ncRequirements :: "requirement list"
  ncRequests :: resources
  ncProviderID :: string
  ncConditions :: conditions

abbreviation ncName :: "nodeclaim \<Rightarrow> name" where "ncName c \<equiv> omName (ncMeta c)"
abbreviation ncUID :: "nodeclaim \<Rightarrow> string" where "ncUID c \<equiv> omUID (ncMeta c)"
abbreviation ncTerminating :: "nodeclaim \<Rightarrow> bool" where
  "ncTerminating c \<equiv> omDeleted (ncMeta c) \<noteq> None"

text \<open>
  A CleverNodeClass. Its labels are Go's possibly nil map, an association list because the code
  iterates over it: \<open>None\<close> is nil, \<open>Some []\<close> the empty map.
\<close>

record nodeclass =
  clMeta :: object_meta
  clLabels :: "(string \<times> string) list option"
  clConditions :: conditions

abbreviation clName :: "nodeclass \<Rightarrow> name" where "clName c \<equiv> omName (clMeta c)"
abbreviation clTerminating :: "nodeclass \<Rightarrow> bool" where
  "clTerminating c \<equiv> omDeleted (clMeta c) \<noteq> None"

record node =
  noMeta :: object_meta
  noProviderID :: string
  noCapacity :: resources
  noAllocatable :: resources

abbreviation noName :: "node \<Rightarrow> name" where "noName n \<equiv> omName (noMeta n)"
abbreviation noLabels :: "node \<Rightarrow> strmap" where "noLabels n \<equiv> omLabels (noMeta n)"

record nodepool =
  npMeta :: object_meta
  npLimits :: resources

section \<open>Errors of API calls\<close>

text \<open>
  The classes of errors the sources tell apart (\<^verbatim>\<open>apierrors.IsNotFound\<close> and its kin). \<open>Invalid\<close> carries
  the causes (field, message) of the status details, \<open>None\<close> when the error has no details; \<open>CtxErr\<close>
  is an error that wraps the end of the call's context.
\<close>

datatype api_error =
    NotFound
  | AlreadyExists
  | Conflict
  | Invalid "(string \<times> string) list option"
  | CtxErr
  | OtherErr string

text \<open>\<^verbatim>\<open>client.IgnoreNotFound\<close>.\<close>

definition IgnoreNotFound :: "api_error \<Rightarrow> api_error option" where
  "IgnoreNotFound e = (if e = NotFound then None else Some e)"

section \<open>The API as a parameter\<close>

datatype reader = Cached | Uncached

text \<open>What ends a wait between two polls: the interval, or the context of the poll.\<close>

datatype poll_wait = Tick | CtxDone

record 'w kube =
  kNow :: "'w \<Rightarrow> time"
  kOthers :: "'w \<Rightarrow> ref_op list"
  kGetNG :: "reader \<Rightarrow> name \<Rightarrow> 'w \<Rightarrow> (api_error + nodegroup) \<times> 'w"
  kListNG :: "(string \<times> string) list \<Rightarrow> 'w \<Rightarrow> (api_error + nodegroup list) \<times> 'w"
  kCreateNG :: "nodegroup \<Rightarrow> 'w \<Rightarrow> (api_error + nodegroup) \<times> 'w"
  kDeleteNG :: "name \<Rightarrow> 'w \<Rightarrow> api_error option \<times> 'w"
  kPatchNG :: "nodegroup \<Rightarrow> nodegroup \<Rightarrow> 'w \<Rightarrow> api_error option \<times> 'w"
  kGetClaim :: "reader \<Rightarrow> name \<Rightarrow> 'w \<Rightarrow> (api_error + nodeclaim) \<times> 'w"
  kListClaims :: "'w \<Rightarrow> (api_error + nodeclaim list) \<times> 'w"
  kDeleteClaim :: "nodeclaim \<Rightarrow> (string \<times> string) option \<Rightarrow> 'w \<Rightarrow> api_error option \<times> 'w"
  kGetClass :: "reader \<Rightarrow> name \<Rightarrow> 'w \<Rightarrow> (api_error + nodeclass) \<times> 'w"
  kPatchClass :: "nodeclass \<Rightarrow> nodeclass \<Rightarrow> 'w \<Rightarrow> (api_error + nodeclass) \<times> 'w"
  kPatchClassStatus :: "nodeclass \<Rightarrow> nodeclass \<Rightarrow> 'w \<Rightarrow> api_error option \<times> 'w"
  kGetPool :: "name \<Rightarrow> 'w \<Rightarrow> (api_error + nodepool) \<times> 'w"
  kGetNode :: "reader \<Rightarrow> name \<Rightarrow> 'w \<Rightarrow> (api_error + node) \<times> 'w"
  kListNodes :: "(string \<times> string) list \<Rightarrow> 'w \<Rightarrow> (api_error + node list) \<times> 'w"
  kPatchNode :: "node \<Rightarrow> node \<Rightarrow> 'w \<Rightarrow> api_error option \<times> 'w"
  kPollWait :: "'w \<Rightarrow> poll_wait \<times> 'w"
  kParentDone :: "'w \<Rightarrow> bool"

section \<open>Effects\<close>

datatype counter =
    NodeGroupAcceptanceTimeouts
  | NodeGroupQuotaRejections
  | NodeGroupVanished
  | NodeGroupRejections
  | GCReapedNodeGroups
  | UnknownFlavorLookups
  | ObservedCapacityRejections

datatype gauge =
    NodeGroupSyncOverdue
  | NodeGroupDeletionOverdue
  | NodeGroupExternalResizes
  | GCRefusedNodeGroups
  | FlavorsConfigInvalid
  | HostEphemeralStorageReady
  | HostEphemeralStorageCapacity
  | HostEphemeralStorageAllocatable

datatype involved = OnClaim name | OnGroup name | OnClass name

text \<open>
  A published event. Its message is a fixed text with values interpolated: the values, in order, are
  \<open>evArgs\<close>; the fixed wording is not modelled.
\<close>

record event =
  evOn :: involved
  evWarning :: bool
  evReason :: string
  evArgs :: "string list"
  evDedupe :: "string list"

datatype effect =
    ReadNG reader name "api_error + nodegroup"
  | CreatedNG nodegroup "api_error + nodegroup"
  | DeletedNG name "api_error option"
  | PatchedNG nodegroup nodegroup "api_error option"
  | ReadClaim reader name "api_error + nodeclaim"
  | DeletedClaim nodeclaim "(string \<times> string) option" "api_error option"
  | ReadClass reader name "api_error + nodeclass"
  | PatchedClass nodeclass nodeclass "api_error + nodeclass"
  | PatchedClassStatus nodeclass nodeclass "api_error option"
  | ReadPool name "api_error + nodepool"
  | ReadNode reader name "api_error + node"
  | PatchedNode node node "api_error option"
  | ListedNG "(string \<times> string) list" "api_error + nodegroup list"
  | ListedClaims "api_error + nodeclaim list"
  | ListedNodes "(string \<times> string) list" "api_error + node list"
  | Count counter
  | SetGauge gauge rat
  | Publish event
  | Logged string name

record 'w sys =
  world :: 'w
  trace :: "effect list"
  refs :: refusals

section \<open>Calls\<close>

definition emit :: "effect \<Rightarrow> 'w sys \<Rightarrow> 'w sys" where
  "emit e s = s\<lparr>trace := trace s @ [e]\<rparr>"

text \<open>
  Time passing, to a new world: other goroutines did something to the refusals meanwhile. The end of
  a call adds its place in the trace.
\<close>

definition elapse :: "'w kube \<Rightarrow> catalogue \<Rightarrow> 'w \<Rightarrow> 'w sys \<Rightarrow> 'w sys" where
  "elapse K cat w s = s\<lparr>world := w, refs := run_ops cat (kOthers K w) (refs s)\<rparr>"

definition returned :: "'w kube \<Rightarrow> catalogue \<Rightarrow> 'w \<Rightarrow> effect \<Rightarrow> 'w sys \<Rightarrow> 'w sys" where
  "returned K cat w e s = emit e (elapse K cat w s)"

definition call ::
  "'w kube \<Rightarrow> catalogue \<Rightarrow> ('w \<Rightarrow> 'r \<times> 'w) \<Rightarrow> ('r \<Rightarrow> effect) \<Rightarrow> 'w sys \<Rightarrow> 'r \<times> 'w sys" where
  "call K cat f e s = (let (r, w) = f (world s) in (r, returned K cat w (e r) s))"

definition getNG where
  "getNG K cat rd n = call K cat (kGetNG K rd n) (ReadNG rd n)"
definition listNG where
  "listNG K cat sel = call K cat (kListNG K sel) (ListedNG sel)"
definition createNG where
  "createNG K cat ng = call K cat (kCreateNG K ng) (CreatedNG ng)"
definition deleteNG where
  "deleteNG K cat n = call K cat (kDeleteNG K n) (DeletedNG n)"
definition patchNG where
  "patchNG K cat old new = call K cat (kPatchNG K old new) (PatchedNG old new)"
definition getClaim where
  "getClaim K cat rd n = call K cat (kGetClaim K rd n) (ReadClaim rd n)"
definition listClaims where
  "listClaims K cat = call K cat (kListClaims K) ListedClaims"
definition deleteClaim where
  "deleteClaim K cat c pre = call K cat (kDeleteClaim K c pre) (DeletedClaim c pre)"
definition getClass where
  "getClass K cat rd n = call K cat (kGetClass K rd n) (ReadClass rd n)"
definition patchClass where
  "patchClass K cat old new = call K cat (kPatchClass K old new) (PatchedClass old new)"
definition patchClassStatus where
  "patchClassStatus K cat old new = call K cat (kPatchClassStatus K old new) (PatchedClassStatus old new)"
definition getPool where
  "getPool K cat n = call K cat (kGetPool K n) (ReadPool n)"
definition getNode where
  "getNode K cat rd n = call K cat (kGetNode K rd n) (ReadNode rd n)"
definition listNodes where
  "listNodes K cat sel = call K cat (kListNodes K sel) (ListedNodes sel)"
definition patchNode where
  "patchNode K cat old new = call K cat (kPatchNode K old new) (PatchedNode old new)"

definition now :: "'w kube \<Rightarrow> 'w sys \<Rightarrow> time" where
  "now K s = kNow K (world s)"

text \<open>Writing the memory of refusals.\<close>

definition remember_quota :: "'w kube \<Rightarrow> catalogue \<Rightarrow> flavor \<Rightarrow> string \<Rightarrow> 'w sys \<Rightarrow> 'w sys" where
  "remember_quota K cat f msg s = s\<lparr>refs := recordQuotaRejection cat (now K s) f msg (refs s)\<rparr>"

definition remember_hold :: "'w kube \<Rightarrow> flavor \<Rightarrow> 'w sys \<Rightarrow> 'w sys" where
  "remember_hold K f s = s\<lparr>refs := recordFlavorRejection (now K s) f (refs s)\<rparr>"

lemmas call_defs = getNG_def listNG_def createNG_def deleteNG_def patchNG_def getClaim_def
  listClaims_def deleteClaim_def getClass_def patchClass_def patchClassStatus_def getPool_def
  getNode_def listNodes_def patchNode_def

section \<open>What a stretch of the program did\<close>

text \<open>
  \<open>did s s'\<close>: the effects between two states of one run. All operations only ever append to the
  trace (\<open>extends\<close>), so the effects of a sequence are those of its parts in order.
\<close>

definition extends :: "'w sys \<Rightarrow> 'w sys \<Rightarrow> bool" where
  "extends s s' \<longleftrightarrow> (\<exists>es. trace s' = trace s @ es)"

definition did :: "'w sys \<Rightarrow> 'w sys \<Rightarrow> effect list" where
  "did s s' = drop (length (trace s)) (trace s')"

lemma extends_refl [simp, intro]: "extends s s"
  by (simp add: extends_def)

lemma extends_trans: "extends s t \<Longrightarrow> extends t u \<Longrightarrow> extends s u"
  by (auto simp: extends_def)

lemma did_self [simp]: "did s s = []"
  by (simp add: did_def)

lemma did_trans: "extends s t \<Longrightarrow> extends t u \<Longrightarrow> did s u = did s t @ did t u"
  by (auto simp: extends_def did_def)

lemma trace_emit [simp]: "trace (emit e s) = trace s @ [e]"
  by (simp add: emit_def)

lemma world_emit [simp]: "world (emit e s) = world s" "refs (emit e s) = refs s"
  by (simp_all add: emit_def)

lemma elapse_simps [simp]:
  "trace (elapse K cat w s) = trace s" "world (elapse K cat w s) = w"
  "refs (elapse K cat w s) = run_ops cat (kOthers K w) (refs s)"
  by (simp_all add: elapse_def)

lemma trace_call: "call K cat f e s = (r, s') \<Longrightarrow> trace s' = trace s @ [e r]"
  by (auto simp: call_def returned_def Let_def split: prod.splits)

lemma refs_call: "call K cat f e s = (r, s') \<Longrightarrow> refs s' = run_ops cat (kOthers K (world s')) (refs s)"
  by (auto simp: call_def returned_def Let_def split: prod.splits)

lemma trace_remember [simp]:
  "trace (remember_quota K cat f msg s) = trace s" "trace (remember_hold K f s) = trace s"
  "world (remember_quota K cat f msg s) = world s" "world (remember_hold K f s) = world s"
  by (simp_all add: remember_quota_def remember_hold_def)

text \<open>
  \<open>guarded J s s'\<close>: every effect since \<open>s\<close> is justified by the effects before it, also since \<open>s\<close>. A
  justification only ever asks for earlier effects (\<open>grows\<close>), so guarded stretches compose.
\<close>

definition justified :: "(effect list \<Rightarrow> effect \<Rightarrow> bool) \<Rightarrow> effect list \<Rightarrow> bool" where
  "justified J es \<longleftrightarrow> (\<forall>xs e ys. es = xs @ e # ys \<longrightarrow> J xs e)"

definition grows :: "(effect list \<Rightarrow> effect \<Rightarrow> bool) \<Rightarrow> bool" where
  "grows J \<longleftrightarrow> (\<forall>xs ys e. J ys e \<longrightarrow> J (xs @ ys) e)"

definition guarded :: "(effect list \<Rightarrow> effect \<Rightarrow> bool) \<Rightarrow> 'w sys \<Rightarrow> 'w sys \<Rightarrow> bool" where
  "guarded J s s' \<longleftrightarrow> (\<exists>es. trace s' = trace s @ es \<and> justified J es)"

lemma growsI: "(\<And>xs ys e. set xs \<subseteq> set ys \<Longrightarrow> J xs e \<Longrightarrow> J ys e) \<Longrightarrow> grows J"
  unfolding grows_def by (metis Un_upper2 set_append)

lemma justified_Nil [simp]: "justified J []"
  by (simp add: justified_def)

lemma justified_always: "(\<And>xs e. e \<in> set es \<Longrightarrow> J xs e) \<Longrightarrow> justified J es"
  by (auto simp: justified_def)

lemma justified_append:
  assumes "grows J" "justified J xs" "justified J ys"
  shows "justified J (xs @ ys)"
  unfolding justified_def
proof (intro allI impI)
  fix us e vs
  assume eq: "xs @ ys = us @ e # vs"
  then consider (left) ws where "xs = us @ e # ws" | (right) ws where "us = xs @ ws" "ys = ws @ e # vs"
    by (auto simp: append_eq_append_conv2 Cons_eq_append_conv append_eq_Cons_conv)
  then show "J us e"
  proof cases
    case left
    then show ?thesis using assms(2) by (simp add: justified_def)
  next
    case right
    then have "J ws e" using assms(3) by (simp add: justified_def)
    then show ?thesis using assms(1) right(1) by (simp add: grows_def)
  qed
qed

lemma justified_snoc: "justified J xs \<Longrightarrow> J xs e \<Longrightarrow> justified J (xs @ [e])"
  by (auto simp: justified_def append_eq_append_conv2 append_eq_Cons_conv Cons_eq_append_conv)

lemma guarded_refl [simp]: "guarded J s s"
  by (simp add: guarded_def)

lemma guarded_trans: "grows J \<Longrightarrow> guarded J s t \<Longrightarrow> guarded J t u \<Longrightarrow> guarded J s u"
  by (auto simp: guarded_def intro: justified_append)

lemma guarded_did: "guarded J s s' \<Longrightarrow> did s s' = xs @ e # ys \<Longrightarrow> J xs e"
  by (auto simp: guarded_def did_def justified_def)

lemma guarded_fold:
  assumes "grows J" and "\<And>x a s a' s'. x \<in> set xs \<Longrightarrow> f x (a, s) = (a', s') \<Longrightarrow> guarded J s s'"
    and "fold f xs (a, s) = (a', s')"
  shows "guarded J s s'"
  using assms(2,3)
proof (induction xs arbitrary: a s)
  case (Cons x xs)
  obtain b t where b: "f x (a, s) = (b, t)" by (cases "f x (a, s)")
  have "guarded J s t" by (rule Cons.prems(1) [OF _ b]) simp
  moreover have "guarded J t s'"
    using Cons.prems(2) b by (intro Cons.IH [of b t]) (auto intro: Cons.prems(1))
  ultimately show ?case by (rule guarded_trans [OF assms(1)])
qed simp

text \<open>\<open>only P s s'\<close>: every effect since \<open>s\<close> satisfies \<open>P\<close>.\<close>

definition only :: "(effect \<Rightarrow> bool) \<Rightarrow> 'w sys \<Rightarrow> 'w sys \<Rightarrow> bool" where
  "only P s s' \<longleftrightarrow> (\<exists>es. trace s' = trace s @ es \<and> list_all P es)"

named_theorems only_intros \<open>introduction rules for what a stretch of the program did\<close>

lemma only_refl [simp, only_intros]: "only P s s"
  by (simp add: only_def)

lemma only_trans: "only P s t \<Longrightarrow> only P t u \<Longrightarrow> only P s u"
  by (auto simp: only_def)

lemma only_emit [only_intros]: "only P s t \<Longrightarrow> P e \<Longrightarrow> only P s (emit e t)"
  by (auto simp: only_def)

lemma only_call: "call K cat f e t = (r, u) \<Longrightarrow> only P s t \<Longrightarrow> P (e r) \<Longrightarrow> only P s u"
  by (auto simp: only_def dest!: trace_call)

lemma only_trace: "trace t' = trace t \<Longrightarrow> only P s t' = only P s t"
  by (simp add: only_def)

lemma only_quiet [simp]:
  "only P s (remember_quota K cat f msg t) = only P s t" "only P s (remember_hold K f t) = only P s t"
  "only P s (elapse K cat w t) = only P s t" "only P s (t\<lparr>refs := r\<rparr>) = only P s t"
  by (simp_all add: only_def)

lemma only_did: "only P s s' \<Longrightarrow> e \<in> set (did s s') \<Longrightarrow> P e"
  by (auto simp: only_def did_def list_all_iff)

lemma only_did_all: "only P s s' \<Longrightarrow> list_all P (did s s')"
  by (auto simp: only_def did_def)

lemma only_mono: "only P s s' \<Longrightarrow> (\<And>e. P e \<Longrightarrow> Q e) \<Longrightarrow> only Q s s'"
  by (auto simp: only_def list_all_iff)

lemma only_guarded: "only P s s' \<Longrightarrow> (\<And>xs e. P e \<Longrightarrow> J xs e) \<Longrightarrow> guarded J s s'"
  by (auto simp: only_def guarded_def justified_def)

lemma guarded_only: "guarded J s s' \<Longrightarrow> (\<And>xs e. J xs e \<Longrightarrow> P e) \<Longrightarrow> only P s s'"
  unfolding guarded_def only_def justified_def list_all_iff by (metis split_list)

lemma only_extends: "only P s s' \<Longrightarrow> extends s s'"
  by (auto simp: only_def extends_def)

section \<open>A world where nothing answers\<close>

text \<open>The instance the examples start from: the clock stands still, every call fails, nobody interferes.\<close>

definition silent :: "'w kube" where
  "silent = \<lparr>kNow = (\<lambda>w. 0), kOthers = (\<lambda>w. []),
     kGetNG = (\<lambda>rd n w. (Inl (OtherErr ''''), w)), kListNG = (\<lambda>sel w. (Inl (OtherErr ''''), w)),
     kCreateNG = (\<lambda>ng w. (Inl (OtherErr ''''), w)), kDeleteNG = (\<lambda>n w. (Some (OtherErr ''''), w)),
     kPatchNG = (\<lambda>old new w. (Some (OtherErr ''''), w)), kGetClaim = (\<lambda>rd n w. (Inl (OtherErr ''''), w)),
     kListClaims = (\<lambda>w. (Inl (OtherErr ''''), w)), kDeleteClaim = (\<lambda>c p w. (Some (OtherErr ''''), w)),
     kGetClass = (\<lambda>rd n w. (Inl (OtherErr ''''), w)), kPatchClass = (\<lambda>old new w. (Inl (OtherErr ''''), w)),
     kPatchClassStatus = (\<lambda>old new w. (Some (OtherErr ''''), w)), kGetPool = (\<lambda>n w. (Inl (OtherErr ''''), w)),
     kGetNode = (\<lambda>rd n w. (Inl (OtherErr ''''), w)), kListNodes = (\<lambda>sel w. (Inl (OtherErr ''''), w)),
     kPatchNode = (\<lambda>old new w. (Some (OtherErr ''''), w)), kPollWait = (\<lambda>w. (CtxDone, w)),
     kParentDone = (\<lambda>w. False)\<rparr>"

definition start :: "'w \<Rightarrow> 'w sys" where
  "start w = \<lparr>world = w, trace = [], refs = refusals0\<rparr>"

lemmas run_defs = call_def returned_def elapse_def emit_def call_defs now_def

end
