(* ===== verification/NodeClassHash.thy ===== *)
theory NodeClassHash
  imports Labels System
begin

text \<open>
  \<^verbatim>\<open>src/pkg/apis/v1alpha1/clevernodeclass.go\<close>: the hash a NodeGroup is stamped with, its generations,
  and when a stamp still describes its NodeClass. The structural hash itself
  (\<^verbatim>\<open>hashstructure.Hash\<close>) is a parameter \<open>hashOf\<close>: a function of the hashed struct, whose one field is
  a possibly nil map of labels (\<open>strmap option\<close>). Every generation hashes a struct of the same name
  and field, so one function serves them all.
\<close>

type_synonym class_spec = "(string \<times> string) list option"
type_synonym hasher = "strmap option \<Rightarrow> string"

definition labelsOf :: "class_spec \<Rightarrow> (string \<times> string) list" where
  "labelsOf spec = (case spec of None \<Rightarrow> [] | Some l \<Rightarrow> l)"

definition NodeClassHashVersion :: string where
  "NodeClassHashVersion = ''v3''"

definition nodeClassHashVersionV1 :: string where
  "nodeClassHashVersionV1 = ''v1''"

lemmas version_defs = NodeClassHashVersion_def nodeClassHashVersionV1_def

section \<open>The three generations\<close>

definition hashV1 :: "hasher \<Rightarrow> class_spec \<Rightarrow> string list" where
  "hashV1 hashOf spec =
     (let labels = labelsOf spec
      in if length labels = 0 then [hashOf None, hashOf (Some Map.empty)]
         else [hashOf (Some (map_of labels))])"

definition hashV2 :: "hasher \<Rightarrow> class_spec \<Rightarrow> string list" where
  "hashV2 hashOf spec =
     (let labels = labelsOf spec
      in if length labels = 0 then [hashOf None] else [hashOf (Some (map_of labels))])"

definition normalised :: "label_rules \<Rightarrow> class_spec \<Rightarrow> class_spec" where
  "normalised R spec =
     (let labels = filter (\<lambda>(k, v). ValidateNodeClassLabel R k v = None) (labelsOf spec)
      in if length labels = 0 then None else Some labels)"

definition Hash :: "label_rules \<Rightarrow> hasher \<Rightarrow> class_spec \<Rightarrow> string" where
  "Hash R hashOf spec = hashOf (map_option map_of (normalised R spec))"

record frozenHashGeneration =
  fhFields :: "string list"
  fhHashes :: "hasher \<Rightarrow> class_spec \<Rightarrow> string list"

definition previousNodeClassHashes :: "string \<Rightarrow> frozenHashGeneration option" where
  "previousNodeClassHashes v =
     (if v = nodeClassHashVersionV1 then Some \<lparr>fhFields = [''Labels''], fhHashes = hashV1\<rparr>
      else if v = ''v2'' then Some \<lparr>fhFields = [''Labels''], fhHashes = hashV2\<rparr>
      else None)"

text \<open>The live spec's only field is \<open>Labels\<close>; its zero value is the nil map.\<close>

definition setsOnly :: "class_spec \<Rightarrow> string list \<Rightarrow> bool" where
  "setsOnly spec fs \<longleftrightarrow> spec = None \<or> ''Labels'' \<in> set fs"

text \<open>The pair \<open>(match, known)\<close>.\<close>

definition HashMatches :: "label_rules \<Rightarrow> hasher \<Rightarrow> class_spec \<Rightarrow> string \<Rightarrow> string \<Rightarrow> bool \<times> bool" where
  "HashMatches R hashOf spec version hash =
     (if version = NodeClassHashVersion then (hash = Hash R hashOf spec, True)
      else let version' = (if version = '''' then nodeClassHashVersionV1 else version)
           in case previousNodeClassHashes version' of
                None \<Rightarrow> (False, False)
              | Some previous \<Rightarrow>
                  if \<not> setsOnly (normalised R spec) (fhFields previous) then (False, True)
                  else (hash \<in> set (fhHashes previous hashOf spec), True))"

text \<open>The labels of the NodeGroup payload a NodeClass contributes.\<close>

definition delivered :: "label_rules \<Rightarrow> class_spec \<Rightarrow> strmap" where
  "delivered R spec = map_of (filter (\<lambda>(k, v). ValidateNodeClassLabel R k v = None) (labelsOf spec))"

section \<open>The contract of a drift digest\<close>

text \<open>
  A spec has a payload, of which a digest is stamped on what was built from it. The contract: the
  digest is a function of the payload alone. Then a change that leaves the payload alone never
  drifts anything, and, when the digest separates the two payloads, any other change does.
\<close>

locale drift_digest =
  fixes payload :: "'spec \<Rightarrow> 'p"
    and digest :: "'spec \<Rightarrow> 'd"
    and encode :: "'p \<Rightarrow> 'd"
  assumes digest_payload: "digest s = encode (payload s)"
begin

lemma same_payload_same_digest: "payload s = payload t \<Longrightarrow> digest s = digest t"
  by (simp add: digest_payload)

lemma digest_detects: "(encode (payload s) = encode (payload t) \<Longrightarrow> payload s = payload t) \<Longrightarrow>
   digest s = digest t \<longleftrightarrow> payload s = payload t"
  by (auto simp: digest_payload)

end

lemma filter_Nil_map_of: "map_of (filter P l) = Map.empty \<longleftrightarrow> filter P l = []"
  by simp

interpretation nodeClassDigest: drift_digest "delivered R" "Hash R hashOf"
  "\<lambda>p. hashOf (if p = Map.empty then None else Some p)" for R hashOf
proof unfold_locales
  show "Hash R hashOf s = hashOf (if delivered R s = Map.empty then None else Some (delivered R s))" for s
    by (auto simp: Hash_def normalised_def delivered_def Let_def)
qed

section \<open>What a stamp proves\<close>

text \<open>
  The current generation's stamp describes the delivered labels and nothing else. A stamp made
  from one spec matches another whenever both deliver the same labels, and, if the hash does not
  collide on the two payloads, only then: adding or removing a label that is not delivered, or an
  empty labels map, drifts nothing, and every change of a delivered label does.
\<close>

theorem stamp_matches_iff_same_delivery:
  assumes "hashOf (map_option map_of (normalised R old)) = hashOf (map_option map_of (normalised R new)) \<Longrightarrow>
      delivered R old = delivered R new"
  shows "HashMatches R hashOf new NodeClassHashVersion (Hash R hashOf old) =
    (delivered R old = delivered R new, True)"
proof -
  have "Hash R hashOf old = Hash R hashOf new \<longleftrightarrow> delivered R old = delivered R new"
    using assms nodeClassDigest.same_payload_same_digest [of R old new hashOf] by (auto simp: Hash_def)
  then show ?thesis by (simp add: HashMatches_def)
qed

definition example_rules :: label_rules where
  "example_rules = \<lparr>IsQualifiedName = (\<lambda>k. if k = '''' then [''empty''] else []),
                    IsValidLabelValue = (\<lambda>v. if length v \<le> 63 then [] else [''too long''])\<rparr>"

definition example_hash :: hasher where
  "example_hash m = (case m of None \<Rightarrow> ''nil'' | Some f \<Rightarrow> ''map:'' @ valOf f ''team'')"

theorem stamp_matches_iff_same_delivery_witness:
  "HashMatches example_rules example_hash (Some [(''team'', ''a'')]) NodeClassHashVersion
     (Hash example_rules example_hash (Some [(''app.kubernetes.io/part-of'', ''x''), (''team'', ''a'')])) =
   (True, True)"
proof -
  have del: "delivered example_rules (Some [(''app.kubernetes.io/part-of'', ''x''), (''team'', ''a'')]) =
      delivered example_rules (Some [(''team'', ''a'')])"
    by (simp add: delivered_def labelsOf_def ValidateNodeClassLabel_def inKubernetesIODomain_def
        inKarpenterDomain_def CoreGroup_def HasPrefix_def example_rules_def)
  show ?thesis
    using stamp_matches_iff_same_delivery [of example_hash example_rules
        "Some [(''app.kubernetes.io/part-of'', ''x''), (''team'', ''a'')]" "Some [(''team'', ''a'')]"] del
    by simp
qed

text \<open>
  Every generation matches its own stamps, and only known generations are judged. A hash the
  given generation computes for the spec matches; the stamp of a generation this controller does not
  know is neither a match nor a mismatch; and an absent version reads as v1.
\<close>

theorem generations_match_their_own_stamps:
  "HashMatches R hashOf spec NodeClassHashVersion (Hash R hashOf spec) = (True, True) \<and>
   (h \<in> set (hashV2 hashOf spec) \<longrightarrow> HashMatches R hashOf spec ''v2'' h = (True, True)) \<and>
   (h \<in> set (hashV1 hashOf spec) \<longrightarrow> HashMatches R hashOf spec ''v1'' h = (True, True)) \<and>
   HashMatches R hashOf spec '''' h = HashMatches R hashOf spec ''v1'' h \<and>
   (version \<notin> {'''', ''v1'', ''v2'', ''v3''} \<longrightarrow> HashMatches R hashOf spec version h = (False, False))"
  by (simp add: HashMatches_def previousNodeClassHashes_def setsOnly_def version_defs Let_def)

theorem generations_match_their_own_stamps_witness:
  "HashMatches example_rules example_hash (Some []) ''v1'' ''map:'' = (True, True) \<and>
   HashMatches example_rules example_hash (Some []) ''v4'' ''map:'' = (False, False)"
proof -
  have "''map:'' \<in> set (hashV1 example_hash (Some []))"
    by (simp add: hashV1_def labelsOf_def example_hash_def)
  then show ?thesis
    using generations_match_their_own_stamps [of example_rules example_hash "Some []" "''map:''" "''v4''"]
    by simp
qed

end
