(* ===== verification/NodeGroupIdentity.thy ===== *)
theory NodeGroupIdentity
  imports NodeClassHash
begin

text \<open>
  The identity part of \<^verbatim>\<open>src/pkg/providers/nodegroup/nodegroup.go\<close>: provider IDs, the names of nodes,
  who manages and who owns a NodeGroup, and the labels its payload carries.
\<close>

section \<open>Provider IDs\<close>

definition ProviderIDPrefix :: string where
  "ProviderIDPrefix = ''clevercloud://''"

definition ProviderID :: "name \<Rightarrow> string" where
  "ProviderID n = ProviderIDPrefix @ n"

definition ParseProviderID :: "string \<Rightarrow> name option" where
  "ParseProviderID pid =
     (let name = TrimPrefix pid ProviderIDPrefix
      in if name = pid \<or> name = '''' then None else Some name)"

lemma ParseProviderID_Some: "ParseProviderID pid = Some n \<longleftrightarrow> pid = ProviderID n \<and> n \<noteq> ''''"
proof (cases "HasPrefix pid ProviderIDPrefix")
  case True
  then obtain r where "pid = ProviderIDPrefix @ r" by (auto simp: HasPrefix_iff)
  moreover have "r \<noteq> ProviderIDPrefix @ r" by (simp add: ProviderIDPrefix_def)
  ultimately show ?thesis
    by (auto simp: ParseProviderID_def ProviderID_def Let_def)
next
  case False
  then have "pid \<noteq> ProviderID n" by (auto simp: ProviderID_def)
  with False show ?thesis
    by (simp add: ParseProviderID_def TrimPrefix_def Let_def)
qed

text \<open>
  Provider IDs round-trip. Parsing succeeds exactly on the IDs the provider hands out for a
  non-empty group name, and returns that name; so distinct groups have distinct IDs.
\<close>

theorem provider_id_roundtrip:
  "(ParseProviderID pid = Some n \<longleftrightarrow> pid = ProviderID n \<and> n \<noteq> '''') \<and>
   (ProviderID n = ProviderID m \<longleftrightarrow> n = m)"
  by (simp add: ParseProviderID_Some ProviderID_def)

section \<open>Names of nodes\<close>

definition nodeNameInfix :: string where
  "nodeNameInfix = ''-node''"

definition isDigit :: "char \<Rightarrow> bool" where
  "isDigit c \<longleftrightarrow> c \<in> set ''0123456789''"

text \<open>\<^verbatim>\<open>strings.Trim\<close> with the cutset of the ten digits.\<close>

definition TrimDigits :: "string \<Rightarrow> string" where
  "TrimDigits s = rev (dropWhile isDigit (rev (dropWhile isDigit s)))"

definition NodeGroupOfNode :: "name \<Rightarrow> name option" where
  "NodeGroupOfNode nodeName =
     (case LastIndex nodeName nodeNameInfix of
        None \<Rightarrow> None
      | Some i \<Rightarrow>
          if i \<le> 0 then None
          else let index = drop (i + length nodeNameInfix) nodeName
               in if index = '''' \<or> TrimDigits index \<noteq> '''' then None
                  else Some (take i nodeName))"

lemma all_but_head: "(xs \<noteq> [] \<Longrightarrow> \<not> P (hd xs)) \<Longrightarrow> (\<forall>c \<in> set xs. P c) \<longleftrightarrow> xs = []"
  by (cases xs) auto

lemma TrimDigits_empty: "TrimDigits s = '''' \<longleftrightarrow> list_all isDigit s"
proof -
  have "TrimDigits s = '''' \<longleftrightarrow> (\<forall>c \<in> set (dropWhile isDigit s). isDigit c)"
    by (simp add: TrimDigits_def dropWhile_eq_Nil_conv)
  also have "\<dots> \<longleftrightarrow> dropWhile isDigit s = []"
    by (rule all_but_head) (rule hd_dropWhile)
  also have "\<dots> \<longleftrightarrow> list_all isDigit s"
    by (simp only: dropWhile_eq_Nil_conv list_all_iff)
  finally show ?thesis .
qed

lemma LastIndex_digits: "list_all isDigit d \<Longrightarrow> LastIndex d nodeNameInfix = None"
  by (induction d) (auto simp: nodeNameInfix_def HasPrefix_def isDigit_def)

lemma LastIndex_infix:
  assumes "list_all isDigit d"
  shows "LastIndex (nodeNameInfix @ d) nodeNameInfix = Some 0"
proof -
  have "LastIndex d ''-node'' = None"
    using LastIndex_digits [OF assms] by (simp add: nodeNameInfix_def)
  then show ?thesis by (simp add: nodeNameInfix_def HasPrefix_def)
qed

lemma LastIndex_append:
  "LastIndex s p = Some i \<Longrightarrow> LastIndex (r @ s) p = Some (length r + i)"
  by (induction r) simp_all

text \<open>
  A node's name determines its group. A name belongs to a group exactly when it is the group's
  non-empty name, \<open>-node\<close> and a non-empty run of digits; the group is unique, whatever else the
  group's name contains (\<open>-node\<close> included).
\<close>

theorem NodeGroupOfNode_iff:
  "NodeGroupOfNode n = Some g \<longleftrightarrow>
     (\<exists>d. n = g @ nodeNameInfix @ d \<and> g \<noteq> '''' \<and> d \<noteq> '''' \<and> list_all isDigit d)"
proof
  assume "NodeGroupOfNode n = Some g"
  then obtain i where i: "LastIndex n nodeNameInfix = Some i" "0 < i" "g = take i n"
    and d: "drop (i + length nodeNameInfix) n \<noteq> ''''"
      "list_all isDigit (drop (i + length nodeNameInfix) n)"
    by (auto simp: NodeGroupOfNode_def Let_def TrimDigits_empty split: option.splits if_splits)
  from LastIndex_Some [OF i(1)]
  have n: "n = g @ nodeNameInfix @ drop (i + length nodeNameInfix) n" using i(3) by simp
  moreover have "g \<noteq> ''''" using i n by (auto simp: nodeNameInfix_def)
  ultimately show "\<exists>d. n = g @ nodeNameInfix @ d \<and> g \<noteq> '''' \<and> d \<noteq> '''' \<and> list_all isDigit d"
    using d by blast
next
  assume "\<exists>d. n = g @ nodeNameInfix @ d \<and> g \<noteq> '''' \<and> d \<noteq> '''' \<and> list_all isDigit d"
  then obtain d where d: "n = g @ nodeNameInfix @ d" "g \<noteq> ''''" "d \<noteq> ''''" "list_all isDigit d" by blast
  then have "LastIndex n nodeNameInfix = Some (length g)"
    using LastIndex_append [OF LastIndex_infix [OF d(4)], of g] by simp
  with d show "NodeGroupOfNode n = Some g"
    by (simp add: NodeGroupOfNode_def TrimDigits_empty)
qed

section \<open>Managed and owned\<close>

definition IsManaged :: "nodegroup \<Rightarrow> bool" where
  "IsManaged ng \<longleftrightarrow> valOf (omLabels (ngMeta ng)) ManagedLabelKey = ''true''"

definition NodeClaimOwners :: "nodegroup \<Rightarrow> name list" where
  "NodeClaimOwners ng =
     map orName (filter (\<lambda>r. orKind r = ''NodeClaim'' \<and> HasPrefix (orAPIVersion r) ''karpenter.sh/'')
       (omOwners (ngMeta ng)))"

definition OwnedByNodeClaim :: "nodegroup \<Rightarrow> nodeclaim \<Rightarrow> bool" where
  "OwnedByNodeClaim ng claim \<longleftrightarrow>
     (if ngName ng \<noteq> ncName claim \<or> \<not> IsManaged ng \<or>
         valOf (omLabels (ngMeta ng)) NodeClaimLabelKey \<noteq> ncName claim
      then False
      else \<exists>r \<in> set (omOwners (ngMeta ng)).
             orAPIVersion r = ''karpenter.sh/v1'' \<and> orKind r = ''NodeClaim'' \<and>
             orName r = ncName claim \<and> orUID r = ncUID claim)"

section \<open>The labels of the payload\<close>

definition isNodeGroupLabelAllowed :: "label_rules \<Rightarrow> string \<Rightarrow> string \<Rightarrow> bool" where
  "isNodeGroupLabelAllowed R key val \<longleftrightarrow> ValidateNodeClassLabel R key val = None"

text \<open>The two loops: the NodeClass's labels first, the NodeClaim's over them.\<close>

definition nodeGroupLabels :: "label_rules \<Rightarrow> nodeclaim \<Rightarrow> nodeclass \<Rightarrow> strmap" where
  "nodeGroupLabels R claim class =
     (let fromClass = map_of (filter (\<lambda>(k, v). isNodeGroupLabelAllowed R k v) (labelsOf (clLabels class)))
      in (\<lambda>k. case omLabels (ncMeta claim) k of
                Some v \<Rightarrow> if isNodeGroupLabelAllowed R k v then Some v else fromClass k
              | None \<Rightarrow> fromClass k))"

text \<open>
  The payload carries exactly what may reach every node of a group: every label in it passes the
  shared rule, so no \<open>karpenter.sh\<close>, \<open>kubernetes.io\<close> or platform key is ever in it; what the
  NodeClass contributes is what its drift hash covers; and two NodeClasses that deliver the same
  labels give the same payload.
\<close>

theorem payload_labels_pass_the_rule:
  "(nodeGroupLabels R claim class k = Some v \<longrightarrow>
      ValidateNodeClassLabel R k v = None \<and> crd_label_rule k) \<and>
   (omLabels (ncMeta claim) k = None \<longrightarrow>
      nodeGroupLabels R claim class k = delivered R (clLabels class) k) \<and>
   (delivered R (clLabels class) = delivered R (clLabels class') \<longrightarrow>
      nodeGroupLabels R claim class = nodeGroupLabels R claim class')"
proof (intro conjI impI)
  have del: "map_of (filter (\<lambda>(k, v). isNodeGroupLabelAllowed R k v) (labelsOf (clLabels c))) =
      delivered R (clLabels c)" for c
    by (simp add: isNodeGroupLabelAllowed_def delivered_def)
  {
    assume "nodeGroupLabels R claim class k = Some v"
    then have ok: "ValidateNodeClassLabel R k v = None"
      by (auto simp: nodeGroupLabels_def isNodeGroupLabelAllowed_def Let_def
          split: option.splits if_splits dest!: map_of_SomeD)
    then show "ValidateNodeClassLabel R k v = None" .
    show "crd_label_rule k" using ok by (rule delivered_passes_crd_rule)
  next
    assume "omLabels (ncMeta claim) k = None"
    then show "nodeGroupLabels R claim class k = delivered R (clLabels class) k"
      by (simp add: nodeGroupLabels_def del Let_def)
  next
    assume "delivered R (clLabels class) = delivered R (clLabels class')"
    then show "nodeGroupLabels R claim class = nodeGroupLabels R claim class'"
      by (simp add: nodeGroupLabels_def del)
  }
qed

definition example_claim :: nodeclaim where
  "example_claim = \<lparr>ncMeta = meta0\<lparr>omName := ''c1'', omUID := ''u1'',
       omLabels := [CoreNodePoolLabelKey \<mapsto> ''default'', ''tier'' \<mapsto> ''web'']\<rparr>,
     ncClassRef = Some \<lparr>crGroup = Group, crKind = ''CleverNodeClass'', crName = ''default''\<rparr>,
     ncRequirements = [], ncRequests = Map.empty, ncProviderID = '''', ncConditions = Map.empty\<rparr>"

definition example_class :: nodeclass where
  "example_class = \<lparr>clMeta = meta0\<lparr>omName := ''default''\<rparr>,
     clLabels = Some [(''team'', ''a''), (''app.kubernetes.io/x'', ''y'')], clConditions = Map.empty\<rparr>"

theorem payload_labels_pass_the_rule_witness:
  "nodeGroupLabels example_rules example_claim example_class ''tier'' = Some ''web'' \<and>
   crd_label_rule ''tier'' \<and>
   nodeGroupLabels example_rules example_claim example_class ''app.kubernetes.io/x'' = None \<and>
   nodeGroupLabels example_rules example_claim example_class CoreNodePoolLabelKey \<noteq> Some ''default''"
proof -
  have tier: "nodeGroupLabels example_rules example_claim example_class ''tier'' = Some ''web''"
    by (simp add: nodeGroupLabels_def example_claim_def isNodeGroupLabelAllowed_def CoreNodePoolLabelKey_def
        ValidateNodeClassLabel_def inKubernetesIODomain_def inKarpenterDomain_def CoreGroup_def
        HasPrefix_def example_rules_def Let_def)
  have part: "omLabels (ncMeta example_claim) ''app.kubernetes.io/x'' = None"
    by (simp add: example_claim_def CoreNodePoolLabelKey_def)
  have "delivered example_rules (clLabels example_class) ''app.kubernetes.io/x'' = None"
    by (simp add: delivered_def example_class_def labelsOf_def ValidateNodeClassLabel_def
        inKubernetesIODomain_def inKarpenterDomain_def CoreGroup_def HasPrefix_def example_rules_def)
  then show ?thesis
    using tier part
      payload_labels_pass_the_rule [of example_rules example_claim example_class "''tier''" "''web''"]
      payload_labels_pass_the_rule [of example_rules example_claim example_class "''app.kubernetes.io/x''"]
      payload_labels_pass_the_rule [of example_rules example_claim example_class CoreNodePoolLabelKey "''default''"]
      nodepool_key_never_delivered [of example_rules "''default''"]
    by metis
qed

end
