(* ===== verification/Acceptance.thy ===== *)
theory Acceptance
  imports NodeGroupIdentity
begin

text \<open>
  The acceptance poll of \<^verbatim>\<open>src/pkg/providers/nodegroup/nodegroup.go\<close>: what the API server's admission
  says about a flavor, and \<open>waitForAcceptance\<close>, which polls a NodeGroup until the operator decides
  on it. Its loop is apimachinery's \<^verbatim>\<open>wait.PollUntilContextCancel\<close> with \<open>immediate\<close> set: run the
  condition, and while it neither ends nor fails, wait for the next tick of the interval or for the
  end of the context, which the world decides (\<open>kPollWait\<close>).
\<close>

section \<open>Refusal at admission\<close>

datatype ErrFlavorRejected = ErrFlavorRejected (frFlavor: flavor) (frReason: string) (frMessage: string)

definition flavorField :: string where
  "flavorField = ''spec.flavor''"

definition fieldlessCause :: string where
  "fieldlessCause = ''<nil>''"

definition StatusReasonInvalid :: string where
  "StatusReasonInvalid = ''Invalid''"

text \<open>The loop over the causes; \<open>acc\<close> is the refusal found so far.\<close>

fun refusal_causes ::
  "flavor \<Rightarrow> (string \<times> string) list \<Rightarrow> ErrFlavorRejected option \<Rightarrow> ErrFlavorRejected option" where
  "refusal_causes f [] acc = acc"
| "refusal_causes f ((field, msg) # causes) acc =
     (if field = '''' \<or> field = fieldlessCause then refusal_causes f causes acc
      else if field = flavorField then
        refusal_causes f causes
          (case acc of None \<Rightarrow> Some (ErrFlavorRejected f StatusReasonInvalid msg) | Some r \<Rightarrow> Some r)
      else None)"

definition admissionFlavorRefusal :: "api_error \<Rightarrow> flavor \<Rightarrow> ErrFlavorRejected option" where
  "admissionFlavorRefusal e f =
     (case e of Invalid (Some causes) \<Rightarrow> refusal_causes f causes None | _ \<Rightarrow> None)"

lemma refusal_causes_iff:
  "refusal_causes f causes acc =
     (if \<exists>(field, msg) \<in> set causes. field \<notin> {'''', fieldlessCause, flavorField} then None
      else case acc of Some r \<Rightarrow> Some r
           | None \<Rightarrow> map_option (\<lambda>(field, msg). ErrFlavorRejected f StatusReasonInvalid msg)
                       (find (\<lambda>(field, msg). field = flavorField) causes))"
  by (induction f causes acc rule: refusal_causes.induct)
     (auto simp: flavorField_def fieldlessCause_def split: option.splits)

text \<open>
  Only a verdict on the flavor alone is read as a refusal of the flavor: a create error is turned
  into one exactly when it is an Invalid error with details whose causes name \<open>spec.flavor\<close> at least
  once and no other field. The refusal carries the flavor asked for.
\<close>

theorem admission_refusal_iff:
  "admissionFlavorRefusal e f \<noteq> None \<longleftrightarrow>
     (\<exists>causes. e = Invalid (Some causes) \<and> flavorField \<in> fst ` set causes \<and>
        fst ` set causes \<subseteq> {'''', fieldlessCause, flavorField})"
proof (cases "\<exists>causes. e = Invalid (Some causes)")
  case False
  then show ?thesis
    by (auto simp: admissionFlavorRefusal_def split: api_error.splits option.splits)
next
  case True
  then obtain causes where e: "e = Invalid (Some causes)" by blast
  have "find (\<lambda>(field, msg). field = flavorField) causes \<noteq> None \<longleftrightarrow> flavorField \<in> fst ` set causes"
    by (auto simp: find_None_iff) (force intro: rev_image_eqI)+
  then show ?thesis
    by (auto simp: e admissionFlavorRefusal_def refusal_causes_iff)
qed

section \<open>One poll\<close>

datatype acceptance = unacknowledged | acknowledged | ready

datatype vanish = Gone | Replaced | BeingDeleted

datatype wait_error =
    WVanished vanish
  | WQuota ErrQuotaExceeded
  | WRejected ErrFlavorRejected
  | WApi api_error
  | WShutdown

datatype poll_outcome = Again | Accepted acceptance | Failed wait_error

type_synonym transientFailure = "string \<times> string"

definition failureMessage :: "nodegroup \<Rightarrow> string" where
  "failureMessage ng =
     (case GetCondition ng ConditionTypeReconcileFailed of Some c \<Rightarrow> ncMessage c | None \<Rightarrow> '''')"

text \<open>
  The condition function of the poll. \<open>seen\<close> and \<open>retried\<close> are the variables it shares with
  \<open>waitForAcceptance\<close>; the result is the outcome, their new values and the state.
\<close>

definition poll_once ::
  "'w kube \<Rightarrow> catalogue \<Rightarrow> name \<Rightarrow> nodegroup option \<Rightarrow> reader \<Rightarrow> bool \<Rightarrow> transientFailure option \<Rightarrow>
   'w sys \<Rightarrow> poll_outcome \<times> bool \<times> transientFailure option \<times> 'w sys" where
  "poll_once K cat n observed rd seen retried s =
     (case getNG K cat rd n s of
        (Inl e, s1) \<Rightarrow>
          if e = NotFound then
            (if seen then (Failed (WVanished Gone), seen, retried, s1) else (Again, seen, retried, s1))
          else (Failed (WApi e), seen, retried, s1)
      | (Inr ng, s1) \<Rightarrow>
          if (case observed of Some ob \<Rightarrow> ngUID ob \<noteq> ngUID ng | None \<Rightarrow> False) then
            (Failed (WVanished Replaced), True, retried, s1)
          else
            let retried' = (case TransientFailure ng of Some t \<Rightarrow> Some t | None \<Rightarrow> retried) in
            if ngTerminating ng then (Failed (WVanished BeingDeleted), True, retried', s1)
            else if IsSynced ng then (Accepted ready, True, retried', s1)
            else if IsQuotaExceeded ng then
              let msg = failureMessage ng;
                  s2 = emit (Count NodeGroupQuotaRejections) (remember_quota K cat (ngFlavor ng) msg s1);
                  (_, s3) = deleteNG K cat n s2
              in (Failed (WQuota (ErrQuotaExceeded (ngFlavor ng) msg)), True, retried', s3)
            else case Refusal ng of
              Some (reason, message) \<Rightarrow>
                let (_, s3) = deleteNG K cat n (emit (Count NodeGroupRejections) s1)
                in (Failed (WRejected (ErrFlavorRejected (ngFlavor ng) reason message)), True, retried', s3)
            | None \<Rightarrow>
                if IsReconciling ng then (Accepted acknowledged, True, retried', s1)
                else (Again, True, retried', s1))"

section \<open>The poll\<close>

definition quotaCheckInterval :: duration where
  "quotaCheckInterval = second"

definition quotaCheckTimeout :: duration where
  "quotaCheckTimeout = 15 * second"

declare quotaCheckInterval_def [dur_defs] quotaCheckTimeout_def [dur_defs]

text \<open>
  The context of the poll ends after \<open>quotaCheckTimeout\<close>, so at most this many intervals elapse: the
  fuel of the loop. Running out of it is the context's deadline, as \<open>CtxDone\<close> is.
\<close>

definition quotaCheckTicks :: nat where
  "quotaCheckTicks = nat (quotaCheckTimeout div quotaCheckInterval)"

datatype poll_end = EndAccepted acceptance | EndFailed wait_error | EndInterrupted

fun poll_loop ::
  "'w kube \<Rightarrow> catalogue \<Rightarrow> name \<Rightarrow> nodegroup option \<Rightarrow> reader \<Rightarrow> nat \<Rightarrow> bool \<Rightarrow>
   transientFailure option \<Rightarrow> 'w sys \<Rightarrow> poll_end \<times> transientFailure option \<times> 'w sys" where
  "poll_loop K cat n observed rd ticks seen retried s =
     (case poll_once K cat n observed rd seen retried s of
        (Accepted a, seen', retried', s1) \<Rightarrow> (EndAccepted a, retried', s1)
      | (Failed e, seen', retried', s1) \<Rightarrow> (EndFailed e, retried', s1)
      | (Again, seen', retried', s1) \<Rightarrow>
          (case ticks of
             0 \<Rightarrow> (EndInterrupted, retried', s1)
           | Suc k \<Rightarrow>
               (case kPollWait K (world s1) of
                  (CtxDone, w) \<Rightarrow> (EndInterrupted, retried', elapse K cat w s1)
                | (Tick, w) \<Rightarrow> poll_loop K cat n observed rd k seen' retried' (elapse K cat w s1))))"

declare poll_loop.simps [simp del]

text \<open>\<^verbatim>\<open>wait.Interrupted\<close>: the error is the end of the poll's own context.\<close>

definition Interrupted :: "poll_end \<Rightarrow> bool" where
  "Interrupted e \<longleftrightarrow> e = EndInterrupted \<or> e = EndFailed (WApi CtxErr)"

definition waitForAcceptance ::
  "'w kube \<Rightarrow> catalogue \<Rightarrow> name \<Rightarrow> nodegroup option \<Rightarrow> reader \<Rightarrow> 'w sys \<Rightarrow>
   acceptance \<times> transientFailure option \<times> wait_error option \<times> 'w sys" where
  "waitForAcceptance K cat n observed rd s =
     (case poll_loop K cat n observed rd quotaCheckTicks (observed \<noteq> None) None s of
        (e, retried, s1) \<Rightarrow>
          (case e of
             EndAccepted a \<Rightarrow> (a, retried, None, s1)
           | _ \<Rightarrow>
               if Interrupted e then
                 (if kParentDone K (world s1) then (unacknowledged, None, Some WShutdown, s1)
                  else (unacknowledged, retried, None, s1))
               else (case e of EndFailed err \<Rightarrow> (unacknowledged, retried, Some err, s1)
                     | _ \<Rightarrow> (unacknowledged, retried, None, s1))))"

section \<open>The verdict, as a specification\<close>

text \<open>
  What one read of the group means, without the loop and the effects. The order of the clauses is the
  priority of the operator's signals: going away, up, over quota, refused, being built.
\<close>

definition verdict :: "nodegroup option \<Rightarrow> bool \<Rightarrow> api_error + nodegroup \<Rightarrow> poll_outcome" where
  "verdict observed seen r =
     (case r of
        Inl NotFound \<Rightarrow> if seen then Failed (WVanished Gone) else Again
      | Inl e \<Rightarrow> Failed (WApi e)
      | Inr ng \<Rightarrow>
          if observed \<noteq> None \<and> ngUID (the observed) \<noteq> ngUID ng then Failed (WVanished Replaced)
          else if ngTerminating ng then Failed (WVanished BeingDeleted)
          else if IsSynced ng then Accepted ready
          else if IsQuotaExceeded ng then
            Failed (WQuota (ErrQuotaExceeded (ngFlavor ng) (failureMessage ng)))
          else if IsRefused ng then
            Failed (WRejected (ErrFlavorRejected (ngFlavor ng) (fst (the (Refusal ng))) (snd (the (Refusal ng)))))
          else if IsReconciling ng then Accepted acknowledged
          else Again)"

text \<open>The typed refusals, on which alone a poll deletes the group.\<close>

definition is_refusal :: "poll_outcome \<Rightarrow> bool" where
  "is_refusal out \<longleftrightarrow> (\<exists>q. out = Failed (WQuota q)) \<or> (\<exists>r. out = Failed (WRejected r))"

definition refusal_counter :: "poll_outcome \<Rightarrow> counter" where
  "refusal_counter out = (case out of Failed (WQuota _) \<Rightarrow> NodeGroupQuotaRejections | _ \<Rightarrow> NodeGroupRejections)"

text \<open>What a poll does about its outcome: only a refusal has consequences.\<close>

definition cleanup :: "'w kube \<Rightarrow> catalogue \<Rightarrow> name \<Rightarrow> poll_outcome \<Rightarrow> 'w sys \<Rightarrow> 'w sys" where
  "cleanup K cat n out s =
     (case out of
        Failed (WQuota q) \<Rightarrow>
          snd (deleteNG K cat n (emit (Count NodeGroupQuotaRejections)
                 (remember_quota K cat (qeFlavor q) (qeMessage q) s)))
      | Failed (WRejected r) \<Rightarrow> snd (deleteNG K cat n (emit (Count NodeGroupRejections) s))
      | _ \<Rightarrow> s)"

lemma trace_deleteNG: "\<exists>d. trace (snd (deleteNG K cat n s)) = trace s @ [DeletedNG n d]"
  by (cases "deleteNG K cat n s") (auto simp: deleteNG_def dest: trace_call)

lemma is_refusal_simps [simp]:
  "\<not> is_refusal Again" "\<not> is_refusal (Accepted a)" "is_refusal (Failed (WQuota q))"
  "is_refusal (Failed (WRejected r))" "\<not> is_refusal (Failed (WVanished v))"
  "\<not> is_refusal (Failed (WApi e))" "\<not> is_refusal (Failed WShutdown)"
  by (simp_all add: is_refusal_def)

lemma trace_cleanup:
  "if is_refusal out
   then \<exists>d. trace (cleanup K cat n out s) = trace s @ [Count (refusal_counter out), DeletedNG n d]
   else cleanup K cat n out s = s"
  using trace_deleteNG [of K cat n "emit (Count NodeGroupRejections) s"]
    trace_deleteNG [of K cat n "emit (Count NodeGroupQuotaRejections)
      (remember_quota K cat f m s)" for f m]
  by (auto simp: is_refusal_def cleanup_def refusal_counter_def split: poll_outcome.splits wait_error.splits)

lemma poll_once_Inl:
  assumes "getNG K cat rd n s = (Inl e, s1)"
  shows "poll_once K cat n observed rd seen retried s = (verdict observed seen (Inl e), seen, retried, s1)"
  by (cases e) (simp_all add: poll_once_def assms verdict_def)

text \<open>
  The transient failure the poll knows of after one more read: a read of a stranger under the same
  name tells nothing, any other read of the group replaces what was known.
\<close>

definition noticed ::
  "nodegroup option \<Rightarrow> transientFailure option \<Rightarrow> api_error + nodegroup \<Rightarrow> transientFailure option" where
  "noticed observed retried r =
     (case r of
        Inl _ \<Rightarrow> retried
      | Inr ng \<Rightarrow>
          if observed \<noteq> None \<and> ngUID (the observed) \<noteq> ngUID ng then retried
          else case TransientFailure ng of Some t \<Rightarrow> Some t | None \<Rightarrow> retried)"

lemma poll_once_Inr:
  assumes "getNG K cat rd n s = (Inr ng, s1)"
    and out_def: "out = verdict observed seen (Inr ng)"
  shows "poll_once K cat n observed rd seen retried s =
    (out, True, noticed observed retried (Inr ng), cleanup K cat n out s1)"
proof (cases "observed \<noteq> None \<and> ngUID (the observed) \<noteq> ngUID ng")
  case True
  then show ?thesis by (auto simp: out_def poll_once_def assms(1) verdict_def cleanup_def noticed_def)
next
  case False
  then have same: "\<not> (case observed of Some ob \<Rightarrow> ngUID ob \<noteq> ngUID ng | None \<Rightarrow> False)"
    by (auto split: option.splits)
  have r: "Refusal ng = None \<Longrightarrow> \<not> IsQuotaExceeded ng \<Longrightarrow> \<not> IsRefused ng"
    "Refusal ng = Some x \<Longrightarrow> IsRefused ng" for x
    by (simp_all add: IsRefused_def)
  consider "ngTerminating ng" | "\<not> ngTerminating ng" "IsSynced ng"
    | "\<not> ngTerminating ng" "\<not> IsSynced ng" "IsQuotaExceeded ng"
    | "\<not> ngTerminating ng" "\<not> IsSynced ng" "\<not> IsQuotaExceeded ng"
    by blast
  then show ?thesis
  proof cases
    case 4
    then show ?thesis
      using same False
      by (cases "Refusal ng")
         (auto simp: out_def poll_once_def assms(1) verdict_def cleanup_def noticed_def r Let_def
           split: prod.split)
  qed (use same False in \<open>auto simp: out_def poll_once_def assms(1) verdict_def cleanup_def noticed_def
         Let_def split: prod.split\<close>)
qed

text \<open>
  One poll implements the verdict on what it read: its outcome is that verdict whatever the cleanup
  delete answers, and its effects are the read and, for a refusal only, one count and one delete of
  the polled group.
\<close>

lemma poll_once_refines:
  assumes "poll_once K cat n observed rd seen retried s = (out, seen', retried', s')"
  shows "\<exists>r s1. getNG K cat rd n s = (r, s1) \<and> trace s1 = trace s @ [ReadNG rd n r] \<and>
     out = verdict observed seen r \<and> (seen' \<longleftrightarrow> seen \<or> \<not> isl r) \<and>
     retried' = noticed observed retried r \<and> s' = cleanup K cat n out s1"
proof -
  obtain r s1 where g: "getNG K cat rd n s = (r, s1)" by (cases "getNG K cat rd n s")
  have t1: "trace s1 = trace s @ [ReadNG rd n r]"
    using g by (auto simp: getNG_def dest: trace_call)
  show ?thesis
  proof (cases r)
    case (Inl e)
    moreover have "cleanup K cat n (verdict observed seen (Inl e)) s1 = s1"
      by (cases e) (simp_all add: verdict_def cleanup_def)
    ultimately show ?thesis
      using assms g t1 poll_once_Inl [of K cat rd n s e s1 observed seen retried]
      by (auto simp: noticed_def)
  next
    case (Inr ng)
    then show ?thesis using assms g t1 poll_once_Inr [of K cat rd n s ng s1 _ observed seen retried] by auto
  qed
qed

section \<open>The poll as the first decision\<close>

text \<open>The first decision among the reads of a poll, \<open>Again\<close> when there is none.\<close>

fun judged :: "nodegroup option \<Rightarrow> bool \<Rightarrow> (api_error + nodegroup) list \<Rightarrow> poll_outcome" where
  "judged observed seen [] = Again"
| "judged observed seen (r # rs) =
     (case verdict observed seen r of
        Again \<Rightarrow> judged observed (seen \<or> \<not> isl r) rs
      | out \<Rightarrow> out)"

definition poll_end_of :: "poll_outcome \<Rightarrow> poll_end" where
  "poll_end_of out = (case out of Accepted a \<Rightarrow> EndAccepted a | Failed e \<Rightarrow> EndFailed e | Again \<Rightarrow> EndInterrupted)"

text \<open>
  \<open>polled\<close>: between two states a poll read the group through \<open>rd\<close>, once per element of \<open>rs\<close>, decided
  on the last of them or not at all, and did nothing else but the cleanup of a refusal.
\<close>

definition polled ::
  "name \<Rightarrow> nodegroup option \<Rightarrow> reader \<Rightarrow> bool \<Rightarrow> (api_error + nodegroup) list \<Rightarrow> 'w sys \<Rightarrow> 'w sys \<Rightarrow> bool" where
  "polled n observed rd seen rs s s' \<longleftrightarrow>
     rs \<noteq> [] \<and> judged observed seen (butlast rs) = Again \<and>
     (if is_refusal (judged observed seen rs)
      then \<exists>d. trace s' = trace s @ map (ReadNG rd n) rs @
                 [Count (refusal_counter (judged observed seen rs)), DeletedNG n d]
      else trace s' = trace s @ map (ReadNG rd n) rs)"

lemma polled_Cons:
  assumes "verdict observed seen r = Again" "trace t = trace s @ [ReadNG rd n r]"
    and "polled n observed rd (seen \<or> \<not> isl r) rs t s'"
  shows "polled n observed rd seen (r # rs) s s'"
  using assms by (auto simp: polled_def split: if_splits)

lemma poll_loop_spec:
  assumes "poll_loop K cat n observed rd ticks seen retried s = (e, retried', s')"
  shows "\<exists>rs. length rs \<le> Suc ticks \<and> e = poll_end_of (judged observed seen rs) \<and>
    retried' = foldl (noticed observed) retried rs \<and> polled n observed rd seen rs s s'"
  using assms
proof (induction ticks arbitrary: seen retried s)
  case (0 seen retried s)
  obtain out seen1 retried1 s1 where p: "poll_once K cat n observed rd seen retried s = (out, seen1, retried1, s1)"
    using prod_cases4 by blast
  then obtain r t where r: "trace t = trace s @ [ReadNG rd n r]" "out = verdict observed seen r"
      "s1 = cleanup K cat n out t" "retried1 = noticed observed retried r"
    using poll_once_refines [OF p] by blast
  have "e = poll_end_of out" "s' = s1" "retried' = retried1"
    using 0 by (auto simp: p poll_loop.simps [of K cat n observed rd 0] poll_end_of_def split: poll_outcome.splits)
  moreover have "judged observed seen [r] = out" using r(2) by (simp split: poll_outcome.splits)
  ultimately show ?case
    using r trace_cleanup [of out K cat n t]
    by (intro exI [of _ "[r]"]) (auto simp: polled_def split: if_splits)
next
  case (Suc k seen retried s)
  obtain out seen1 retried1 s1 where p: "poll_once K cat n observed rd seen retried s = (out, seen1, retried1, s1)"
    using prod_cases4 by blast
  then obtain r t where r: "trace t = trace s @ [ReadNG rd n r]" "out = verdict observed seen r"
      "s1 = cleanup K cat n out t" "retried1 = noticed observed retried r"
    and seen1: "seen1 \<longleftrightarrow> seen \<or> \<not> isl r"
    using poll_once_refines [OF p] by blast
  have one: ?case if "e = poll_end_of out" "trace s' = trace s1" "retried' = retried1"
    using r that trace_cleanup [of out K cat n t]
    by (intro exI [of _ "[r]"]) (auto simp: polled_def split: if_splits poll_outcome.splits)
  show ?case
  proof (cases "out = Again")
    case False
    then show ?thesis
      using Suc.prems one
      by (auto simp: p poll_loop.simps [of K cat n observed rd "Suc k"] poll_end_of_def split: poll_outcome.splits)
  next
    case True
    obtain wt w where w: "kPollWait K (world s1) = (wt, w)" by (cases "kPollWait K (world s1)")
    show ?thesis
    proof (cases wt)
      case CtxDone
      then show ?thesis
        using Suc.prems True one w
        by (auto simp: p poll_loop.simps [of K cat n observed rd "Suc k"] poll_end_of_def)
    next
      case Tick
      have s1: "s1 = t" using r(3) True by (simp add: cleanup_def)
      have "poll_loop K cat n observed rd k seen1 retried1 (elapse K cat w s1) = (e, retried', s')"
        using Suc.prems True Tick w by (simp add: p poll_loop.simps [of K cat n observed rd "Suc k"])
      from Suc.IH [OF this] obtain rs where rs: "length rs \<le> Suc k"
          "e = poll_end_of (judged observed seen1 rs)" "retried' = foldl (noticed observed) retried1 rs"
          "polled n observed rd seen1 rs (elapse K cat w s1) s'"
        by blast
      have "polled n observed rd seen (r # rs) s s'"
        using polled_Cons [of observed seen r "elapse K cat w s1"] rs(4) r True s1 seen1 by auto
      then show ?thesis
        using rs r(2,4) True seen1 by (intro exI [of _ "r # rs"]) auto
    qed
  qed
qed

lemma ticks_15: "quotaCheckTicks = 15"
  by (simp add: quotaCheckTicks_def dur_defs)

text \<open>What \<open>waitForAcceptance\<close> makes of the decision and of how the poll ended.\<close>

definition acceptance_of ::
  "poll_outcome \<Rightarrow> bool \<Rightarrow> acceptance \<times> wait_error option" where
  "acceptance_of out parentDone =
     (case out of
        Accepted a \<Rightarrow> (a, None)
      | Failed e \<Rightarrow> if e \<noteq> WApi CtxErr then (unacknowledged, Some e)
                   else (unacknowledged, if parentDone then Some WShutdown else None)
      | Again \<Rightarrow> (unacknowledged, if parentDone then Some WShutdown else None))"

lemma waitForAcceptance_spec:
  assumes "waitForAcceptance K cat n observed rd s = (a, retried, err, s')"
  shows "\<exists>rs. length rs \<le> 16 \<and> polled n observed rd (observed \<noteq> None) rs s s' \<and>
    (a, err) = acceptance_of (judged observed (observed \<noteq> None) rs) (kParentDone K (world s')) \<and>
    retried = (if err = Some WShutdown then None else foldl (noticed observed) None rs)"
proof -
  obtain e ret t where l: "poll_loop K cat n observed rd quotaCheckTicks (observed \<noteq> None) None s = (e, ret, t)"
    using prod_cases3 by blast
  from poll_loop_spec [OF l] obtain rs where rs: "length rs \<le> 16"
      "e = poll_end_of (judged observed (observed \<noteq> None) rs)" "ret = foldl (noticed observed) None rs"
      "polled n observed rd (observed \<noteq> None) rs s t"
    by (auto simp: ticks_15)
  have "judged ob sn rs' \<noteq> Failed WShutdown" for ob sn rs'
  proof (induction rs' arbitrary: sn)
    case (Cons r rs')
    have "verdict ob sn r \<noteq> Failed WShutdown"
      by (auto simp: verdict_def split: sum.splits api_error.splits)
    with Cons show ?case by (auto split: poll_outcome.splits)
  qed simp
  then have ns: "judged observed (observed \<noteq> None) rs \<noteq> Failed WShutdown" .
  have "s' = t \<and> (a, err) = acceptance_of (judged observed (observed \<noteq> None) rs) (kParentDone K (world t)) \<and>
      retried = (if err = Some WShutdown then None else ret)"
    using assms ns unfolding waitForAcceptance_def l rs(2) prod.case
    by (cases "judged observed (observed \<noteq> None) rs")
       (auto simp: poll_end_of_def acceptance_of_def Interrupted_def split: if_splits)
  then show ?thesis using rs by blast
qed

text \<open>
  C32. The acceptance poll ends on the operator's first decision. It reads the group at least once and
  at most 16 times, through the one reader it was given, and what it returns is the first decision
  among those reads: accepted, or that read's error. A window that closes with no decision is
  \<open>unacknowledged\<close> without an error unless the controller itself is shutting down. The transient
  failure returned is the last one read, and none at shutdown.
\<close>

theorem poll_ends_on_first_decision:
  assumes "waitForAcceptance K cat n observed rd s = (a, retried, err, s')"
  shows "\<exists>rs. rs \<noteq> [] \<and> length rs \<le> 16 \<and> judged observed (observed \<noteq> None) (butlast rs) = Again \<and>
    (\<exists>tail. trace s' = trace s @ map (ReadNG rd n) rs @ tail \<and>
       (tail = [] \<or> is_refusal (judged observed (observed \<noteq> None) rs))) \<and>
    (a, err) = acceptance_of (judged observed (observed \<noteq> None) rs) (kParentDone K (world s')) \<and>
    retried = (if err = Some WShutdown then None else foldl (noticed observed) None rs)"
  using waitForAcceptance_spec [OF assms] by (auto simp: polled_def split: if_splits)

lemma judged_from: "judged ob seen rs = out \<Longrightarrow> out \<noteq> Again \<Longrightarrow> \<exists>r sn. r \<in> set rs \<and> verdict ob sn r = out"
proof (induction rs arbitrary: seen)
  case (Cons r rs)
  show ?case
  proof (cases "verdict ob seen r = Again")
    case True
    then have "judged ob (seen \<or> \<not> isl r) rs = out" using Cons.prems by simp
    from Cons.IH [OF this Cons.prems(2)] show ?thesis by auto
  next
    case False
    then have "verdict ob seen r = out" using Cons.prems by (auto split: poll_outcome.splits)
    then show ?thesis by auto
  qed
qed simp

lemma verdict_refusal:
  assumes "is_refusal (verdict ob sn r)"
  shows "\<exists>ng. r = Inr ng \<and> IsRefused ng \<and> \<not> IsSynced ng \<and> \<not> ngTerminating ng \<and>
    (ob = None \<or> ngUID (the ob) = ngUID ng) \<and>
    verdict ob sn r =
      (if IsQuotaExceeded ng then Failed (WQuota (ErrQuotaExceeded (ngFlavor ng) (failureMessage ng)))
       else Failed (WRejected (ErrFlavorRejected (ngFlavor ng) (fst (the (Refusal ng))) (snd (the (Refusal ng))))))"
proof (cases r)
  case (Inl e)
  then show ?thesis using assms by (cases e) (auto simp: verdict_def split: if_splits)
next
  case (Inr ng)
  have "IsQuotaExceeded ng \<Longrightarrow> IsRefused ng" by (simp add: IsRefused_def)
  then show ?thesis using assms Inr by (auto simp: verdict_def split: if_splits)
qed

definition example_group :: nodegroup where
  "example_group = \<lparr>
     ngMeta = meta0\<lparr>omName := ''c1'', omUID := ''g1'',
       omLabels := [ManagedLabelKey \<mapsto> ''true'', NodeClaimLabelKey \<mapsto> ''c1''],
       omOwners := [\<lparr>orAPIVersion = ''karpenter.sh/v1'', orKind = ''NodeClaim'', orName = ''c1'', orUID = ''u1''\<rparr>]\<rparr>,
     ngSpec = \<lparr>nsFlavor = ''M'', nsNodeCount = 1, nsLabels = Map.empty, nsTaints = []\<rparr>,
     ngStatus = status0\<rparr>"

definition with_condition :: "string \<Rightarrow> string \<Rightarrow> string \<Rightarrow> nodegroup \<Rightarrow> nodegroup" where
  "with_condition t reason msg ng = ng\<lparr>ngStatus := (ngStatus ng)\<lparr>stConditions :=
     \<lparr>ncType = t, ncStatus = ConditionTrue, ncLastTransition = 0, ncReason = reason, ncMessage = msg,
      ncObservedGeneration = 1\<rparr> # stConditions (ngStatus ng)\<rparr>\<rparr>"

definition refused_world :: "unit kube" where
  "refused_world = silent\<lparr>kGetNG := \<lambda>rd n w.
     (Inr (with_condition ConditionTypeReconcileFailed ''NoStock'' ''sold out'' example_group), w)\<rparr>"

lemma refused_world_simps [simp]:
  "kGetNG refused_world rd n w =
     (Inr (with_condition ConditionTypeReconcileFailed ''NoStock'' ''sold out'' example_group), w)"
  "kDeleteNG refused_world n w = (Some (OtherErr ''''), w)" "kOthers refused_world w = []"
  by (simp_all add: refused_world_def silent_def)

text \<open>Here the operator refuses the group, and the cleanup delete fails.\<close>

lemma refused_world_run:
  "waitForAcceptance refused_world cat ''c1'' None Cached (start ()) =
     (unacknowledged, None, Some (WRejected (ErrFlavorRejected ''M'' ''NoStock'' ''sold out'')),
      \<lparr>world = (), trace = [ReadNG Cached ''c1'' (Inr (with_condition ConditionTypeReconcileFailed
         ''NoStock'' ''sold out'' example_group)), Count NodeGroupRejections,
         DeletedNG ''c1'' (Some (OtherErr ''''))], refs = refusals0\<rparr>)"
  by (simp add: waitForAcceptance_def poll_loop.simps [of _ _ _ _ _ quotaCheckTicks] poll_once_def
      run_defs start_def with_condition_def example_group_def verdict_defs ng_consts status0_def meta0_def
      Interrupted_def)

theorem poll_ends_on_first_decision_witness:
  "\<exists>rs. rs \<noteq> [] \<and> is_refusal (judged None False rs) \<and>
     acceptance_of (judged None False rs) False =
       (unacknowledged, Some (WRejected (ErrFlavorRejected ''M'' ''NoStock'' ''sold out'')))"
proof -
  obtain rs where rs: "rs \<noteq> []" "(unacknowledged, Some (WRejected (ErrFlavorRejected ''M'' ''NoStock'' ''sold out''))) =
      acceptance_of (judged None False rs) (kParentDone refused_world ())"
    using poll_ends_on_first_decision [OF refused_world_run] by auto
  have "kParentDone refused_world () = False" by (simp add: refused_world_def silent_def)
  moreover have "is_refusal (judged None False rs)"
    using rs(2) by (auto simp: acceptance_of_def split: poll_outcome.splits if_splits)
  ultimately show ?thesis using rs by auto
qed

text \<open>
  C2. The poll deletes nothing but a refused group. Whenever it sends a DELETE, the group is the polled
  one, and a read of the poll showed it refused, not Ready and not already going away, with the UID
  of the group being adopted, if one is. The launch then fails with the typed refusal of that read,
  whatever the DELETE answers: an error of the DELETE never masks the refusal.
\<close>

theorem poll_deletes_only_refused_groups:
  assumes "waitForAcceptance K cat n observed rd s = (a, retried, err, s')"
    and "DeletedNG m d \<in> set (did s s')"
  shows "m = n \<and> (\<exists>ng. ReadNG rd n (Inr ng) \<in> set (did s s') \<and> IsRefused ng \<and> \<not> IsSynced ng \<and>
    \<not> ngTerminating ng \<and> (observed = None \<or> ngUID (the observed) = ngUID ng) \<and>
    err = Some (if IsQuotaExceeded ng then WQuota (ErrQuotaExceeded (ngFlavor ng) (failureMessage ng))
      else WRejected (ErrFlavorRejected (ngFlavor ng) (fst (the (Refusal ng))) (snd (the (Refusal ng))))))"
proof -
  from waitForAcceptance_spec [OF assms(1)] obtain rs where
    p: "polled n observed rd (observed \<noteq> None) rs s s'" and
    res: "(a, err) = acceptance_of (judged observed (observed \<noteq> None) rs) (kParentDone K (world s'))"
    by blast
  let ?out = "judged observed (observed \<noteq> None) rs"
  have ref: "is_refusal ?out"
    using p assms(2) by (auto simp: polled_def did_def split: if_splits)
  then have "?out \<noteq> Again" by auto
  from judged_from [OF refl this] obtain r sn where r: "r \<in> set rs" "verdict observed sn r = ?out" by blast
  from ref p obtain d' where d': "did s s' = map (ReadNG rd n) rs @ [Count (refusal_counter ?out), DeletedNG n d']"
    by (auto simp: polled_def did_def)
  from verdict_refusal [of observed sn r] ref r(2) obtain ng where
    ng: "r = Inr ng" "IsRefused ng" "\<not> IsSynced ng" "\<not> ngTerminating ng"
      "observed = None \<or> ngUID (the observed) = ngUID ng" and
    out: "?out = (if IsQuotaExceeded ng then Failed (WQuota (ErrQuotaExceeded (ngFlavor ng) (failureMessage ng)))
       else Failed (WRejected (ErrFlavorRejected (ngFlavor ng) (fst (the (Refusal ng))) (snd (the (Refusal ng))))))"
    by auto
  have "ReadNG rd n (Inr ng) \<in> set (did s s')" "m = n" using r ng(1) assms(2) by (auto simp: d')
  moreover have "err = Some (if IsQuotaExceeded ng then WQuota (ErrQuotaExceeded (ngFlavor ng) (failureMessage ng))
      else WRejected (ErrFlavorRejected (ngFlavor ng) (fst (the (Refusal ng))) (snd (the (Refusal ng)))))"
    using res out by (auto simp: acceptance_of_def split: if_splits)
  ultimately show ?thesis using ng by blast
qed

theorem poll_deletes_only_refused_groups_witness:
  "IsRefused (with_condition ConditionTypeReconcileFailed ''NoStock'' ''sold out'' example_group) \<and>
   Some (WRejected (ErrFlavorRejected ''M'' ''NoStock'' ''sold out'')) \<noteq> Some (WApi CtxErr)"
proof -
  have "DeletedNG ''c1'' (Some (OtherErr '''')) \<in> set (did (start ())
      \<lparr>world = (), trace = [ReadNG Cached ''c1'' (Inr (with_condition ConditionTypeReconcileFailed
         ''NoStock'' ''sold out'' example_group)), Count NodeGroupRejections,
         DeletedNG ''c1'' (Some (OtherErr ''''))], refs = refusals0\<rparr>)"
    by (simp add: did_def start_def)
  from poll_deletes_only_refused_groups [OF refused_world_run this] show ?thesis
    by (auto simp: did_def start_def)
qed

end
