(* ===== verification/NodeGroupProvider.thy ===== *)
theory NodeGroupProvider
  imports Acceptance
begin

text \<open>
  Launches and deletions of \<^verbatim>\<open>src/pkg/providers/nodegroup/nodegroup.go\<close>: \<open>ResolveAndCreate\<close> with the
  payload it posts and what it does about every way the poll can end, \<open>Delete\<close>, and
  \<open>RecordLateRefusal\<close>. \<^verbatim>\<open>createMu\<close> serialises the launches of a process, so one launch is one run of
  \<open>ResolveAndCreate\<close>; the goroutines that do not take it (late refusals, deletions) interfere with the
  refusals during its API calls, through \<open>kOthers\<close>. Logging is left out.
\<close>

section \<open>Errors of a launch\<close>

text \<open>What the provider is made from: the label syntax checks, the hashing library, the catalogue.\<close>

record provider_env =
  peRules :: label_rules
  peHash :: hasher
  peCatalogue :: catalogue

text \<open>
  \<open>'e\<close> is the type of the resolver's errors, returned as they are. The typed refusals of the poll stay
  visible inside \<open>LWait\<close>, as Go's \<^verbatim>\<open>errors.As\<close> sees them through the wrapping.
\<close>

datatype 'e launch_error =
    LResolve 'e
  | LQuota ErrQuotaExceeded
  | LRejected ErrFlavorRejected
  | LNotOwned name
  | LCreating api_error
  | LGettingExisting api_error
  | LWait wait_error

fun asQuota :: "'e launch_error \<Rightarrow> ErrQuotaExceeded option" where
  "asQuota (LQuota q) = Some q"
| "asQuota (LWait (WQuota q)) = Some q"
| "asQuota _ = None"

fun asRejected :: "'e launch_error \<Rightarrow> ErrFlavorRejected option" where
  "asRejected (LRejected r) = Some r"
| "asRejected (LWait (WRejected r)) = Some r"
| "asRejected _ = None"

fun isVanished :: "'e launch_error \<Rightarrow> bool" where
  "isVanished (LWait (WVanished _)) = True"
| "isVanished _ = False"

definition quotaErrorText :: "ErrQuotaExceeded \<Rightarrow> string" where
  "quotaErrorText e =
     (if qeMessage e = '''' then ''clever cloud quota exceeded for flavor '' @ qeFlavor e
      else ''clever cloud quota exceeded for flavor '' @ qeFlavor e @ '': '' @ qeMessage e)"

definition rejectedErrorText :: "ErrFlavorRejected \<Rightarrow> string" where
  "rejectedErrorText e =
     ''clever cloud refused flavor '' @ frFlavor e @ '' ('' @ frReason e @ ''): '' @ frMessage e"

definition DescribeFailure :: "string \<Rightarrow> string \<Rightarrow> string" where
  "DescribeFailure reason message = (if message = '''' then reason else reason @ '': '' @ message)"

section \<open>Events\<close>

definition show_duration :: "duration \<Rightarrow> string" where
  "show_duration d = show_seconds (nat (d div second))"

definition quotaConsequence :: "catalogue \<Rightarrow> flavor \<Rightarrow> string" where
  "quotaConsequence cat f =
     (if sizing cat f = None then
        f @ '' is unavailable to the scheduler for up to '' @ show_duration QuotaBackoff @
        '' (an accepted NodeGroup DELETE sent by this provider may clear older rejections early, without confirming freed quota); the catalogue cannot size it, so no other flavor is affected''
      else
        f @ '' is unavailable to the scheduler for up to '' @ show_duration QuotaBackoff @
        '' and every other flavor at least as large for up to '' @ show_duration (2 * QuotaBackoff) @
        '', so that '' @ f @ '' is retried first (an accepted NodeGroup DELETE sent by this provider may clear older rejections early, without confirming freed quota); smaller flavors stay available'')"

definition claimEvent :: "bool \<Rightarrow> string \<Rightarrow> nodeclaim \<Rightarrow> string list \<Rightarrow> effect" where
  "claimEvent warning reason claim args =
     Publish \<lparr>evOn = OnClaim (ncName claim), evWarning = warning, evReason = reason, evArgs = args,
              evDedupe = [ncName claim]\<rparr>"

definition publishQuotaEvent :: "catalogue \<Rightarrow> nodeclaim \<Rightarrow> ErrQuotaExceeded \<Rightarrow> 'w sys \<Rightarrow> 'w sys" where
  "publishQuotaEvent cat claim e =
     emit (claimEvent True ''NodeGroupQuotaExceeded'' claim
       [quotaErrorText e, quotaConsequence cat (qeFlavor e)])"

text \<open>The four outcomes a transient failure is published with; their wording is a tag here.\<close>

definition transientOutcome :: "acceptance \<Rightarrow> wait_error option \<Rightarrow> bool \<times> string" where
  "transientOutcome accepted pollErr =
     (case pollErr of
        Some e \<Rightarrow> (True, ''failed'')
      | None \<Rightarrow> (case accepted of
            ready \<Rightarrow> (False, ''ready'')
          | acknowledged \<Rightarrow> (True, ''acknowledged'')
          | unacknowledged \<Rightarrow> (True, ''unacknowledged'')))"

definition publishTransientFailure ::
  "nodeclaim \<Rightarrow> name \<Rightarrow> transientFailure \<Rightarrow> acceptance \<Rightarrow> wait_error option \<Rightarrow> 'w sys \<Rightarrow> 'w sys" where
  "publishTransientFailure claim n failure accepted pollErr =
     (let (warning, outcome) = transientOutcome accepted pollErr
      in emit (claimEvent warning ''NodeGroupTransientFailure'' claim
           [n, fst failure, snd failure, outcome]))"

definition refuseFlavorAtAdmission ::
  "'w kube \<Rightarrow> nodeclaim \<Rightarrow> name \<Rightarrow> ErrFlavorRejected \<Rightarrow> 'w sys \<Rightarrow> 'w sys" where
  "refuseFlavorAtAdmission K claim n rejected s =
     emit (claimEvent True ''NodeGroupRejected'' claim
       [frFlavor rejected, n, frMessage rejected, show_duration flavorBackoff])
       (remember_hold K (frFlavor rejected) (emit (Count NodeGroupRejections) s))"

section \<open>What a launch creates\<close>

record launch =
  laClass :: nodeclass
  laFlavor :: flavor
  laAnnotations :: strmap
  laExisting :: "nodegroup option"
  laExistingReader :: "reader option"

text \<open>karpenter-core's taint on a node that is not registered yet.\<close>

definition UnregisteredTaintKey :: string where
  "UnregisteredTaintKey = ''karpenter.sh/unregistered''"

definition stampedAnnotations :: "provider_env \<Rightarrow> nodeclass \<Rightarrow> strmap" where
  "stampedAnnotations E class =
     [NodeClassHashLabelKey \<mapsto> Hash (peRules E) (peHash E) (clLabels class),
      NodeClassHashVersionAnnotationKey \<mapsto> NodeClassHashVersion]"

text \<open>The payload, and the loop that adds the launch's annotations to it, the stamps being reserved.\<close>

definition newNodeGroup :: "provider_env \<Rightarrow> nodeclaim \<Rightarrow> launch \<Rightarrow> nodegroup" where
  "newNodeGroup E claim l =
     \<lparr>ngMeta = meta0\<lparr>
        omName := ncName claim,
        omLabels := [ManagedLabelKey \<mapsto> ''true'',
                     NodeClaimLabelKey \<mapsto> ncName claim,
                     NodePoolLabelKey \<mapsto> valOf (omLabels (ncMeta claim)) CoreNodePoolLabelKey,
                     NodeClassLabelKey \<mapsto> clName (laClass l)],
        omAnnotations := (\<lambda>k. case stampedAnnotations E (laClass l) k of
                                 Some v \<Rightarrow> Some v | None \<Rightarrow> laAnnotations l k),
        omOwners := [\<lparr>orAPIVersion = ''karpenter.sh/v1'', orKind = ''NodeClaim'',
                      orName = ncName claim, orUID = ncUID claim\<rparr>]\<rparr>,
      ngSpec = \<lparr>nsFlavor = laFlavor l, nsNodeCount = 1,
                nsLabels = nodeGroupLabels (peRules E) claim (laClass l),
                nsTaints = [\<lparr>ntKey = UnregisteredTaintKey, ntValue = '''', ntEffect = ''NoExecute''\<rparr>]\<rparr>,
      ngStatus = status0\<rparr>"

section \<open>Obtaining the group: create or adopt\<close>

text \<open>
  The result carries the group and what is \<open>observed\<close> of it before the poll: nothing for a group this
  launch created, the group itself for one it adopts.
\<close>

definition obtain_group ::
  "provider_env \<Rightarrow> 'w kube \<Rightarrow> nodeclaim \<Rightarrow> launch \<Rightarrow> 'w sys \<Rightarrow>
   ('e launch_error + nodegroup \<times> nodegroup option) \<times> 'w sys" where
  "obtain_group E K claim l s =
     (let ng = newNodeGroup E claim l; cat = peCatalogue E in
      case laExisting l of
        Some observed \<Rightarrow>
          if \<not> OwnedByNodeClaim observed claim then (Inl (LNotOwned (ngName observed)), s)
          else (Inr (observed, Some observed), s)
      | None \<Rightarrow>
          (case createNG K cat ng s of
             (Inr created, s1) \<Rightarrow> (Inr (created, None), s1)
           | (Inl e, s1) \<Rightarrow>
               (case admissionFlavorRefusal e (laFlavor l) of
                  Some rejected \<Rightarrow> (Inl (LRejected rejected), refuseFlavorAtAdmission K claim (ngName ng) rejected s1)
                | None \<Rightarrow>
                    if e \<noteq> AlreadyExists then (Inl (LCreating e), s1)
                    else case getNG K cat Cached (ngName ng) s1 of
                           (Inl getErr, s2) \<Rightarrow> (Inl (LGettingExisting getErr), s2)
                         | (Inr existing, s2) \<Rightarrow>
                             if \<not> OwnedByNodeClaim existing claim then (Inl (LNotOwned (ngName ng)), s2)
                             else (Inr (existing, Some existing), s2))))"

section \<open>Following the group to the end of the poll\<close>

definition release_hold :: "flavor \<Rightarrow> seqno \<Rightarrow> 'w sys \<Rightarrow> 'w sys" where
  "release_hold f mark s = s\<lparr>refs := clearFlavorRejection f mark (refs s)\<rparr>"

definition vanishMessage :: string where
  "vanishMessage = ''an accepted nodegroup was reclaimed upstream (vanish); capacity is likely exhausted''"

definition launch_failed ::
  "provider_env \<Rightarrow> 'w kube \<Rightarrow> nodeclaim \<Rightarrow> nodegroup \<Rightarrow> wait_error \<Rightarrow> 'w sys \<Rightarrow> 'w sys" where
  "launch_failed E K claim ng e s =
     (case e of
        WQuota q \<Rightarrow> publishQuotaEvent (peCatalogue E) claim q s
      | WRejected r \<Rightarrow>
          emit (claimEvent True ''NodeGroupRejected'' claim
                  [frFlavor r, frReason r, frMessage r, show_duration flavorBackoff])
            (remember_hold K (frFlavor r) s)
      | WVanished v \<Rightarrow>
          emit (claimEvent True ''NodeGroupVanished'' claim
                  [ngName ng, quotaConsequence (peCatalogue E) (ngFlavor ng)])
            (remember_quota K (peCatalogue E) (ngFlavor ng) vanishMessage (emit (Count NodeGroupVanished) s))
      | _ \<Rightarrow> s)"

definition follow ::
  "provider_env \<Rightarrow> 'w kube \<Rightarrow> nodeclaim \<Rightarrow> nodegroup \<Rightarrow> nodegroup option \<Rightarrow> reader \<Rightarrow> seqno \<Rightarrow> 'w sys \<Rightarrow>
   ('e launch_error + nodegroup) \<times> 'w sys" where
  "follow E K claim ng observed rd mark s =
     (let (accepted, retried, err, s1) = waitForAcceptance K (peCatalogue E) (ngName ng) observed rd s;
          s2 = (case retried of
                  Some t \<Rightarrow> publishTransientFailure claim (ngName ng) t accepted err s1
                | None \<Rightarrow> s1)
      in case err of
           Some e \<Rightarrow> (Inl (LWait e), launch_failed E K claim ng e s2)
         | None \<Rightarrow>
             if accepted = unacknowledged then
               (Inr ng, emit (claimEvent True ''NodeGroupAcceptanceTimeout'' claim
                                [ngName ng, show_duration quotaCheckTimeout])
                          (emit (Count NodeGroupAcceptanceTimeouts) s2))
             else (Inr ng, release_hold (ngFlavor ng) mark s2))"

section \<open>ResolveAndCreate and Create\<close>

type_synonym ('w, 'e) resolver = "'w sys \<Rightarrow> ('e + launch) \<times> 'w sys"

definition launch_reader :: "launch \<Rightarrow> reader" where
  "launch_reader l = (case (laExisting l, laExistingReader l) of (Some _, Some rd) \<Rightarrow> rd | _ \<Rightarrow> Cached)"

definition ResolveAndCreate ::
  "provider_env \<Rightarrow> 'w kube \<Rightarrow> nodeclaim \<Rightarrow> ('w, 'e) resolver \<Rightarrow> 'w sys \<Rightarrow>
   ('e launch_error + nodegroup) \<times> 'w sys" where
  "ResolveAndCreate E K claim resolve s =
     (case resolve s of
        (Inl e, s1) \<Rightarrow> (Inl (LResolve e), s1)
      | (Inr l, s1) \<Rightarrow>
          (case (if laExisting l = None
                 then quotaFastFail (peCatalogue E) (now K s1) (laFlavor l) (refs s1) else None) of
             Some q \<Rightarrow> (Inl (LQuota q), s1)
           | None \<Rightarrow>
               (let mark = holdOutMark (refs s1) in
                case obtain_group E K claim l s1 of
                  (Inl e, s2) \<Rightarrow> (Inl e, s2)
                | (Inr (ng, observed), s2) \<Rightarrow>
                    follow E K claim ng observed (launch_reader l) mark s2)))"

definition CreateNodeGroup ::
  "provider_env \<Rightarrow> 'w kube \<Rightarrow> nodeclaim \<Rightarrow> nodeclass \<Rightarrow> flavor \<Rightarrow> 'w sys \<Rightarrow>
   (unit launch_error + nodegroup) \<times> 'w sys" where
  "CreateNodeGroup E K claim class f =
     ResolveAndCreate E K claim
       (\<lambda>s. (Inr \<lparr>laClass = class, laFlavor = f, laAnnotations = Map.empty, laExisting = None,
                  laExistingReader = None\<rparr>, s))"

section \<open>Get, List, Delete, RecordLateRefusal\<close>

definition GetNodeGroup :: "provider_env \<Rightarrow> 'w kube \<Rightarrow> name \<Rightarrow> 'w sys \<Rightarrow> (api_error + nodegroup) \<times> 'w sys" where
  "GetNodeGroup E K n = getNG K (peCatalogue E) Cached n"

definition ListNodeGroups :: "provider_env \<Rightarrow> 'w kube \<Rightarrow> 'w sys \<Rightarrow> (api_error + nodegroup list) \<times> 'w sys" where
  "ListNodeGroups E K = listNG K (peCatalogue E) [(ManagedLabelKey, ''true'')]"

definition DeleteNodeGroup :: "provider_env \<Rightarrow> 'w kube \<Rightarrow> nodegroup \<Rightarrow> 'w sys \<Rightarrow> api_error option \<times> 'w sys" where
  "DeleteNodeGroup E K ng s =
     (let mark = quotaRejectionMark (refs s) in
      case deleteNG K (peCatalogue E) (ngName ng) s of
        (Some e, s1) \<Rightarrow> (Some e, s1)
      | (None, s1) \<Rightarrow>
          if IsSynced ng \<or> \<not> IsRefused ng
          then (None, s1\<lparr>refs := clearQuotaRejections mark (refs s1)\<rparr>)
          else (None, s1))"

definition RecordLateRefusal :: "provider_env \<Rightarrow> 'w kube \<Rightarrow> nodeclaim \<Rightarrow> nodegroup \<Rightarrow> 'w sys \<Rightarrow> 'w sys" where
  "RecordLateRefusal E K claim ng s =
     (if IsQuotaExceeded ng then
        let msg = failureMessage ng in
        emit (claimEvent True ''NodeGroupQuotaExceeded'' claim
                [ngName ng, ngFlavor ng, DescribeFailure ReasonQuotaExceeded msg,
                 quotaConsequence (peCatalogue E) (ngFlavor ng)])
          (emit (Count NodeGroupQuotaRejections) (remember_quota K (peCatalogue E) (ngFlavor ng) msg s))
      else case Refusal ng of
        None \<Rightarrow> s
      | Some (reason, message) \<Rightarrow>
          emit (claimEvent True ''NodeGroupRejected'' claim
                  [ngFlavor ng, ngName ng, DescribeFailure reason message, show_duration flavorBackoff])
            (emit (Count NodeGroupRejections) (remember_hold K (ngFlavor ng) s)))"

section \<open>The payload\<close>

lemma key_neqs:
  "ManagedLabelKey \<noteq> NodeClaimLabelKey" "ManagedLabelKey \<noteq> NodePoolLabelKey" "ManagedLabelKey \<noteq> NodeClassLabelKey"
  "NodeClaimLabelKey \<noteq> NodePoolLabelKey" "NodeClaimLabelKey \<noteq> NodeClassLabelKey"
  "NodePoolLabelKey \<noteq> NodeClassLabelKey" "NodeClassHashLabelKey \<noteq> NodeClassHashVersionAnnotationKey"
  by (simp_all add: ManagedLabelKey_def NodeClaimLabelKey_def NodePoolLabelKey_def NodeClassLabelKey_def
      NodeClassHashLabelKey_def NodeClassHashVersionAnnotationKey_def)

lemma newNodeGroup_labels [simp]:
  "omLabels (ngMeta (newNodeGroup E claim l)) ManagedLabelKey = Some ''true''"
  "omLabels (ngMeta (newNodeGroup E claim l)) NodeClaimLabelKey = Some (ncName claim)"
  by (simp_all add: newNodeGroup_def key_neqs key_neqs [symmetric])

lemma newNodeGroup_simps [simp]:
  "ngName (newNodeGroup E claim l) = ncName claim" "ngFlavor (newNodeGroup E claim l) = laFlavor l"
  by (simp_all add: newNodeGroup_def)

text \<open>
  C40. The payload of a launch identifies it. The group a launch posts is one node of the launch's
  flavor, tainted until it registers; it passes the very ownership checks that adoption and the
  sweeps apply, for its claim and for no claim with another UID; and its stamp, which no annotation
  of the launch can override, matches the NodeClass it was built from.
\<close>

theorem payload_is_owned_and_stamped:
  "(OwnedByNodeClaim (newNodeGroup E claim l) claim' \<longleftrightarrow>
      ncName claim' = ncName claim \<and> ncUID claim' = ncUID claim) \<and>
   NodeClaimOwners (newNodeGroup E claim l) = [ncName claim] \<and>
   nsNodeCount (ngSpec (newNodeGroup E claim l)) = 1 \<and>
   ngFlavor (newNodeGroup E claim l) = laFlavor l \<and>
   map ntKey (nsTaints (ngSpec (newNodeGroup E claim l))) = [UnregisteredTaintKey] \<and>
   HashMatches (peRules E) (peHash E) (clLabels (laClass l))
      (valOf (omAnnotations (ngMeta (newNodeGroup E claim l))) NodeClassHashVersionAnnotationKey)
      (valOf (omAnnotations (ngMeta (newNodeGroup E claim l))) NodeClassHashLabelKey) = (True, True)"
  (is "?own \<and> ?refs \<and> ?rest")
proof (intro conjI)
  show ?own
    by (auto simp: OwnedByNodeClaim_def IsManaged_def valOf_def) (auto simp: newNodeGroup_def)
  show ?refs
    by (simp add: NodeClaimOwners_def newNodeGroup_def HasPrefix_def)
qed (simp_all add: newNodeGroup_def stampedAnnotations_def valOf_def key_neqs HashMatches_def)

section \<open>What a launch does to the API\<close>

fun is_create :: "effect \<Rightarrow> bool" where
  "is_create (CreatedNG ng r) = True"
| "is_create _ = False"

abbreviation no_create :: "effect \<Rightarrow> bool" where "no_create e \<equiv> \<not> is_create e"

lemma only_poll:
  assumes "waitForAcceptance K cat n observed rd s = (a, retried, err, s')"
    and "\<And>r. P (ReadNG rd n r)" "\<And>c. P (Count c)" "\<And>d. P (DeletedNG n d)"
  shows "only P s s'"
proof -
  from waitForAcceptance_spec [OF assms(1)] obtain rs where "polled n observed rd (observed \<noteq> None) rs s s'"
    by blast
  then show ?thesis
    by (auto simp: polled_def only_def list_all_iff assms(2-) split: if_splits)
qed

lemma only_release [simp]: "only P s (release_hold f k t) = only P s t"
  by (simp add: release_hold_def)

lemma only_follow:
  assumes "follow E K claim ng observed rd mark s = (res, s')"
    and "\<And>r. P (ReadNG rd (ngName ng) r)" "\<And>c. P (Count c)" "\<And>d. P (DeletedNG (ngName ng) d)" "\<And>e. P (Publish e)"
  shows "only P s s'"
proof -
  obtain a retried err s1 where w: "waitForAcceptance K (peCatalogue E) (ngName ng) observed rd s = (a, retried, err, s1)"
    using prod_cases4 by blast
  have s1: "only P s s1" by (rule only_poll [OF w]) (rule assms)+
  define s2 where "s2 = (case retried of
      Some t \<Rightarrow> publishTransientFailure claim (ngName ng) t a err s1 | None \<Rightarrow> s1)"
  have s2: "only P s s2"
    using s1 by (auto simp: s2_def publishTransientFailure_def claimEvent_def assms(5)
        split: option.splits prod.splits intro: only_intros)
  have "only P s (launch_failed E K claim ng e s2)" for e
    using s2 by (auto simp: launch_failed_def publishQuotaEvent_def claimEvent_def assms(3,5)
        split: wait_error.splits intro!: only_intros)
  then show ?thesis
    using assms(1) s2 unfolding follow_def w Let_def prod.case s2_def [symmetric]
    by (auto simp: claimEvent_def assms(3,5) split: option.splits if_splits intro!: only_intros)
qed

text \<open>The group a launch goes on with: the answer to its own POST, or an owned group it adopts.\<close>

lemma obtain_group_spec:
  assumes "obtain_group E K claim l s = (res, s')"
  shows "case laExisting l of
      Some ob \<Rightarrow> s' = s \<and> (\<forall>ng seen. res = Inr (ng, seen) \<longrightarrow> ng = ob \<and> seen = Some ob \<and> OwnedByNodeClaim ob claim)
    | None \<Rightarrow> \<exists>r es. trace s' = trace s @ CreatedNG (newNodeGroup E claim l) r # es \<and>
        list_all no_create es \<and> list_all (\<lambda>e. \<forall>n d. e \<noteq> DeletedNG n d) es \<and>
        (\<forall>ng seen. res = Inr (ng, seen) \<longrightarrow>
           r = Inr ng \<and> seen = None \<or>
           r = Inl AlreadyExists \<and> seen = Some ng \<and> OwnedByNodeClaim ng claim \<and>
           ReadNG Cached (ncName claim) (Inr ng) \<in> set es)"
proof (cases "laExisting l")
  case (Some ob)
  then show ?thesis using assms by (auto simp: obtain_group_def split: if_splits)
next
  case None
  obtain r s1 where c: "createNG K (peCatalogue E) (newNodeGroup E claim l) s = (r, s1)"
    by (cases "createNG K (peCatalogue E) (newNodeGroup E claim l) s")
  have t1: "trace s1 = trace s @ [CreatedNG (newNodeGroup E claim l) r]"
    using c by (auto simp: createNG_def dest: trace_call)
  show ?thesis
  proof (cases r)
    case (Inr ng)
    then show ?thesis using assms None c t1 by (auto simp: obtain_group_def)
  next
    case (Inl e)
    obtain g s2 where g: "getNG K (peCatalogue E) Cached (ncName claim) s1 = (g, s2)"
      by (cases "getNG K (peCatalogue E) Cached (ncName claim) s1")
    have t2: "trace s2 = trace s1 @ [ReadNG Cached (ncName claim) g]"
      using g by (auto simp: getNG_def dest: trace_call)
    show ?thesis
      using assms None c t1 Inl g t2
      by (auto simp: obtain_group_def Let_def refuseFlavorAtAdmission_def claimEvent_def
          split: option.splits if_splits sum.splits)
  qed
qed

text \<open>
  The three ways a resolved launch goes: failed fast, ended while obtaining the group, or followed to
  the end of the poll.
\<close>

lemma ResolveAndCreate_cases:
  fixes resolve :: "('w, 'e) resolver"
  assumes "resolve s = (Inr l, s1)" and "ResolveAndCreate E K claim resolve s = (res, s')"
  obtains (fast) q where "laExisting l = None"
      "quotaFastFail (peCatalogue E) (now K s1) (laFlavor l) (refs s1) = Some q" "res = Inl (LQuota q)" "s' = s1"
  | (stopped) e where "laExisting l = None \<Longrightarrow>
        quotaFastFail (peCatalogue E) (now K s1) (laFlavor l) (refs s1) = None"
      "obtain_group E K claim l s1 = (Inl e, s')" "res = Inl e"
  | (followed) ng seen s2 where "laExisting l = None \<Longrightarrow>
        quotaFastFail (peCatalogue E) (now K s1) (laFlavor l) (refs s1) = None"
      "obtain_group E K claim l s1 = ((Inr (ng, seen) :: 'e launch_error + _), s2)"
      "follow E K claim ng seen (launch_reader l) (holdOutMark (refs s1)) s2 = (res, s')"
proof (cases "if laExisting l = None
    then quotaFastFail (peCatalogue E) (now K s1) (laFlavor l) (refs s1) else None")
  case (Some q)
  then have q: "laExisting l = None" "quotaFastFail (peCatalogue E) (now K s1) (laFlavor l) (refs s1) = Some q"
    by (simp_all split: if_splits)
  then have "res = Inl (LQuota q)" "s' = s1"
    using assms by (simp_all add: ResolveAndCreate_def)
  with q show ?thesis by (rule fast)
next
  case None
  then have pre: "laExisting l = None \<Longrightarrow>
      quotaFastFail (peCatalogue E) (now K s1) (laFlavor l) (refs s1) = None" by simp
  obtain o1 :: "'e launch_error + _" and s2 where o1: "obtain_group E K claim l s1 = (o1, s2)"
    by (meson surj_pair)
  have run: "(case o1 of Inl e \<Rightarrow> (Inl e, s2)
      | Inr (ng, seen) \<Rightarrow> follow E K claim ng seen (launch_reader l) (holdOutMark (refs s1)) s2) = (res, s')"
    using assms(2) unfolding ResolveAndCreate_def assms(1) prod.case sum.case None option.case Let_def o1
    by (cases o1) auto
  show ?thesis
  proof (cases o1)
    case (Inl e)
    have "s2 = s'" "res = Inl e" using run Inl by simp_all
    with o1 Inl pre show ?thesis by (intro stopped) simp_all
  next
    case (Inr a)
    obtain ng seen where a: "a = (ng, seen)" by (cases a)
    have "follow E K claim ng seen (launch_reader l) (holdOutMark (refs s1)) s2 = (res, s')"
      using run Inr a by simp
    with o1 Inr a pre show ?thesis by (intro followed) simp_all
  qed
qed

text \<open>
  A launch posts at most one group, first, and only when the quota memory lets it. While a quota
  rejection covers the flavor it makes no API call at all; a launch that adopts an existing group
  never posts; any other launch starts with one POST of its payload and never posts again, not even
  to recreate a group that vanished.
\<close>

theorem launch_posts_at_most_once:
  assumes "resolve s = (Inr l, s1)" and "ResolveAndCreate E K claim resolve s = (res, s')"
  shows "case (laExisting l, quotaFastFail (peCatalogue E) (now K s1) (laFlavor l) (refs s1)) of
      (None, Some q) \<Rightarrow> res = Inl (LQuota q) \<and> s' = s1
    | (None, None) \<Rightarrow> \<exists>r rest. did s1 s' = CreatedNG (newNodeGroup E claim l) r # rest \<and> list_all no_create rest
    | (Some ob, _) \<Rightarrow> list_all no_create (did s1 s')"
  using assms
proof (cases rule: ResolveAndCreate_cases)
  case (fast q)
  then show ?thesis by simp
next
  case (stopped e)
  then show ?thesis
    using obtain_group_spec [OF stopped(2)] by (cases "laExisting l") (auto simp: did_def)
next
  case (followed ng seen s2)
  have f: "only no_create s2 s'" by (rule only_follow [OF followed(3)]) simp_all
  then obtain es where es: "trace s' = trace s2 @ es" "list_all no_create es" by (auto simp: only_def)
  then show ?thesis
    using obtain_group_spec [OF followed(2)] followed(1) by (cases "laExisting l") (auto simp: did_def)
qed

lemma follow_result: "follow E K claim ng seen rd mark s = (Inr g, s') \<Longrightarrow> g = ng"
  by (auto simp: follow_def Let_def split: prod.splits option.splits if_splits)

text \<open>
  A launch returns only a group of its claim: the API's answer to its own POST, or a group whose
  managed label, names and owner reference, UID included, all say it belongs to the claim. A group of
  the same name that belongs to someone else is never taken over.
\<close>

theorem launch_returns_own_group:
  assumes "resolve s = (Inr l, s1)" and "ResolveAndCreate E K claim resolve s = (Inr ng, s')"
  shows "(laExisting l = None \<and> CreatedNG (newNodeGroup E claim l) (Inr ng) \<in> set (did s1 s')) \<or>
    OwnedByNodeClaim ng claim"
  using assms
proof (cases rule: ResolveAndCreate_cases)
  case (followed g seen s2)
  have g: "g = ng" using follow_result [OF followed(3)] by simp
  obtain es where es: "trace s' = trace s2 @ es"
    using only_follow [OF followed(3), of "\<lambda>_. True"] by (auto simp: only_def)
  show ?thesis
    using obtain_group_spec [OF followed(2)] g es by (cases "laExisting l") (auto simp: did_def)
qed simp_all

section \<open>What a launch leaves in the memory of refusals\<close>

lemma now_quiet [simp]:
  "now K (emit e s) = now K s" "now K (remember_hold K f s) = now K s"
  "now K (remember_quota K cat f m s) = now K s" "now K (release_hold f k s) = now K s"
  by (simp_all add: now_def release_hold_def)

lemma hold_out_lasts:
  "t < now K s + 5 * minute \<Longrightarrow> Unavailable cat t f (refs (remember_hold K f s))"
  by (auto simp: Unavailable_def held_iff remember_hold_def recordFlavorRejection_simps)

lemma quota_lasts:
  assumes "t < now K s + minute"
  shows "Unavailable cat t f (refs (remember_quota K cat f m s))"
proof -
  let ?m = "refs (remember_quota K cat f m s)"
  obtain r where "map_of (quotaRejections ?m) f = Some r" "qrAt r = now K s"
    by (auto simp: remember_quota_def recordQuotaRejection_simps)
  then have "(f, r) \<in> set (quotaRejections ?m)" "coversNow t f (sizing cat f) (f, r)"
    using assms by (auto simp: coversNow_def dest: map_of_SomeD)
  then show ?thesis unfolding Unavailable_coversNow by blast
qed

text \<open>
  A refused flavor is unavailable from the moment the launch fails. Whoever refused it, the API
  server at admission or the operator, and whatever other goroutines did meanwhile, the flavor the
  error names stays unavailable to the scheduler for five minutes; and a group that vanished makes
  its flavor unavailable for one.
\<close>

theorem failed_launch_holds_the_flavor_out:
  assumes "resolve s = (Inr l, s1)" and "ResolveAndCreate E K claim resolve s = (Inl e, s')"
  shows "(\<forall>r t. asRejected e = Some r \<longrightarrow> t < now K s' + 5 * minute \<longrightarrow>
      Unavailable (peCatalogue E) t (frFlavor r) (refs s')) \<and>
    (isVanished e \<longrightarrow> (\<exists>ng.
      (laExisting l = Some ng \<or> CreatedNG (newNodeGroup E claim l) (Inr ng) \<in> set (did s1 s') \<or>
       ReadNG Cached (ncName claim) (Inr ng) \<in> set (did s1 s')) \<and>
      (\<forall>t. t < now K s' + minute \<longrightarrow> Unavailable (peCatalogue E) t (ngFlavor ng) (refs s'))))"
  using assms
  using assms(1,2)
proof (cases rule: ResolveAndCreate_cases)
  case (fast q)
  then show ?thesis by simp
next
  case (stopped x)
  then show ?thesis
    by (auto simp: obtain_group_def Let_def refuseFlavorAtAdmission_def hold_out_lasts split: option.splits if_splits prod.splits sum.splits)
next
  case (followed ng seen s2)
  obtain a retried err s3 where w: "waitForAcceptance K (peCatalogue E) (ngName ng) seen (launch_reader l) s2 =
      (a, retried, err, s3)"
    using prod_cases4 by blast
  define s4 where "s4 = (case retried of
      Some t \<Rightarrow> publishTransientFailure claim (ngName ng) t a err s3 | None \<Rightarrow> s3)"
  obtain we where e: "e = LWait we" "s' = launch_failed E K claim ng we s4"
    using followed(3) unfolding follow_def w Let_def prod.case s4_def [symmetric]
    by (auto split: option.splits if_splits)
  have "Unavailable (peCatalogue E) t (frFlavor r) (refs s')"
    if "we = WRejected r" "t < now K s' + 5 * minute" for r t
    using that hold_out_lasts [of t K s4] by (simp add: e launch_failed_def)
  moreover
  obtain es where es: "trace s' = trace s2 @ es"
    using only_follow [OF followed(3), of "\<lambda>_. True"] by (auto simp: only_def)
  have src: "laExisting l = Some ng \<or> CreatedNG (newNodeGroup E claim l) (Inr ng) \<in> set (did s1 s') \<or>
       ReadNG Cached (ncName claim) (Inr ng) \<in> set (did s1 s')"
    using obtain_group_spec [OF followed(2)] es by (cases "laExisting l") (auto simp: did_def)
  have "Unavailable (peCatalogue E) t (ngFlavor ng) (refs s')"
    if "we = WVanished v" "t < now K s' + minute" for v t
    using that quota_lasts [of t K] by (simp add: e launch_failed_def)
  ultimately show ?thesis using e(1) src by (cases we) auto
qed

text \<open>
  \<open>others K cat s s'\<close>: between the two states the refusals changed only through the critical sections
  of other goroutines.
\<close>

definition others :: "'w kube \<Rightarrow> catalogue \<Rightarrow> ref_op list \<Rightarrow> 'w sys \<Rightarrow> 'w sys \<Rightarrow> bool" where
  "others K cat ops s s' \<longleftrightarrow> refs s' = run_ops cat ops (refs s) \<and> (\<forall>x \<in> set ops. \<exists>w. x \<in> set (kOthers K w))"

lemma others_refl [simp]: "others K cat [] s s"
  by (simp add: others_def)

lemma run_ops_append [simp]: "run_ops cat (xs @ ys) m = run_ops cat ys (run_ops cat xs m)"
  by (simp add: run_ops_def)

lemma others_trans: "others K cat xs s t \<Longrightarrow> others K cat ys t u \<Longrightarrow> others K cat (xs @ ys) s u"
  by (auto simp: others_def)

lemma others_call: "call K cat f e s = (r, s') \<Longrightarrow> others K cat (kOthers K (world s')) s s'"
  by (auto simp: others_def refs_call)

lemma others_elapse: "others K cat (kOthers K w) s (elapse K cat w s)"
  by (auto simp: others_def)

lemma others_emit [simp]: "others K cat ops s (emit e t) = others K cat ops s t"
  by (simp add: others_def)

lemma others_poll_loop:
  assumes "poll_loop K cat n observed rd ticks seen retried s = (e, retried', s')"
    and "\<forall>q. e \<noteq> EndFailed (WQuota q)" and "\<forall>r. e \<noteq> EndFailed (WRejected r)"
  shows "\<exists>ops. others K cat ops s s'"
  using assms
proof (induction ticks arbitrary: seen retried s)
  case (0 seen retried s)
  obtain out seen1 retried1 s1 where p: "poll_once K cat n observed rd seen retried s = (out, seen1, retried1, s1)"
    using prod_cases4 by blast
  then obtain r t where g: "getNG K cat rd n s = (r, t)" and s1: "s1 = cleanup K cat n out t"
    using poll_once_refines [OF p] by blast
  have "s' = s1 \<and> \<not> is_refusal out"
    using 0 by (auto simp: p is_refusal_def poll_loop.simps [of K cat n observed rd 0] split: poll_outcome.splits)
  then have "s' = t" using s1 trace_cleanup [of out K cat n t] by simp
  then show ?case using others_call g by (metis getNG_def)
next
  case (Suc k seen retried s)
  obtain out seen1 retried1 s1 where p: "poll_once K cat n observed rd seen retried s = (out, seen1, retried1, s1)"
    using prod_cases4 by blast
  then obtain r t where g: "getNG K cat rd n s = (r, t)" and s1: "s1 = cleanup K cat n out t"
    using poll_once_refines [OF p] by blast
  have out: "\<not> is_refusal out"
    using Suc.prems by (auto simp: p is_refusal_def poll_loop.simps [of K cat n observed rd "Suc k"])
  then have "s1 = t" using s1 trace_cleanup [of out K cat n t] by simp
  then have o1: "others K cat (kOthers K (world s1)) s s1" using others_call g by (metis getNG_def)
  obtain wt w where w: "kPollWait K (world s1) = (wt, w)" by (cases "kPollWait K (world s1)")
  note o2 = others_trans [OF o1 others_elapse [of K cat w s1]]
  show ?case
  proof (cases "out = Again \<and> wt = Tick")
    case True
    then have "poll_loop K cat n observed rd k seen1 retried1 (elapse K cat w s1) = (e, retried', s')"
      using Suc.prems(1) w by (simp add: p poll_loop.simps [of K cat n observed rd "Suc k"])
    from Suc.IH [OF this Suc.prems(2,3)] others_trans [OF o2] show ?thesis by blast
  next
    case False
    then have "s' = s1 \<or> s' = elapse K cat w s1"
      using Suc.prems(1) w
      by (auto simp: p poll_loop.simps [of K cat n observed rd "Suc k"] split: poll_outcome.splits poll_wait.splits)
    then show ?thesis using o1 o2 by blast
  qed
qed

lemma others_obtain_group:
  assumes "obtain_group E K claim l s = (Inr x, s')"
  shows "\<exists>ops. others K (peCatalogue E) ops s s'"
proof (cases "laExisting l")
  case (Some ob)
  then show ?thesis using assms by (auto simp: obtain_group_def Let_def split: if_splits intro: exI [of _ "[]"])
next
  case None
  obtain r s1 where c: "createNG K (peCatalogue E) (newNodeGroup E claim l) s = (r, s1)"
    by (cases "createNG K (peCatalogue E) (newNodeGroup E claim l) s")
  obtain g s2 where g: "getNG K (peCatalogue E) Cached (ncName claim) s1 = (g, s2)"
    by (cases "getNG K (peCatalogue E) Cached (ncName claim) s1")
  have o1: "others K (peCatalogue E) (kOthers K (world s1)) s s1" using c others_call by (metis createNG_def)
  have o2: "others K (peCatalogue E) (kOthers K (world s2)) s1 s2" using g others_call by (metis getNG_def)
  have "s' = s1 \<or> s' = s2"
    using assms None c g by (auto simp: obtain_group_def Let_def split: sum.splits option.splits if_splits)
  then show ?thesis using o1 others_trans [OF o1 o2] by blast
qed

text \<open>
  A successful launch forgets at most its own flavor's older refusal. Apart from what other
  goroutines recorded, a launch that returns a group changes the memory of refusals in one way: if
  the operator accepted the group, the hold-out of the flavor the group actually has, recorded
  before the launch's create call, is released. An unacknowledged group releases nothing, and no
  success touches the quota rejections.
\<close>

theorem success_releases_only_older_holds:
  assumes "resolve s = (Inr l, s1)" and "ResolveAndCreate E K claim resolve s = (Inr ng, s')"
  shows "\<exists>ops. (\<forall>x \<in> set ops. \<exists>w. x \<in> set (kOthers K w)) \<and>
    (refs s' = run_ops (peCatalogue E) ops (refs s1) \<and> Count NodeGroupAcceptanceTimeouts \<in> set (did s1 s') \<or>
     refs s' = clearFlavorRejection (ngFlavor ng) (holdOutMark (refs s1)) (run_ops (peCatalogue E) ops (refs s1)))"
  using assms
proof (cases rule: ResolveAndCreate_cases)
  case (followed g seen s2)
  have g: "g = ng" using follow_result [OF followed(3)] by simp
  obtain a retried err s3 where w: "waitForAcceptance K (peCatalogue E) (ngName g) seen (launch_reader l) s2 =
      (a, retried, err, s3)"
    using prod_cases4 by blast
  define s4 where "s4 = (case retried of
      Some t \<Rightarrow> publishTransientFailure claim (ngName g) t a err s3 | None \<Rightarrow> s3)"
  have err: "err = None" and fin: "s' = (if a = unacknowledged
      then emit (claimEvent True ''NodeGroupAcceptanceTimeout'' claim [ngName g, show_duration quotaCheckTimeout])
             (emit (Count NodeGroupAcceptanceTimeouts) s4)
      else release_hold (ngFlavor g) (holdOutMark (refs s1)) s4)"
    using followed(3) unfolding follow_def w Let_def prod.case s4_def [symmetric]
    by (auto split: option.splits if_splits)
  have r4: "refs s4 = refs s3"
    by (auto simp: s4_def publishTransientFailure_def split: option.splits prod.splits)
  obtain e ret t where lp: "poll_loop K (peCatalogue E) (ngName g) seen (launch_reader l) quotaCheckTicks (seen \<noteq> None) None s2 = (e, ret, t)"
    using prod_cases3 by blast
  have t: "t = s3" "e \<noteq> EndFailed (WQuota q)" "e \<noteq> EndFailed (WRejected r)" for q r
    using w err unfolding waitForAcceptance_def lp prod.case
    by (auto simp: Interrupted_def split: poll_end.splits if_splits)
  then obtain o2 where o2: "others K (peCatalogue E) o2 s2 s3"
    using others_poll_loop [OF lp] by blast
  obtain o1 where o1: "others K (peCatalogue E) o1 s1 s2" using others_obtain_group [OF followed(2)] by blast
  from others_trans [OF o1 o2] have ops: "refs s3 = run_ops (peCatalogue E) (o1 @ o2) (refs s1)"
      "\<forall>x \<in> set (o1 @ o2). \<exists>w. x \<in> set (kOthers K w)"
    unfolding others_def by blast+
  have ext: "\<exists>es. trace s4 = trace s1 @ es"
  proof -
    have "only (\<lambda>_. True) s2 s3" by (rule only_poll [OF w]) simp_all
    then have "only (\<lambda>_. True) s2 s4"
      by (auto simp: s4_def publishTransientFailure_def split: option.splits prod.splits intro: only_intros)
    moreover have "\<exists>es. trace s2 = trace s1 @ es"
      using obtain_group_spec [OF followed(2)] by (cases "laExisting l") auto
    ultimately show ?thesis by (auto simp: only_def)
  qed
  show ?thesis
  proof (cases "a = unacknowledged")
    case True
    then have "refs s' = refs s3" "Count NodeGroupAcceptanceTimeouts \<in> set (did s1 s')"
      using fin r4 ext by (auto simp: did_def)
    with ops show ?thesis by metis
  next
    case False
    then have "refs s' = clearFlavorRejection (ngFlavor ng) (holdOutMark (refs s1)) (refs s3)"
      using fin r4 g by (simp add: release_hold_def)
    with ops show ?thesis by metis
  qed
qed simp_all

section \<open>Examples of launches\<close>

definition example_env :: provider_env where
  "example_env = \<lparr>peRules = example_rules, peHash = example_hash, peCatalogue = Some SizingByName\<rparr>"

definition example_launch :: launch where
  "example_launch = \<lparr>laClass = example_class, laFlavor = ''M'', laAnnotations = Map.empty,
     laExisting = None, laExistingReader = None\<rparr>"

definition example_resolve :: "launch \<Rightarrow> (unit, unit) resolver" where
  "example_resolve l s = (Inr l, s)"

text \<open>The API server refuses the flavor at admission.\<close>

definition unsupported_world :: "unit kube" where
  "unsupported_world = silent\<lparr>kCreateNG := \<lambda>ng w. (Inl (Invalid (Some [(flavorField, ''unsupported'')])), w)\<rparr>"

lemma unsupported_world_simps [simp]:
  "kCreateNG unsupported_world ng w = (Inl (Invalid (Some [(flavorField, ''unsupported'')])), w)"
  "kOthers unsupported_world w = []" "kNow unsupported_world w = 0"
  by (simp_all add: unsupported_world_def silent_def)

definition refused_launch :: "(unit launch_error + nodegroup) \<times> unit sys" where
  "refused_launch = ResolveAndCreate example_env unsupported_world example_claim
     (example_resolve example_launch) (start ())"

lemma refused_launch_result: "fst refused_launch =
    Inl (LRejected (ErrFlavorRejected ''M'' StatusReasonInvalid ''unsupported''))"
  by (simp add: refused_launch_def ResolveAndCreate_def example_resolve_def example_launch_def
      quotaFastFail_def quotaRejectionCovering_def start_def refusals0_def obtain_group_def run_defs
      admissionFlavorRefusal_def flavorField_def fieldlessCause_def Let_def)

lemma refused_launch_now: "now unsupported_world (snd refused_launch) = 0"
  by (simp add: now_def)

theorem failed_launch_holds_the_flavor_out_witness:
  "Unavailable (peCatalogue example_env) minute ''M'' (refs (snd refused_launch))"
  using failed_launch_holds_the_flavor_out [of "example_resolve example_launch" "start ()" example_launch "start ()"
      example_env unsupported_world example_claim "LRejected (ErrFlavorRejected ''M'' StatusReasonInvalid ''unsupported'')"
      "snd refused_launch"] refused_launch_result refused_launch_now
  by (simp add: example_resolve_def dur_defs flip: refused_launch_def)
    (simp add: prod_eq_iff)

theorem launch_posts_at_most_once_witness:
  "\<exists>r rest. did (start ()) (snd refused_launch) =
      CreatedNG (newNodeGroup example_env example_claim example_launch) r # rest \<and> list_all no_create rest"
proof -
  have "quotaFastFail c t f refusals0 = None" for c t f
    by (simp add: quotaFastFail_def quotaRejectionCovering_def refusals0_def Let_def)
  moreover have "laExisting example_launch = None" "refs (start ()) = refusals0"
    by (simp_all add: example_launch_def start_def)
  moreover have "example_resolve example_launch (start ()) = (Inr example_launch, start ())"
    by (simp add: example_resolve_def)
  ultimately show ?thesis
    using launch_posts_at_most_once [of "example_resolve example_launch" "start ()" example_launch "start ()"
      example_env unsupported_world example_claim "fst refused_launch" "snd refused_launch"]
    by (simp flip: refused_launch_def)
qed

text \<open>A claim whose group exists and is Ready is adopted.\<close>

definition adopting_world :: "unit kube" where
  "adopting_world = silent\<lparr>kGetNG := \<lambda>rd n w. (Inr (with_condition ConditionTypeReady '''' '''' example_group), w)\<rparr>"

lemma adopting_world_simps [simp]:
  "kGetNG adopting_world rd n w = (Inr (with_condition ConditionTypeReady '''' '''' example_group), w)"
  "kOthers adopting_world w = []" "kNow adopting_world w = 0"
  by (simp_all add: adopting_world_def silent_def)

definition adoption :: launch where
  "adoption = example_launch\<lparr>laExisting := Some example_group, laExistingReader := Some Uncached\<rparr>"

definition adopted :: "(unit launch_error + nodegroup) \<times> unit sys" where
  "adopted = ResolveAndCreate example_env adopting_world example_claim (example_resolve adoption) (start ())"

lemma example_group_owned: "OwnedByNodeClaim example_group example_claim"
  by (simp add: OwnedByNodeClaim_def IsManaged_def example_group_def example_claim_def valOf_def meta0_def
      key_neqs)

lemma adopted_result: "fst adopted = Inr example_group"
  using example_group_owned
  by (simp add: adopted_def ResolveAndCreate_def example_resolve_def adoption_def obtain_group_def follow_def
      waitForAcceptance_def poll_loop.simps [of _ _ _ _ _ quotaCheckTicks] poll_once_def run_defs
      with_condition_def verdict_defs ng_consts example_group_def meta0_def status0_def Let_def)

lemma adopted_run:
  "example_resolve adoption (start ()) = (Inr adoption, start ())"
  "ResolveAndCreate example_env adopting_world example_claim (example_resolve adoption) (start ()) =
     (Inr example_group, snd adopted)"
  using adopted_result by (simp_all add: example_resolve_def prod_eq_iff flip: adopted_def)

theorem launch_returns_own_group_witness:
  "laExisting adoption \<noteq> None \<and> OwnedByNodeClaim example_group example_claim"
  using launch_returns_own_group [OF adopted_run] by (simp add: adoption_def)

theorem success_releases_only_older_holds_witness:
  "rejectedFlavors (refs (snd adopted)) = []"
proof -
  have none: "ops = []" if "\<forall>x \<in> set ops. \<exists>w. x \<in> set (kOthers adopting_world w)" for ops
    using that by (cases ops) auto
  from success_releases_only_older_holds [OF adopted_run] none show ?thesis
    by (auto simp: start_def refusals0_def clearFlavorRejection_def)
qed

section \<open>Deletions and late refusals\<close>

text \<open>
  Only the deletion of capacity that existed reopens flavors. When the API accepts the DELETE of a
  group that synced or was never refused, no quota rejection recorded before the request is left.
  Otherwise, the request refused or the group itself refused without ever syncing, every flavor
  keeps its rejection unless another goroutine cleared it. No deletion lifts a hold-out.
\<close>

theorem delete_reopens_only_for_real_capacity:
  assumes "DeleteNodeGroup E K ng s = (r, s')"
    and "wf_quota (refs s)" "wf_holds (refs s)"
    and "unat (quotaRejectionSeq (refs s)) + length (kOthers K (world s')) < 2 ^ 64"
    and "unat (holdOutSeq (refs s)) + length (kOthers K (world s')) < 2 ^ 64"
    and "\<forall>k. ClearQuota k \<notin> set (kOthers K (world s'))"
    and "\<forall>f k. ClearHold f k \<notin> set (kOthers K (world s'))"
  shows "did s s' = [DeletedNG (ngName ng) r] \<and>
    (if r = None \<and> (IsSynced ng \<or> \<not> IsRefused ng)
     then list_all (\<lambda>(f, q). quotaRejectionMark (refs s) < qrSeq q) (quotaRejections (refs s'))
     else dom (map_of (quotaRejections (refs s))) \<subseteq> dom (map_of (quotaRejections (refs s')))) \<and>
    dom (map_of (rejectedFlavors (refs s))) \<subseteq> dom (map_of (rejectedFlavors (refs s')))"
proof -
  let ?cat = "peCatalogue E"
  obtain r0 t where d: "deleteNG K ?cat (ngName ng) s = (r0, t)" by (cases "deleteNG K ?cat (ngName ng) s")
  let ?ops = "kOthers K (world t)"
  have t: "trace t = trace s @ [DeletedNG (ngName ng) r0]" "refs t = run_ops ?cat ?ops (refs s)"
    using d by (auto simp: deleteNG_def dest: trace_call refs_call)
  have r: "r = r0" and s': "s' = (if r = None \<and> (IsSynced ng \<or> \<not> IsRefused ng)
      then t\<lparr>refs := clearQuotaRejections (quotaRejectionMark (refs s)) (refs t)\<rparr> else t)"
    using assms(1) d by (auto simp: DeleteNodeGroup_def Let_def split: option.splits if_splits)
  then have w: "world s' = world t" by simp
  have q: "f \<in> dom (map_of (quotaRejections (refs t)))" if "f \<in> dom (map_of (quotaRejections (refs s)))" for f
  proof -
    from that obtain q where q: "map_option qrSeq (map_of (quotaRejections (refs s)) f) = Some q" by auto
    have "\<exists>q'. map_option qrSeq (map_of (quotaRejections (refs t)) f) = Some q' \<and> q \<le> q'"
      unfolding t(2) run_ops_as_quota
      by (rule quotaLog.play_keeps [OF assms(2) q])
         (use assms(4,6) w in \<open>auto simp: as_quota_op_Forget dest!: sym [of "Forget _ _"]\<close>)
    then show ?thesis by auto
  qed
  have h: "f \<in> dom (map_of (rejectedFlavors (refs t)))" if "f \<in> dom (map_of (rejectedFlavors (refs s)))" for f
  proof -
    from that obtain q where q: "map_option hoSeq (map_of (rejectedFlavors (refs s)) f) = Some q" by auto
    have "\<exists>q'. map_option hoSeq (map_of (rejectedFlavors (refs t)) f) = Some q' \<and> q \<le> q'"
      unfolding t(2) run_ops_as_holds
      by (rule holdLog.play_keeps [OF assms(3) q])
         (use assms(5,7) w in \<open>auto simp: as_hold_op_Forget dest!: sym [of "Forget _ _"]\<close>)
    then show ?thesis by auto
  qed
  have clear: "rejectedFlavors (clearQuotaRejections k m) = rejectedFlavors m"
    "list_all (\<lambda>(f, q). k < qrSeq q) (quotaRejections (clearQuotaRejections k m))" for k m
    by (auto simp: clearQuotaRejections_def list_all_iff)
  have sub: "dom (map_of (quotaRejections (refs s))) \<subseteq> dom (map_of (quotaRejections (refs t)))"
    "dom (map_of (rejectedFlavors (refs s))) \<subseteq> dom (map_of (rejectedFlavors (refs t)))"
    by (rule subsetI, erule q h)+
  have "did s s' = [DeletedNG (ngName ng) r]" using t(1) r s' by (simp add: did_def)
  then show ?thesis
    by (simp add: s' sub clear)
qed

definition example_memory :: refusals where
  "example_memory = recordFlavorRejection 0 ''S'' (recordQuotaRejection None 0 ''M'' [] refusals0)"

theorem delete_reopens_only_for_real_capacity_witness:
  "''M'' \<in> dom (map_of (quotaRejections (refs (snd (DeleteNodeGroup example_env silent example_group
     \<lparr>world = (), trace = [], refs = example_memory\<rparr>)))))"
proof -
  let ?s = "\<lparr>world = (), trace = [], refs = example_memory\<rparr>"
  let ?r = "DeleteNodeGroup example_env silent example_group ?s"
  have run: "?r = (Some (OtherErr ''''), snd ?r)"
    by (simp add: DeleteNodeGroup_def run_defs silent_def Let_def)
  have wf: "wf_quota example_memory" "wf_holds example_memory"
    "unat (quotaRejectionSeq example_memory) = 1" "unat (holdOutSeq example_memory) = 1"
    by (simp_all add: example_memory_def refusals0_def wf_quota_def wf_holds_def
        recordFlavorRejection_def recordQuotaRejection_def Let_def)
  have "dom (map_of (quotaRejections example_memory)) = {''M''}"
    by (simp add: example_memory_def refusals0_def recordFlavorRejection_def recordQuotaRejection_def Let_def)
  moreover have "kOthers silent w = []" for w :: unit by (simp add: silent_def)
  ultimately have "dom (map_of (quotaRejections (refs ?s))) \<subseteq> dom (map_of (quotaRejections (refs (snd ?r))))"
    using wf delete_reopens_only_for_real_capacity [OF run, THEN conjunct2, THEN conjunct1]
    by (simp flip: One_nat_def)
  then show ?thesis using \<open>dom (map_of (quotaRejections example_memory)) = {''M''}\<close> by auto
qed

text \<open>
  A refusal published after the launch counts like one seen within it. Recording it makes the
  flavor of the group unavailable, for one minute for a quota rejection and for five for any other
  refusal, counts it under its own metric and publishes one event on the claim; a group that is not
  refused changes nothing.
\<close>

theorem late_refusal_is_recorded:
  "(\<not> IsRefused ng \<and> RecordLateRefusal E K claim ng s = s) \<or>
   (IsRefused ng \<and>
    Unavailable (peCatalogue E) (now K s + (if IsQuotaExceeded ng then minute else 5 * minute) - 1) (ngFlavor ng)
      (refs (RecordLateRefusal E K claim ng s)) \<and>
    (\<exists>ev. evOn ev = OnClaim (ncName claim) \<and> evWarning ev \<and>
       did s (RecordLateRefusal E K claim ng s) =
         [Count (if IsQuotaExceeded ng then NodeGroupQuotaRejections else NodeGroupRejections), Publish ev]))"
proof (cases "IsQuotaExceeded ng")
  case True
  then show ?thesis
    by (auto simp: RecordLateRefusal_def IsRefused_def Let_def quota_lasts did_def claimEvent_def)
next
  case False
  then show ?thesis
    by (cases "Refusal ng")
       (auto simp: RecordLateRefusal_def IsRefused_def Let_def hold_out_lasts did_def claimEvent_def)
qed

end
