(* ===== verification/GarbageCollection.thy ===== *)
theory GarbageCollection
  imports NodeGroupProvider
begin

text \<open>
  \<^verbatim>\<open>src/pkg/controllers/garbagecollection/controller.go\<close>: the sweep that deletes NodeGroups no NodeClaim
  references and fails NodeClaims whose NodeGroup vanished, and the pass that reports overdue
  deletions. \<^verbatim>\<open>time.Now\<close> is the world's clock. Of the log lines, those the controller deduplicates by
  its own state are effects (\<open>Logged\<close>); \<^verbatim>\<open>DedupeTimeout\<close> is the recorder's business.
\<close>

section \<open>State\<close>

definition pollPeriod :: duration where
  "pollPeriod = 2 * minute"

definition minAge :: duration where
  "minAge = 2 * minute"

definition deletionOverdueAfter :: duration where
  "deletionOverdueAfter = 5 * minute"

declare pollPeriod_def [dur_defs] minAge_def [dur_defs] deletionOverdueAfter_def [dur_defs]

definition ckeFinalizer :: string where
  "ckeFinalizer = ''clever-nodegroup-operator''"

record gc_state =
  gcWarned :: "string list"
  gcDeletionWarned :: "(name \<times> string) list"

datatype gc_error =
    GListGroups api_error
  | GListClaims api_error
  | GConfirmClaim name api_error
  | GDeleteGroup name api_error
  | GConfirmGroup name api_error
  | GDeleteClaim name api_error

definition groupEvent :: "bool \<Rightarrow> string \<Rightarrow> nodegroup \<Rightarrow> string list \<Rightarrow> string list \<Rightarrow> effect" where
  "groupEvent warning reason ng args dedupe =
     Publish \<lparr>evOn = OnGroup (ngName ng), evWarning = warning, evReason = reason, evArgs = args,
              evDedupe = dedupe\<rparr>"

section \<open>Overdue deletions\<close>

fun join :: "string \<Rightarrow> string list \<Rightarrow> string" where
  "join sep [] = ''''"
| "join sep [x] = x"
| "join sep (x # y # xs) = x @ sep @ join sep (y # xs)"

text \<open>The operator's last report: the phase, and its true conditions.\<close>

definition deletionOperatorState :: "nodegroup \<Rightarrow> string \<times> string" where
  "deletionOperatorState ng =
     (stPhase (ngStatus ng),
      join ''; '' (map (\<lambda>c. ncType c @ '' ('' @ DescribeFailure (ncReason c) (ncMessage c) @ '')'')
        (filter (\<lambda>c. ncStatus c = ConditionTrue) (stConditions (ngStatus ng)))))"

definition isOverdue :: "time \<Rightarrow> nodegroup \<Rightarrow> bool" where
  "isOverdue clock ng =
     (case omDeleted (ngMeta ng) of
        None \<Rightarrow> False
      | Some t \<Rightarrow> \<not> clock - t < deletionOverdueAfter)"

definition overdueAction :: "nodegroup \<Rightarrow> string" where
  "overdueAction ng =
     (let action = ''Inspect the controllers responsible for the remaining finalizers.'' in
      if ckeFinalizer \<in> set (omFinalizers (ngMeta ng)) then
        action @ '' The CKE operator finalizer is present: also check the CKE cluster state and contact Clever Cloud support if its wait persists; its presence does not establish the cause.''
      else if length (omFinalizers (ngMeta ng)) = 0 then
        ''No finalizers remain in this observation; inspect the current object and API server deletion state if the wait persists.''
      else action)"

text \<open>One iteration: \<open>overdue\<close> is the map being built, \<open>before\<close> the one of the previous pass.\<close>

definition overdue_step ::
  "time \<Rightarrow> (name \<times> string) list \<Rightarrow> nodegroup \<Rightarrow> (name \<times> string) list \<times> 'w sys \<Rightarrow>
   (name \<times> string) list \<times> 'w sys" where
  "overdue_step clock before ng acc =
     (let (overdue, s) = acc in
      if \<not> isOverdue clock ng then (overdue, s)
      else
        let overdue' = AList.update (ngName ng) (ngUID ng) overdue;
            age = (case omDeleted (ngMeta ng) of Some t \<Rightarrow> (clock - t) div second | None \<Rightarrow> 0);
            (phase, conds) = deletionOperatorState ng;
            s1 = (case map_of before (ngName ng) of
                    Some uid \<Rightarrow> if uid \<noteq> ngUID ng then emit (Logged ''overdue'' (ngName ng)) s else s
                  | None \<Rightarrow> emit (Logged ''overdue'' (ngName ng)) s)
        in (overdue', emit (groupEvent True ''NodeGroupDeletionOverdue'' ng
              [ngName ng, show_seconds (nat age), show_duration deletionOverdueAfter, phase, conds,
               join '' '' (omFinalizers (ngMeta ng)), overdueAction ng, ngName ng]
              [ngName ng, ngUID ng]) s1))"

definition reportOverdueDeletions ::
  "nodegroup list \<Rightarrow> time \<Rightarrow> gc_state \<Rightarrow> 'w sys \<Rightarrow> gc_state \<times> 'w sys" where
  "reportOverdueDeletions ngs clock gc s =
     (let (overdue, s1) = fold (overdue_step clock (gcDeletionWarned gc)) ngs ([], s)
      in (gc\<lparr>gcDeletionWarned := overdue\<rparr>,
          emit (SetGauge NodeGroupDeletionOverdue (of_nat (length overdue))) s1))"

section \<open>Warnings\<close>

definition warnResize :: "nodegroup \<Rightarrow> gc_state \<Rightarrow> 'w sys \<Rightarrow> gc_state \<times> 'w sys" where
  "warnResize ng gc s =
     (let key = ''resized/'' @ ngName ng;
          (gc1, s1) = (if key \<in> set (gcWarned gc) then (gc, s)
                       else (gc\<lparr>gcWarned := key # gcWarned gc\<rparr>, emit (Logged ''resized'' (ngName ng)) s))
      in (gc1, emit (groupEvent True ''NodeGroupExternallyResized'' ng
                 [dec_int (nsNodeCount (ngSpec ng))] [ngName ng]) s1))"

definition refuse :: "nodegroup \<Rightarrow> string \<Rightarrow> gc_state \<Rightarrow> 'w sys \<Rightarrow> gc_state \<times> 'w sys" where
  "refuse ng msg gc s =
     (let (gc1, s1) = (if ngName ng \<in> set (gcWarned gc) then (gc, s)
                       else (gc\<lparr>gcWarned := ngName ng # gcWarned gc\<rparr>, emit (Logged msg (ngName ng)) s))
      in (gc1, emit (groupEvent True ''GarbageCollectionRefused'' ng [msg] [ngName ng]) s1))"

section \<open>Vanished NodeClaims\<close>

definition ConditionTypeLaunched :: string where
  "ConditionTypeLaunched = ''Launched''"
definition ConditionTypeRegistered :: string where
  "ConditionTypeRegistered = ''Registered''"

text \<open>\<^verbatim>\<open>NodeClassRef\<close> names this provider's kind.\<close>

definition isOurs :: "nodeclaim \<Rightarrow> bool" where
  "isOurs claim =
     (case ncClassRef claim of
        None \<Rightarrow> False
      | Some r \<Rightarrow> \<not> (crGroup r \<noteq> Group \<or> crKind r \<noteq> ''CleverNodeClass''))"

definition groupOfClaim :: "nodeclaim \<Rightarrow> name" where
  "groupOfClaim claim =
     (case ParseProviderID (ncProviderID claim) of Some n \<Rightarrow> n | None \<Rightarrow> ncName claim)"

definition vanish_step ::
  "provider_env \<Rightarrow> 'w kube \<Rightarrow> name list \<Rightarrow> nodeclaim \<Rightarrow> gc_error list \<times> 'w sys \<Rightarrow> gc_error list \<times> 'w sys" where
  "vanish_step E K groupNames claim acc =
     (let (errs, s) = acc; cat = peCatalogue E; groupName = groupOfClaim claim in
      if \<not> isOurs claim then (errs, s)
      else if ncTerminating claim \<or> now K s - omCreated (ncMeta claim) < minAge then (errs, s)
      else if \<not> IsTrue (ncConditions claim) ConditionTypeLaunched \<or>
              IsTrue (ncConditions claim) ConditionTypeRegistered then (errs, s)
      else if groupName \<in> set groupNames then (errs, s)
      else case getNG K cat Uncached groupName s of
             (Inr _, s1) \<Rightarrow> (errs, s1)
           | (Inl e, s1) \<Rightarrow>
               if e \<noteq> NotFound then (errs @ [GConfirmGroup groupName e], s1)
               else case deleteClaim K cat claim None s1 of
                      (r, s2) \<Rightarrow>
                        (case (case r of Some de \<Rightarrow> IgnoreNotFound de | None \<Rightarrow> None) of
                           Some de \<Rightarrow> (errs @ [GDeleteClaim (ncName claim) de], s2)
                         | None \<Rightarrow>
                             (errs, emit (claimEvent True ''NodeGroupVanished'' claim [])
                                      (emit (Count NodeGroupVanished) s2))))"

definition reapVanishedNodeClaims ::
  "provider_env \<Rightarrow> 'w kube \<Rightarrow> nodeclaim list \<Rightarrow> 'w sys \<Rightarrow> gc_error list \<times> 'w sys" where
  "reapVanishedNodeClaims E K claims s =
     (case listNG K (peCatalogue E) [] s of
        (Inl e, s1) \<Rightarrow> ([GListGroups e], s1)
      | (Inr allGroups, s1) \<Rightarrow> fold (vanish_step E K (map ngName allGroups)) claims ([], s1))"

section \<open>Orphaned NodeGroups\<close>

fun anyClaimAliveUncached ::
  "provider_env \<Rightarrow> 'w kube \<Rightarrow> name list \<Rightarrow> name list \<Rightarrow> 'w sys \<Rightarrow> (gc_error + bool) \<times> 'w sys" where
  "anyClaimAliveUncached E K checked [] s = (Inr False, s)"
| "anyClaimAliveUncached E K checked (n # ns) s =
     (if n \<in> set checked then anyClaimAliveUncached E K checked ns s
      else case getClaim K (peCatalogue E) Uncached n s of
             (Inr _, s1) \<Rightarrow> (Inr True, s1)
           | (Inl e, s1) \<Rightarrow>
               if e \<noteq> NotFound then (Inl (GConfirmClaim n e), s1)
               else anyClaimAliveUncached E K (n # checked) ns s1)"

definition ownerAlive :: "name list \<Rightarrow> name list \<Rightarrow> bool" where
  "ownerAlive owners claimNames \<longleftrightarrow> (\<exists>owner \<in> set owners. owner \<in> set claimNames)"

definition claimNameOf :: "nodegroup \<Rightarrow> name" where
  "claimNameOf ng =
     (let claimName = valOf (omLabels (ngMeta ng)) NodeClaimLabelKey
      in if claimName = '''' then ngName ng else claimName)"

definition unowned_msg :: string where
  "unowned_msg = ''refusing to garbage collect nodegroup carrying the managed label without a NodeClaim owner reference; remove the label if it was copied from a karpenter-created manifest, or delete the nodegroup manually if its owner was deliberately orphaned''"

definition mislabelled_msg :: string where
  "mislabelled_msg = ''refusing to garbage collect nodegroup whose NodeClaim owner is alive but whose nodeclaim label matches nothing; fix the label''"

text \<open>The variables of the loop over the managed groups.\<close>

record sweep =
  swRefused :: nat
  swResized :: nat
  swErrs :: "gc_error list"
  swState :: gc_state

definition refuse_group :: "nodegroup \<Rightarrow> string \<Rightarrow> sweep \<times> 'w sys \<Rightarrow> sweep \<times> 'w sys" where
  "refuse_group ng msg acc =
     (let (sw, s) = acc; (gc, s1) = refuse ng msg (swState sw) s
      in (sw\<lparr>swRefused := swRefused sw + 1, swState := gc\<rparr>, s1))"

definition resize_check :: "nodegroup \<Rightarrow> sweep \<times> 'w sys \<Rightarrow> sweep \<times> 'w sys" where
  "resize_check ng acc =
     (let (sw, s) = acc in
      if nsNodeCount (ngSpec ng) \<noteq> 1 then
        let (gc, s1) = warnResize ng (swState sw) s
        in (sw\<lparr>swResized := swResized sw + 1, swState := gc\<rparr>, s1)
      else (sw, s))"

definition reap_group ::
  "provider_env \<Rightarrow> 'w kube \<Rightarrow> name list \<Rightarrow> nodegroup \<Rightarrow> sweep \<times> 'w sys \<Rightarrow> sweep \<times> 'w sys" where
  "reap_group E K owners ng acc =
     (let (sw, s) = acc in
      case anyClaimAliveUncached E K [] (claimNameOf ng # owners) s of
        (Inl e, s1) \<Rightarrow> (sw\<lparr>swErrs := swErrs sw @ [e]\<rparr>, s1)
      | (Inr alive, s1) \<Rightarrow>
          if alive then (sw, s1)
          else case DeleteNodeGroup E K ng s1 of
                 (Some e, s2) \<Rightarrow>
                   if e = NotFound then (sw, s2)
                   else (sw\<lparr>swErrs := swErrs sw @ [GDeleteGroup (ngName ng) e]\<rparr>, s2)
               | (None, s2) \<Rightarrow>
                   (sw, emit (groupEvent False ''GarbageCollected'' ng [] [ngName ng])
                          (emit (Count GCReapedNodeGroups) s2)))"

definition sweep_step ::
  "provider_env \<Rightarrow> 'w kube \<Rightarrow> name list \<Rightarrow> nodegroup \<Rightarrow> sweep \<times> 'w sys \<Rightarrow> sweep \<times> 'w sys" where
  "sweep_step E K claimNames ng acc =
     (if ngTerminating ng then acc
      else
        let (sw, s) = resize_check ng acc in
        if now K s - omCreated (ngMeta ng) < minAge then (sw, s)
        else if claimNameOf ng \<in> set claimNames then (sw, s)
        else let owners = NodeClaimOwners ng in
             if owners = [] then refuse_group ng unowned_msg (sw, s)
             else if ownerAlive owners claimNames then refuse_group ng mislabelled_msg (sw, s)
             else reap_group E K owners ng (sw, s))"

text \<open>\<^verbatim>\<open>Reconcile\<close>: the errors of the sweep, or the delay until the next one.\<close>

definition gc_Reconcile ::
  "provider_env \<Rightarrow> 'w kube \<Rightarrow> gc_state \<Rightarrow> 'w sys \<Rightarrow> (gc_error list + duration) \<times> gc_state \<times> 'w sys" where
  "gc_Reconcile E K gc s =
     (case ListNodeGroups E K s of
        (Inl e, s1) \<Rightarrow> (Inl [GListGroups e], gc, s1)
      | (Inr nodeGroups, s1) \<Rightarrow>
          (let (gc1, s2) = reportOverdueDeletions nodeGroups (now K s1) gc s1 in
           case listClaims K (peCatalogue E) s2 of
             (Inl e, s3) \<Rightarrow> (Inl [GListClaims e], gc1, s3)
           | (Inr claims, s3) \<Rightarrow>
               (let (errs, s4) = reapVanishedNodeClaims E K claims s3;
                    (sw, s5) = fold (sweep_step E K (map ncName claims)) nodeGroups
                      (\<lparr>swRefused = 0, swResized = 0, swErrs = errs, swState = gc1\<rparr>, s4);
                    s6 = emit (SetGauge NodeGroupExternalResizes (of_nat (swResized sw))) s5;
                    s7 = emit (SetGauge GCRefusedNodeGroups (of_nat (swRefused sw))) s6
                in (if swErrs sw \<noteq> [] then Inl (swErrs sw) else Inr pollPeriod, swState sw, s7))))"

section \<open>Why the sweep destroys something\<close>

text \<open>What must precede each effect of a sweep over the groups \<open>ngs\<close> and the claims \<open>claims\<close>.\<close>

definition orphan :: "nodeclaim list \<Rightarrow> nodegroup \<Rightarrow> bool" where
  "orphan claims ng \<longleftrightarrow>
     \<not> ngTerminating ng \<and> NodeClaimOwners ng \<noteq> [] \<and>
     (\<forall>n \<in> set (claimNameOf ng # NodeClaimOwners ng). n \<notin> ncName ` set claims)"

definition vanished :: "nodeclaim \<Rightarrow> bool" where
  "vanished claim \<longleftrightarrow>
     isOurs claim \<and> \<not> ncTerminating claim \<and> IsTrue (ncConditions claim) ConditionTypeLaunched \<and>
     \<not> IsTrue (ncConditions claim) ConditionTypeRegistered"

definition gc_justifies ::
  "'w kube \<Rightarrow> nodegroup list \<Rightarrow> nodeclaim list \<Rightarrow> effect list \<Rightarrow> effect \<Rightarrow> bool" where
  "gc_justifies K ngs claims xs e =
     (case e of
        DeletedNG n d \<Rightarrow>
          (\<exists>ng \<in> set ngs. ngName ng = n \<and> orphan claims ng \<and>
             (\<exists>w. omCreated (ngMeta ng) + minAge \<le> kNow K w) \<and>
             (\<forall>x \<in> set (claimNameOf ng # NodeClaimOwners ng). ReadClaim Uncached x (Inl NotFound) \<in> set xs))
      | DeletedClaim c pre d \<Rightarrow>
          c \<in> set claims \<and> vanished c \<and> (\<exists>w. omCreated (ncMeta c) + minAge \<le> kNow K w) \<and>
          ReadNG Uncached (groupOfClaim c) (Inl NotFound) \<in> set xs
      | CreatedNG _ _ \<Rightarrow> False | PatchedNG _ _ _ \<Rightarrow> False | PatchedClass _ _ _ \<Rightarrow> False
      | PatchedClassStatus _ _ _ \<Rightarrow> False | PatchedNode _ _ _ \<Rightarrow> False
      | _ \<Rightarrow> True)"

lemma grows_gc: "grows (gc_justifies K ngs claims)"
proof (rule growsI)
  fix xs ys e
  assume "set xs \<subseteq> set ys" "gc_justifies K ngs claims xs e"
  then show "gc_justifies K ngs claims ys e"
    by (cases e) (auto simp: gc_justifies_def)
qed

text \<open>Effects that need no justification.\<close>

fun harmless :: "effect \<Rightarrow> bool" where
  "harmless (DeletedNG n d) = False"
| "harmless (DeletedClaim c p d) = False"
| "harmless (CreatedNG ng r) = False"
| "harmless (PatchedNG a b r) = False"
| "harmless (PatchedClass a b r) = False"
| "harmless (PatchedClassStatus a b r) = False"
| "harmless (PatchedNode a b r) = False"
| "harmless _ = True"

lemma harmless_gc: "harmless e \<Longrightarrow> gc_justifies K ngs claims xs e"
  by (cases e) (simp_all add: gc_justifies_def)

lemma only_harmless: "only harmless s s' \<Longrightarrow> guarded (gc_justifies K ngs claims) s s'"
  by (erule only_guarded) (rule harmless_gc)

lemma harmless_events [simp]: "harmless (groupEvent w r ng a d)" "harmless (claimEvent w r c a)"
  by (simp_all add: groupEvent_def claimEvent_def)

lemma only_refuse: "refuse ng msg gc s = (gc', s') \<Longrightarrow> only harmless s s'"
  by (auto simp: refuse_def split: if_splits intro!: only_intros)

lemma only_warnResize: "warnResize ng gc s = (gc', s') \<Longrightarrow> only harmless s s'"
  by (auto simp: warnResize_def Let_def split: if_splits intro!: only_intros)

lemma only_resize_check: "resize_check ng (sw, s) = (sw', s') \<Longrightarrow> only harmless s s'"
  by (auto simp: resize_check_def split: if_splits prod.splits intro: only_warnResize)

lemma only_refuse_group: "refuse_group ng msg (sw, s) = (sw', s') \<Longrightarrow> only harmless s s'"
  by (auto simp: refuse_group_def split: prod.splits intro: only_refuse)

lemma only_fold:
  assumes "\<And>x a s a' s'. x \<in> set xs \<Longrightarrow> f x (a, s) = (a', s') \<Longrightarrow> only P s s'"
    and "fold f xs (a, s) = (a', s')"
  shows "only P s s'"
  using assms
proof (induction xs arbitrary: a s)
  case (Cons x xs)
  obtain b t where b: "f x (a, s) = (b, t)" by (cases "f x (a, s)")
  have "only P s t" by (rule Cons.prems(1) [OF _ b]) simp
  moreover have "only P t s'"
    using Cons.prems(2) b by (intro Cons.IH [of b t]) (auto intro: Cons.prems(1))
  ultimately show ?case by (rule only_trans)
qed simp

fun observing :: "effect \<Rightarrow> bool" where
  "observing (Publish e) = True"
| "observing (Logged m n) = True"
| "observing (SetGauge g v) = True"
| "observing _ = False"

lemma observing_event [simp]: "observing (groupEvent w r ng a d)"
  by (simp add: groupEvent_def)

lemma only_overdue_step: "overdue_step clock before ng (o1, s) = (o2, s') \<Longrightarrow> only observing s s'"
  by (cases "deletionOperatorState ng")
    (auto simp: overdue_step_def Let_def split: if_splits option.splits intro!: only_intros)

lemma only_reportOverdue:
  assumes "reportOverdueDeletions ngs clock gc s = (gc', s')"
  shows "only observing s s'"
proof -
  obtain o1 t where f: "fold (overdue_step clock (gcDeletionWarned gc)) ngs ([], s) = (o1, t)"
    by (meson surj_pair)
  have "only observing s t" by (rule only_fold [OF _ f]) (rule only_overdue_step)
  then show ?thesis using assms f by (auto simp: reportOverdueDeletions_def intro!: only_intros)
qed

lemma observing_harmless: "observing e \<Longrightarrow> harmless e"
  by (cases e) simp_all

lemma any_alive:
  assumes "anyClaimAliveUncached E K checked ns s = (r, s')"
  shows "\<exists>es. trace s' = trace s @ es \<and> list_all harmless es \<and>
    (r = Inr False \<longrightarrow> (\<forall>n \<in> set ns. n \<in> set checked \<or> ReadClaim Uncached n (Inl NotFound) \<in> set es))"
  using assms
proof (induction E K checked ns s arbitrary: r s' rule: anyClaimAliveUncached.induct)
  case (2 E K checked n ns s)
  show ?case
  proof (cases "n \<in> set checked")
    case True
    then show ?thesis using 2(1) [OF True] 2(3) by auto
  next
    case False
    obtain x s1 where x: "getClaim K (peCatalogue E) Uncached n s = (x, s1)"
      by (cases "getClaim K (peCatalogue E) Uncached n s")
    have t: "trace s1 = trace s @ [ReadClaim Uncached n x]"
      using x by (auto simp: getClaim_def dest: trace_call)
    show ?thesis
    proof (cases "x = Inl NotFound")
      case True
      then have "anyClaimAliveUncached E K (n # checked) ns s1 = (r, s')" using 2(3) False x by simp
      from 2(2) [OF False x [symmetric] True _ this] obtain es where es: "trace s' = trace s1 @ es" "list_all harmless es"
        "r = Inr False \<longrightarrow> (\<forall>m \<in> set ns. m \<in> set (n # checked) \<or> ReadClaim Uncached m (Inl NotFound) \<in> set es)"
        by auto
      then show ?thesis
        using t True by (intro exI [of _ "ReadClaim Uncached n x # es"]) auto
    next
      case ne: False
      then show ?thesis using 2(3) False x t
        by (auto split: sum.splits if_splits)
    qed
  qed
qed simp

lemma guarded_reap_group:
  assumes "reap_group E K (NodeClaimOwners ng) ng (sw, s) = (sw', s')"
    and "ng \<in> set ngs" "orphan claims ng" "omCreated (ngMeta ng) + minAge \<le> kNow K w"
  shows "guarded (gc_justifies K ngs claims) s s'"
proof -
  obtain r s1 where a: "anyClaimAliveUncached E K [] (claimNameOf ng # NodeClaimOwners ng) s = (r, s1)"
    by (meson surj_pair)
  from any_alive [OF a] obtain es where es: "trace s1 = trace s @ es" "list_all harmless es"
    "r = Inr False \<longrightarrow> (\<forall>n \<in> set (claimNameOf ng # NodeClaimOwners ng). ReadClaim Uncached n (Inl NotFound) \<in> set es)"
    by auto
  have g1: "guarded (gc_justifies K ngs claims) s s1"
    using es by (intro only_harmless) (auto simp: only_def)
  show ?thesis
  proof (cases "r = Inr False")
    case False
    then have "s' = s1" using assms(1) a by (auto simp: reap_group_def split: sum.splits if_splits)
    with g1 show ?thesis by simp
  next
    case True
    obtain d s2 where d: "DeleteNodeGroup E K ng s1 = (d, s2)" by (meson surj_pair)
    then have t2: "trace s2 = trace s1 @ [DeletedNG (ngName ng) d]"
      by (auto simp: DeleteNodeGroup_def deleteNG_def Let_def split: prod.splits option.splits if_splits dest!: trace_call)
    have "gc_justifies K ngs claims es (DeletedNG (ngName ng) d)"
      using assms(2-4) es(3) True by (auto simp: gc_justifies_def)
    moreover have "justified (gc_justifies K ngs claims) es"
      using es(2) by (auto simp: justified_def intro: harmless_gc)
    ultimately have g2: "guarded (gc_justifies K ngs claims) s s2"
      unfolding guarded_def using t2 es(1) by (intro exI [of _ "es @ [DeletedNG (ngName ng) d]"]) (simp add: justified_snoc)
    have "only harmless s2 s'"
      using assms(1) a d True
      by (auto simp: reap_group_def split: option.splits if_splits intro!: only_intros)
    then show ?thesis using g2 guarded_trans [OF grows_gc] only_harmless by blast
  qed
qed

lemma guarded_sweep_step:
  assumes "sweep_step E K (map ncName claims) ng (sw, s) = (sw', s')" and "ng \<in> set ngs"
  shows "guarded (gc_justifies K ngs claims) s s'"
proof (cases "ngTerminating ng")
  case True
  then show ?thesis using assms(1) by (simp add: sweep_step_def)
next
  case False
  obtain sw1 s1 where r: "resize_check ng (sw, s) = (sw1, s1)" by (meson surj_pair)
  have g: "guarded (gc_justifies K ngs claims) s s1" by (rule only_harmless [OF only_resize_check [OF r]])
  have run: "(if now K s1 - omCreated (ngMeta ng) < minAge then (sw1, s1)
        else if claimNameOf ng \<in> set (map ncName claims) then (sw1, s1)
        else if NodeClaimOwners ng = [] then refuse_group ng unowned_msg (sw1, s1)
        else if ownerAlive (NodeClaimOwners ng) (map ncName claims) then refuse_group ng mislabelled_msg (sw1, s1)
        else reap_group E K (NodeClaimOwners ng) ng (sw1, s1)) = (sw', s')"
    using assms(1) False unfolding sweep_step_def Let_def r by simp
  have "guarded (gc_justifies K ngs claims) s1 s'"
  proof (cases "\<not> now K s1 - omCreated (ngMeta ng) < minAge \<and> claimNameOf ng \<notin> ncName ` set claims \<and>
      NodeClaimOwners ng \<noteq> [] \<and> \<not> ownerAlive (NodeClaimOwners ng) (map ncName claims)")
    case True
    then have "orphan claims ng" using False by (auto simp: orphan_def ownerAlive_def)
    moreover have "omCreated (ngMeta ng) + minAge \<le> kNow K (world s1)" using True by (simp add: now_def)
    moreover have "reap_group E K (NodeClaimOwners ng) ng (sw1, s1) = (sw', s')" using run True by simp
    ultimately show ?thesis
      using assms(2) guarded_reap_group [of E K ng sw1 s1 sw' s' ngs claims "world s1"] by simp
  next
    case False
    then show ?thesis
      using run by (auto split: if_splits dest!: only_refuse_group only_harmless)
  qed
  with g show ?thesis by (rule guarded_trans [OF grows_gc])
qed

lemma guarded_vanish_step:
  assumes "vanish_step E K names claim (errs, s) = (errs', s')" and "claim \<in> set claims"
  shows "guarded (gc_justifies K ngs claims) s s'"
proof (cases "vanished claim \<and> \<not> now K s - omCreated (ncMeta claim) < minAge \<and> groupOfClaim claim \<notin> set names")
  case False
  then show ?thesis
    using assms(1) by (auto simp: vanish_step_def vanished_def Let_def split: if_splits)
next
  case True
  then have v: "vanished claim" "isOurs claim" "\<not> ncTerminating claim"
    "IsTrue (ncConditions claim) ConditionTypeLaunched"
    "\<not> IsTrue (ncConditions claim) ConditionTypeRegistered" "groupOfClaim claim \<notin> set names"
    "\<not> now K s - omCreated (ncMeta claim) < minAge"
    by (simp_all add: vanished_def)
  obtain r s1 where r: "getNG K (peCatalogue E) Uncached (groupOfClaim claim) s = (r, s1)" by (meson surj_pair)
  obtain d s2 where d: "deleteClaim K (peCatalogue E) claim None s1 = (d, s2)" by (meson surj_pair)
  have t1: "trace s1 = trace s @ [ReadNG Uncached (groupOfClaim claim) r]"
    using r by (auto simp: getNG_def dest: trace_call)
  have t2: "trace s2 = trace s1 @ [DeletedClaim claim None d]"
    using d by (auto simp: deleteClaim_def dest: trace_call)
  have g1: "guarded (gc_justifies K ngs claims) s s1"
    using t1 by (intro only_harmless) (auto simp: only_def)
  show ?thesis
  proof (cases "r = Inl NotFound")
    case False
    then have "s' = s1" using assms(1) v r by (auto simp: vanish_step_def Let_def split: sum.splits if_splits)
    with g1 show ?thesis by simp
  next
    case nf: True
    have "gc_justifies K ngs claims [ReadNG Uncached (groupOfClaim claim) r] (DeletedClaim claim None d)"
      using assms(2) v nf
      by (auto simp: gc_justifies_def now_def not_less algebra_simps intro!: exI [of _ "world s"])
    moreover have "justified (gc_justifies K ngs claims) [ReadNG Uncached (groupOfClaim claim) r]"
      by (rule justified_snoc [of _ "[]", simplified]) (simp_all add: gc_justifies_def)
    ultimately have "justified (gc_justifies K ngs claims)
        ([ReadNG Uncached (groupOfClaim claim) r] @ [DeletedClaim claim None d])"
      by (rule justified_snoc [rotated])
    then have g2: "guarded (gc_justifies K ngs claims) s s2"
      using t1 t2 by (auto simp: guarded_def)
    have "only harmless s2 s'"
      using assms(1) v r d nf
      by (auto simp: vanish_step_def Let_def split: option.splits if_splits intro!: only_intros)
    then show ?thesis using g2 guarded_trans [OF grows_gc] only_harmless by blast
  qed
qed

lemma guarded_reapVanished:
  assumes "reapVanishedNodeClaims E K claims s = (errs, s')"
  shows "guarded (gc_justifies K ngs claims) s s'"
proof -
  obtain r s1 where r: "listNG K (peCatalogue E) [] s = (r, s1)" by (meson surj_pair)
  have "only harmless s s1"
    using r by (auto simp: listNG_def dest!: only_call [where P = harmless and s = s])
  then have g: "guarded (gc_justifies K ngs claims) s s1" by (rule only_harmless)
  show ?thesis
  proof (cases r)
    case (Inl e)
    then show ?thesis using assms r g by (simp add: reapVanishedNodeClaims_def)
  next
    case (Inr all)
    then have f: "fold (vanish_step E K (map ngName all)) claims ([], s1) = (errs, s')"
      using assms r by (simp add: reapVanishedNodeClaims_def)
    have "guarded (gc_justifies K ngs claims) s1 s'"
      by (rule guarded_fold [OF grows_gc _ f]) (rule guarded_vanish_step)
    with g show ?thesis by (rule guarded_trans [OF grows_gc])
  qed
qed

text \<open>
  The whole sweep: it read the managed groups and the claims, and everything it did is justified by
  them and by what it read before doing it.
\<close>

lemma gc_Reconcile_order:
  assumes "gc_Reconcile E K gc s = (res, gc', s')"
  shows "only harmless s s' \<or> (\<exists>ngs claims xs es.
    trace s' = trace s @ ListedNG [(ManagedLabelKey, ''true'')] (Inr ngs) # xs @ ListedClaims (Inr claims) # es \<and>
    list_all harmless xs \<and> justified (gc_justifies K ngs claims) es)"
proof -
  obtain l s1 where l: "ListNodeGroups E K s = (l, s1)" by (meson surj_pair)
  have t1: "trace s1 = trace s @ [ListedNG [(ManagedLabelKey, ''true'')] l]"
    using l by (auto simp: ListNodeGroups_def listNG_def dest: trace_call)
  show ?thesis
  proof (cases l)
    case (Inl e)
    then have "s' = s1" using assms l by (simp add: gc_Reconcile_def)
    then have "only harmless s s'" using t1 by (auto simp: only_def)
    then show ?thesis ..
  next
    case (Inr ngs)
    obtain gc1 s2 where o: "reportOverdueDeletions ngs (now K s1) gc s1 = (gc1, s2)" by (meson surj_pair)
    obtain c s3 where c: "listClaims K (peCatalogue E) s2 = (c, s3)" by (meson surj_pair)
    have o1: "only harmless s1 s2" using only_mono [OF only_reportOverdue [OF o]] observing_harmless by blast
    have t3: "trace s3 = trace s2 @ [ListedClaims c]" using c by (auto simp: listClaims_def dest: trace_call)
    have o3: "only harmless s s3"
      using t1 t3 o1 by (auto simp: only_def)
    show ?thesis
    proof (cases c)
      case (Inl e)
      then have "s' = s3" using assms l Inr o c by (simp add: gc_Reconcile_def)
      with o3 show ?thesis by simp
    next
      case claims: (Inr claims)
      obtain errs s4 where v: "reapVanishedNodeClaims E K claims s3 = (errs, s4)" by (meson surj_pair)
      obtain sw s5 where f: "fold (sweep_step E K (map ncName claims)) ngs
          (\<lparr>swRefused = 0, swResized = 0, swErrs = errs, swState = gc1\<rparr>, s4) = (sw, s5)"
        by (meson surj_pair)
      have s': "s' = emit (SetGauge GCRefusedNodeGroups (of_nat (swRefused sw)))
          (emit (SetGauge NodeGroupExternalResizes (of_nat (swResized sw))) s5)"
        using assms unfolding gc_Reconcile_def l Inr prod.case sum.case o Let_def c claims v f by simp
      have g4: "guarded (gc_justifies K ngs claims) s3 s5"
        by (rule guarded_trans [OF grows_gc guarded_reapVanished [OF v] guarded_fold [OF grows_gc _ f]]) (rule guarded_sweep_step)
      have "only harmless s5 s'" unfolding s' by (intro only_intros) simp_all
      with g4 have "guarded (gc_justifies K ngs claims) s3 s'" by (blast intro: guarded_trans [OF grows_gc] only_harmless)
      then obtain es where es: "trace s' = trace s3 @ es" "justified (gc_justifies K ngs claims) es" by (auto simp: guarded_def)
      obtain xs where "trace s2 = trace s1 @ xs" "list_all harmless xs" using o1 by (auto simp: only_def)
      then show ?thesis using t1 t3 es by (intro disjI2 exI [of _ ngs] exI [of _ claims]) (auto simp: Inr claims)
    qed
  qed
qed

lemma gc_Reconcile_guarded:
  assumes "gc_Reconcile E K gc s = (res, gc', s')"
  shows "only harmless s s' \<or> (\<exists>ngs claims.
    ListedNG [(ManagedLabelKey, ''true'')] (Inr ngs) \<in> set (did s s') \<and>
    ListedClaims (Inr claims) \<in> set (did s s') \<and>
    guarded (gc_justifies K ngs claims) s s')"
  using gc_Reconcile_order [OF assms]
proof (elim disjE exE conjE)
  fix ngs claims xs es
  let ?lists = "ListedNG [(ManagedLabelKey, ''true'')] (Inr ngs) # xs @ [ListedClaims (Inr claims)]"
  assume t: "trace s' = trace s @ ListedNG [(ManagedLabelKey, ''true'')] (Inr ngs) # xs @ ListedClaims (Inr claims) # es"
    and "list_all harmless xs" and es: "justified (gc_justifies K ngs claims) es"
  then have "justified (gc_justifies K ngs claims) ?lists"
    by (intro justified_always) (auto simp: list_all_iff intro: harmless_gc)
  from justified_append [OF grows_gc this es] t show ?thesis by (auto simp: guarded_def did_def)
qed simp

lemma did_split: "e \<in> set (did s s') \<Longrightarrow> \<exists>xs ys. did s s' = xs @ e # ys"
  by (rule split_list)

text \<open>
  C5. The garbage collector destroys only confirmed orphans. Before it deletes a NodeGroup it has
  listed it as managed, and it is not terminating, is at least two minutes old and carries a
  NodeClaim owner reference; and for the name its label gives and for every owner reference, the
  claims listed in the same sweep do not contain that name and an uncached read before the DELETE
  found no such claim.
\<close>

theorem gc_deletes_only_confirmed_orphans:
  assumes "gc_Reconcile E K gc s = (res, gc', s')" and "did s s' = xs @ DeletedNG n d # ys"
  shows "\<exists>ngs claims ng.
    ListedNG [(ManagedLabelKey, ''true'')] (Inr ngs) \<in> set (did s s') \<and>
    ListedClaims (Inr claims) \<in> set (did s s') \<and>
    ng \<in> set ngs \<and> ngName ng = n \<and> \<not> ngTerminating ng \<and> NodeClaimOwners ng \<noteq> [] \<and>
    (\<exists>w. omCreated (ngMeta ng) + minAge \<le> kNow K w) \<and>
    (\<forall>x \<in> set (claimNameOf ng # NodeClaimOwners ng).
       x \<notin> ncName ` set claims \<and> ReadClaim Uncached x (Inl NotFound) \<in> set xs)"
  using gc_Reconcile_guarded [OF assms(1)]
proof
  assume "only harmless s s'"
  then have "harmless (DeletedNG n d)" by (rule only_did) (simp add: assms(2))
  then show ?thesis by simp
next
  assume "\<exists>ngs claims. ListedNG [(ManagedLabelKey, ''true'')] (Inr ngs) \<in> set (did s s') \<and>
    ListedClaims (Inr claims) \<in> set (did s s') \<and> guarded (gc_justifies K ngs claims) s s'"
  then obtain ngs claims where l: "ListedNG [(ManagedLabelKey, ''true'')] (Inr ngs) \<in> set (did s s')"
      "ListedClaims (Inr claims) \<in> set (did s s')" and g: "guarded (gc_justifies K ngs claims) s s'"
    by blast
  from guarded_did [OF g assms(2)] obtain ng where ng: "ng \<in> set ngs" "ngName ng = n" "orphan claims ng"
      "\<exists>w. omCreated (ngMeta ng) + minAge \<le> kNow K w"
      "\<forall>x \<in> set (claimNameOf ng # NodeClaimOwners ng). ReadClaim Uncached x (Inl NotFound) \<in> set xs"
    by (auto simp: gc_justifies_def)
  then have "\<not> ngTerminating ng" "NodeClaimOwners ng \<noteq> []"
      "\<forall>x \<in> set (claimNameOf ng # NodeClaimOwners ng). x \<notin> ncName ` set claims"
    by (simp_all add: orphan_def)
  with l ng show ?thesis by blast
qed

text \<open>
  C17. Only launches whose group is really gone are written off. The collector deletes a NodeClaim only
  if it is this provider's, not terminating, launched, not registered and at least two minutes old,
  and an uncached read before the DELETE found no group under the name its provider ID gives, or
  its own name when it has none.
\<close>

theorem gc_fails_only_vanished_claims:
  assumes "gc_Reconcile E K gc s = (res, gc', s')" and "did s s' = xs @ DeletedClaim c pre d # ys"
  shows "isOurs c \<and> \<not> ncTerminating c \<and> IsTrue (ncConditions c) ConditionTypeLaunched \<and>
    \<not> IsTrue (ncConditions c) ConditionTypeRegistered \<and>
    (\<exists>w. omCreated (ncMeta c) + minAge \<le> kNow K w) \<and>
    (\<exists>claims. ListedClaims (Inr claims) \<in> set (did s s') \<and> c \<in> set claims) \<and>
    (\<exists>n. ReadNG Uncached n (Inl NotFound) \<in> set xs \<and>
       (ncProviderID c = ProviderID n \<and> n \<noteq> '''' \<or> ParseProviderID (ncProviderID c) = None \<and> n = ncName c))"
  using gc_Reconcile_guarded [OF assms(1)]
proof
  assume "only harmless s s'"
  then have "harmless (DeletedClaim c pre d)" by (rule only_did) (simp add: assms(2))
  then show ?thesis by simp
next
  assume "\<exists>ngs claims. ListedNG [(ManagedLabelKey, ''true'')] (Inr ngs) \<in> set (did s s') \<and>
    ListedClaims (Inr claims) \<in> set (did s s') \<and> guarded (gc_justifies K ngs claims) s s'"
  then obtain ngs claims where l: "ListedClaims (Inr claims) \<in> set (did s s')"
    and g: "guarded (gc_justifies K ngs claims) s s'" by blast
  from guarded_did [OF g assms(2)]
  have c: "c \<in> set claims" "vanished c" "\<exists>w. omCreated (ncMeta c) + minAge \<le> kNow K w"
    "ReadNG Uncached (groupOfClaim c) (Inl NotFound) \<in> set xs"
    by (simp_all add: gc_justifies_def)
  have "ncProviderID c = ProviderID (groupOfClaim c) \<and> groupOfClaim c \<noteq> '''' \<or>
      ParseProviderID (ncProviderID c) = None \<and> groupOfClaim c = ncName c"
    by (cases "ParseProviderID (ncProviderID c)")
       (auto simp: groupOfClaim_def dest: iffD1 [OF ParseProviderID_Some])
  with c l show ?thesis unfolding vanished_def by blast
qed

section \<open>What the sweep gets done\<close>

text \<open>Any element of a list gets its step in a fold, and no later step takes its effects back.\<close>

lemma fold_emits:
  assumes "x \<in> set xs"
    and "\<And>y a s a' s'. f y (a, s) = (a', s') \<Longrightarrow> extends s s'"
    and "\<And>a s a' s'. f x (a, s) = (a', s') \<Longrightarrow> \<exists>d. e d \<in> set (did s s')"
    and "fold f xs (a, s) = (a', s')"
  shows "\<exists>d. e d \<in> set (did s s')"
  using assms(1,4)
proof (induction xs arbitrary: a s)
  case (Cons y ys)
  obtain b t where b: "f y (a, s) = (b, t)" by (meson surj_pair)
  have ext: "extends s t" "extends t s'"
  proof -
    show "extends s t" using b by (rule assms(2))
    have "extends t u" if "fold f zs (b, t) = (c, u)" for zs b t c u
      using that
    proof (induction zs arbitrary: b t)
      case (Cons z zs)
      obtain b1 t1 where z: "f z (b, t) = (b1, t1)" by (meson surj_pair)
      have "extends t t1" using z by (rule assms(2))
      moreover have "extends t1 u" using Cons z by simp
      ultimately show ?case by (rule extends_trans)
    qed simp
    then show "extends t s'" using Cons.prems(2) b by simp
  qed
  have fold: "fold f ys (b, t) = (a', s')" using Cons.prems(2) b by simp
  show ?case
  proof (cases "y = x")
    case True
    then show ?thesis using assms(3) [of a s b t] b did_trans [OF ext] by auto
  next
    case False
    then have "\<exists>d. e d \<in> set (did t s')" using Cons.IH [OF _ fold] Cons.prems(1) by auto
    then show ?thesis using did_trans [OF ext] by auto
  qed
qed simp

lemma guarded_extends: "guarded J s s' \<Longrightarrow> extends s s'"
  by (auto simp: guarded_def extends_def)

lemma any_alive_absent:
  assumes "\<And>x w. x \<in> set ns \<Longrightarrow> fst (kGetClaim K Uncached x w) = Inl NotFound"
  shows "fst (anyClaimAliveUncached E K checked ns s) = Inr False"
  using assms
proof (induction ns arbitrary: checked s)
  case (Cons n ns)
  have g: "fst (getClaim K cat Uncached n s) = Inl NotFound" for cat
    using Cons.prems [of n "world s"] by (auto simp: getClaim_def call_def Let_def split: prod.splits)
  show ?case
  proof (cases "n \<in> set checked")
    case True
    then show ?thesis using Cons by simp
  next
    case False
    then show ?thesis
      using g [of "peCatalogue E"] Cons by (cases "getClaim K (peCatalogue E) Uncached n s") simp
  qed
qed simp

lemma reap_group_deletes:
  assumes "reap_group E K (NodeClaimOwners ng) ng (sw, s) = (sw', s')"
    and "\<And>x w. x \<in> set (claimNameOf ng # NodeClaimOwners ng) \<Longrightarrow> fst (kGetClaim K Uncached x w) = Inl NotFound"
  shows "\<exists>d. DeletedNG (ngName ng) d \<in> set (did s s')"
proof -
  obtain r s1 where a: "anyClaimAliveUncached E K [] (claimNameOf ng # NodeClaimOwners ng) s = (r, s1)"
    by (meson surj_pair)
  have r: "r = Inr False"
    using any_alive_absent [of "claimNameOf ng # NodeClaimOwners ng" K E "[]" s, OF assms(2)] a by simp
  obtain es where es: "trace s1 = trace s @ es" using any_alive [OF a] by blast
  obtain d s2 where d: "DeleteNodeGroup E K ng s1 = (d, s2)" by (meson surj_pair)
  then have "trace s2 = trace s1 @ [DeletedNG (ngName ng) d]"
    by (auto simp: DeleteNodeGroup_def deleteNG_def Let_def split: prod.splits option.splits if_splits dest!: trace_call)
  moreover have "\<exists>zs. trace s' = trace s2 @ zs"
    using assms(1) unfolding reap_group_def Let_def prod.case a r sum.case d by (auto split: option.splits if_splits)
  ultimately show ?thesis using es by (auto simp: did_def)
qed

lemma overdue_step_keeps:
  "overdue_step clock before ng (o1, s) = (o2, s') \<Longrightarrow> world s' = world s \<and> refs s' = refs s"
  by (cases "deletionOperatorState ng")
    (auto simp: overdue_step_def Let_def split: if_splits option.splits)

lemma overdue_fold_keeps:
  "fold (overdue_step clock before) ngs (o1, s) = (o2, s') \<Longrightarrow> world s' = world s \<and> refs s' = refs s"
proof (induction ngs arbitrary: o1 s)
  case (Cons ng ngs)
  obtain o3 t where t: "overdue_step clock before ng (o1, s) = (o3, t)" by (meson surj_pair)
  then show ?case using Cons overdue_step_keeps [OF t] by auto
qed simp

lemma overdue_keeps:
  assumes "reportOverdueDeletions ngs clock gc s = (gc', s')"
  shows "world s' = world s" "refs s' = refs s"
  using assms by (auto simp: reportOverdueDeletions_def split: prod.splits dest!: overdue_fold_keeps)

lemma sweep_step_deletes:
  assumes "sweep_step E K (map ncName claims) ng (sw, t) = (sw', u)" and "ng \<in> set ngs" and "orphan claims ng"
    and "\<forall>w. omCreated (ngMeta ng) + minAge \<le> kNow K w"
    and "\<forall>x \<in> set (claimNameOf ng # NodeClaimOwners ng). \<forall>w. fst (kGetClaim K Uncached x w) = Inl NotFound"
  shows "\<exists>d. DeletedNG (ngName ng) d \<in> set (did t u)"
proof -
  obtain sw1 t1 where r: "resize_check ng (sw, t) = (sw1, t1)" by (meson surj_pair)
  have "\<not> ngTerminating ng" "NodeClaimOwners ng \<noteq> []" "claimNameOf ng \<notin> set (map ncName claims)"
    "\<not> ownerAlive (NodeClaimOwners ng) (map ncName claims)"
    using assms(3) by (auto simp: orphan_def ownerAlive_def)
  moreover have "\<not> now K t1 - omCreated (ngMeta ng) < minAge" using assms(4) by (simp add: now_def not_less algebra_simps)
  ultimately have reap: "reap_group E K (NodeClaimOwners ng) ng (sw1, t1) = (sw', u)"
    using assms(1) unfolding sweep_step_def Let_def r by simp
  have "extends t t1" by (rule only_extends [OF only_resize_check [OF r]])
  moreover have "extends t1 u"
    by (rule guarded_extends [OF guarded_reap_group [OF reap assms(2,3)]]) (use assms(4) in blast)
  ultimately have "did t u = did t t1 @ did t1 u" by (rule did_trans)
  then show ?thesis using reap_group_deletes [OF reap] assms(5) by auto
qed

text \<open>
  C38. The garbage collector reaches every orphan. In any sweep whose two lists succeed, a listed group
  that is orphaned, at least two minutes old (\<open>minAge\<close>; younger ones are left to the next sweeps), and whose
  claims the API server reports gone gets its DELETE, whatever happened to the other groups and claims
  of the sweep: no stuck object shields another.
\<close>

theorem gc_reaches_every_orphan:
  assumes "gc_Reconcile E K gc s = (res, gc', s')"
    and "kListNG K [(ManagedLabelKey, ''true'')] (world s) = (Inr ngs, w1)"
    and "kListClaims K w1 = (Inr claims, w2)"
    and "ng \<in> set ngs" and "orphan claims ng"
    and "\<forall>w. omCreated (ngMeta ng) + minAge \<le> kNow K w"
    and "\<forall>x \<in> set (claimNameOf ng # NodeClaimOwners ng). \<forall>w. fst (kGetClaim K Uncached x w) = Inl NotFound"
  shows "\<exists>d. DeletedNG (ngName ng) d \<in> set (did s s')"
proof -
  obtain s1 where l: "ListNodeGroups E K s = (Inr ngs, s1)" "world s1 = w1"
    using assms(2) by (auto simp: ListNodeGroups_def listNG_def call_def returned_def Let_def)
  obtain gc1 s2 where o: "reportOverdueDeletions ngs (now K s1) gc s1 = (gc1, s2)" by (meson surj_pair)
  have w: "world s2 = w1" using overdue_keeps(1) [OF o] l(2) by simp
  obtain s3 where c: "listClaims K (peCatalogue E) s2 = (Inr claims, s3)"
    using assms(3) w by (auto simp: listClaims_def call_def Let_def)
  obtain errs s4 where v: "reapVanishedNodeClaims E K claims s3 = (errs, s4)" by (meson surj_pair)
  obtain sw s5 where f: "fold (sweep_step E K (map ncName claims)) ngs
      (\<lparr>swRefused = 0, swResized = 0, swErrs = errs, swState = gc1\<rparr>, s4) = (sw, s5)"
    by (meson surj_pair)
  have s': "s' = emit (SetGauge GCRefusedNodeGroups (of_nat (swRefused sw)))
      (emit (SetGauge NodeGroupExternalResizes (of_nat (swResized sw))) s5)"
    using assms(1) unfolding gc_Reconcile_def l prod.case sum.case o Let_def c v f by simp
  have "\<exists>d. DeletedNG (ngName ng) d \<in> set (did s4 s5)"
    by (rule fold_emits [OF assms(4) _ sweep_step_deletes [OF _ assms(4-7)] f])
       (rule guarded_extends [OF guarded_sweep_step [OF _ list.set_intros(1)]])
  moreover have "extends s s4"
  proof -
    have "extends s s1" using l(1) by (auto simp: ListNodeGroups_def listNG_def extends_def dest: trace_call)
    moreover have "extends s1 s2" by (rule only_extends [OF only_reportOverdue [OF o]])
    moreover have "extends s2 s3" using c by (auto simp: listClaims_def extends_def dest: trace_call)
    moreover have "extends s3 s4" by (rule guarded_extends [OF guarded_reapVanished [OF v]])
    ultimately show ?thesis using extends_trans by metis
  qed
  moreover have "extends s4 s5"
    by (rule guarded_extends [OF guarded_fold [OF grows_gc _ f]]) (rule guarded_sweep_step)
  moreover have "extends s5 s'" unfolding s' by (rule only_extends [where P = "\<lambda>_. True"]) (intro only_intros TrueI)
  ultimately show ?thesis
    using did_trans [of s s4 s'] did_trans [of s4 s5 s'] extends_trans [of s4 s5 s'] by auto
qed

section \<open>The report of overdue deletions\<close>

text \<open>The effects of the pass for one overdue group, and the map it leaves.\<close>

definition overdue_effects :: "time \<Rightarrow> (name \<times> string) list \<Rightarrow> nodegroup \<Rightarrow> effect list" where
  "overdue_effects clock before ng =
     (if isOverdue clock ng
      then (if map_of before (ngName ng) = Some (ngUID ng) then [] else [Logged ''overdue'' (ngName ng)]) @
        [groupEvent True ''NodeGroupDeletionOverdue'' ng
           [ngName ng,
            show_seconds (nat (case omDeleted (ngMeta ng) of Some t \<Rightarrow> (clock - t) div second | None \<Rightarrow> 0)),
            show_duration deletionOverdueAfter, fst (deletionOperatorState ng), snd (deletionOperatorState ng),
            join '' '' (omFinalizers (ngMeta ng)), overdueAction ng, ngName ng]
           [ngName ng, ngUID ng]]
      else [])"

lemma overdue_step_eq:
  "overdue_step clock before ng (o1, s) =
     (if isOverdue clock ng then AList.update (ngName ng) (ngUID ng) o1 else o1,
      s\<lparr>trace := trace s @ overdue_effects clock before ng\<rparr>)"
  by (cases "deletionOperatorState ng")
    (auto simp: overdue_step_def overdue_effects_def emit_def Let_def split: option.splits)

lemma overdue_fold_eq:
  "fold (overdue_step clock before) ngs (o1, s) =
     (fold (\<lambda>ng. AList.update (ngName ng) (ngUID ng)) (filter (isOverdue clock) ngs) o1,
      s\<lparr>trace := trace s @ concat (map (overdue_effects clock before) ngs)\<rparr>)"
  by (induction ngs arbitrary: o1 s) (simp_all add: overdue_step_eq)

lemma update_new_length: "k \<notin> fst ` set al \<Longrightarrow> AList.update k v al = al @ [(k, v)]"
  by (induction al) auto

lemma fold_update_distinct:
  "distinct (map ngName ngs) \<Longrightarrow> ngName ` set ngs \<inter> fst ` set al = {} \<Longrightarrow>
   fold (\<lambda>ng. AList.update (ngName ng) (ngUID ng)) ngs al = al @ map (\<lambda>ng. (ngName ng, ngUID ng)) ngs"
proof (induction ngs arbitrary: al)
  case (Cons ng ngs)
  then have "AList.update (ngName ng) (ngUID ng) al = al @ [(ngName ng, ngUID ng)]"
    by (intro update_new_length) auto
  moreover have "fold (\<lambda>ng. AList.update (ngName ng) (ngUID ng)) ngs (al @ [(ngName ng, ngUID ng)]) =
      (al @ [(ngName ng, ngUID ng)]) @ map (\<lambda>ng. (ngName ng, ngUID ng)) ngs"
    using Cons.prems by (intro Cons.IH) auto
  ultimately show ?case by simp
qed simp

text \<open>
  The overdue report is exact and touches nothing. Over a list of groups with distinct names the
  pass publishes one warning event per group whose deletion was requested at least five minutes ago
  and none for any other, sets the gauge to their number, remembers exactly those groups by name
  and UID, and writes a log line for a group only if the previous pass did not already report that
  very object. It changes neither the world nor the memory of refusals.
\<close>

theorem overdue_report_is_exact:
  assumes "distinct (map ngName ngs)" and "reportOverdueDeletions ngs clock gc s = (gc', s')"
  shows "did s s' = concat (map (overdue_effects clock (gcDeletionWarned gc)) ngs) @
      [SetGauge NodeGroupDeletionOverdue (of_nat (length (filter (isOverdue clock) ngs)))] \<and>
    gcDeletionWarned gc' = map (\<lambda>ng. (ngName ng, ngUID ng)) (filter (isOverdue clock) ngs) \<and>
    gcWarned gc' = gcWarned gc \<and> world s' = world s \<and> refs s' = refs s \<and>
    (\<forall>n. Logged ''overdue'' n \<in> set (did s s') \<longleftrightarrow>
       (\<exists>ng \<in> set ngs. isOverdue clock ng \<and> ngName ng = n \<and> map_of (gcDeletionWarned gc) n \<noteq> Some (ngUID ng)))"
proof -
  let ?o = "map (\<lambda>ng. (ngName ng, ngUID ng)) (filter (isOverdue clock) ngs)"
  have "distinct (map ngName (filter (isOverdue clock) ngs))"
    using assms(1) by (induction ngs) auto
  then have f: "fold (overdue_step clock (gcDeletionWarned gc)) ngs ([], s) =
      (?o, s\<lparr>trace := trace s @ concat (map (overdue_effects clock (gcDeletionWarned gc)) ngs)\<rparr>)"
    by (simp add: overdue_fold_eq fold_update_distinct)
  have d: "did s s' = concat (map (overdue_effects clock (gcDeletionWarned gc)) ngs) @
      [SetGauge NodeGroupDeletionOverdue (of_nat (length (filter (isOverdue clock) ngs)))]"
    and gc': "gcDeletionWarned gc' = ?o" "gcWarned gc' = gcWarned gc"
    using assms(2) unfolding reportOverdueDeletions_def f by (auto simp: did_def)
  have "Logged ''overdue'' n \<in> set (overdue_effects clock before ng) \<longleftrightarrow>
      isOverdue clock ng \<and> ngName ng = n \<and> map_of before n \<noteq> Some (ngUID ng)" for n before ng
    by (auto simp: overdue_effects_def groupEvent_def)
  then have "Logged ''overdue'' n \<in> set (did s s') \<longleftrightarrow>
      (\<exists>ng \<in> set ngs. isOverdue clock ng \<and> ngName ng = n \<and> map_of (gcDeletionWarned gc) n \<noteq> Some (ngUID ng))" for n
    unfolding d by auto
  with d gc' overdue_keeps [OF assms(2)] show ?thesis by blast
qed

section \<open>An example sweep\<close>

text \<open>
  One managed group whose claim is gone, one claim whose group is gone, an API that accepts both
  deletions, ten minutes after both were created.
\<close>

definition lost_claim :: nodeclaim where
  "lost_claim = example_claim\<lparr>ncMeta := (ncMeta example_claim)\<lparr>omName := ''c2'', omUID := ''u2''\<rparr>,
     ncConditions := [ConditionTypeLaunched \<mapsto> \<lparr>cdStatus = ConditionTrue, cdReason = '''', cdMessage = ''''\<rparr>]\<rparr>"

definition orphan_world :: "unit kube" where
  "orphan_world = silent\<lparr>kNow := \<lambda>w. 10 * minute, kListNG := \<lambda>sel w. (Inr [example_group], w),
     kListClaims := \<lambda>w. (Inr [lost_claim], w), kGetClaim := \<lambda>rd n w. (Inl NotFound, w),
     kGetNG := \<lambda>rd n w. (Inl NotFound, w), kDeleteNG := \<lambda>n w. (None, w),
     kDeleteClaim := \<lambda>c p w. (None, w)\<rparr>"

lemma orphan_world_simps [simp]:
  "kNow orphan_world w = 10 * minute" "kListNG orphan_world sel w = (Inr [example_group], w)"
  "kListClaims orphan_world w = (Inr [lost_claim], w)" "kGetClaim orphan_world rd n w = (Inl NotFound, w)"
  "kGetNG orphan_world rd n w = (Inl NotFound, w)" "kDeleteNG orphan_world n w = (None, w)"
  "kDeleteClaim orphan_world c p w = (None, w)" "kOthers orphan_world w = []"
  by (simp_all add: orphan_world_def silent_def)

definition gc0 :: gc_state where
  "gc0 = \<lparr>gcWarned = [], gcDeletionWarned = []\<rparr>"

definition example_sweep :: "(gc_error list + duration) \<times> gc_state \<times> unit sys" where
  "example_sweep = gc_Reconcile example_env orphan_world gc0 (start ())"

lemma example_group_facts [simp]:
  "ngName example_group = ''c1''" "omCreated (ngMeta example_group) = 0"
  "nsNodeCount (ngSpec example_group) = 1" "claimNameOf example_group = ''c1''"
  "NodeClaimOwners example_group = [''c1'']" "omDeleted (ngMeta example_group) = None"
  "\<not> IsRefused example_group" "\<not> IsSynced example_group"
  by (simp_all add: example_group_def meta0_def claimNameOf_def valOf_def key_neqs NodeClaimOwners_def
      HasPrefix_def verdict_defs ng_consts status0_def Let_def)

lemma lost_claim_facts [simp]:
  "ncName lost_claim = ''c2''" "isOurs lost_claim" "omDeleted (ncMeta lost_claim) = None"
  "omCreated (ncMeta lost_claim) = 0" "IsTrue (ncConditions lost_claim) ConditionTypeLaunched"
  "\<not> IsTrue (ncConditions lost_claim) ConditionTypeRegistered" "groupOfClaim lost_claim = ''c2''"
  by (simp_all add: lost_claim_def example_claim_def meta0_def isOurs_def IsTrue_def groupOfClaim_def
      ConditionTypeLaunched_def ConditionTypeRegistered_def ParseProviderID_def TrimPrefix_def HasPrefix_def
      ProviderIDPrefix_def Let_def)

lemma example_sweep_did:
  "did (start ()) (snd (snd example_sweep)) =
     [ListedNG [(ManagedLabelKey, ''true'')] (Inr [example_group]),
      SetGauge NodeGroupDeletionOverdue 0, ListedClaims (Inr [lost_claim]), ListedNG [] (Inr [example_group]),
      ReadNG Uncached ''c2'' (Inl NotFound), DeletedClaim lost_claim None None, Count NodeGroupVanished,
      claimEvent True ''NodeGroupVanished'' lost_claim [],
      ReadClaim Uncached ''c1'' (Inl NotFound), DeletedNG ''c1'' None, Count GCReapedNodeGroups,
      groupEvent False ''GarbageCollected'' example_group [] [''c1''],
      SetGauge NodeGroupExternalResizes 0, SetGauge GCRefusedNodeGroups 0]"
  by (simp add: example_sweep_def gc_Reconcile_def ListNodeGroups_def reportOverdueDeletions_def overdue_step_def
      isOverdue_def reapVanishedNodeClaims_def vanish_step_def sweep_step_def resize_check_def ownerAlive_def
      reap_group_def DeleteNodeGroup_def run_defs did_def start_def gc0_def IgnoreNotFound_def dur_defs
      claimEvent_def groupEvent_def Let_def)

lemma example_sweep_run:
  "gc_Reconcile example_env orphan_world gc0 (start ()) =
     (fst example_sweep, fst (snd example_sweep), snd (snd example_sweep))"
  by (simp add: example_sweep_def)

theorem gc_deletes_only_confirmed_orphans_witness:
  "\<exists>ng claims. ngName ng = ''c1'' \<and> ListedClaims (Inr claims) \<in> set (did (start ()) (snd (snd example_sweep))) \<and>
     claimNameOf ng \<notin> ncName ` set claims"
proof -
  have "\<exists>xs ys. did (start ()) (snd (snd example_sweep)) = xs @ DeletedNG ''c1'' None # ys"
    unfolding example_sweep_did by (rule split_list) simp
  then obtain xs ys where d: "did (start ()) (snd (snd example_sweep)) = xs @ DeletedNG ''c1'' None # ys" by blast
  obtain claims ng where "ListedClaims (Inr claims) \<in> set (did (start ()) (snd (snd example_sweep)))"
      "ngName ng = ''c1''" "\<forall>x \<in> set (claimNameOf ng # NodeClaimOwners ng). x \<notin> ncName ` set claims"
    using gc_deletes_only_confirmed_orphans [OF example_sweep_run d] by blast
  then show ?thesis by auto
qed

theorem gc_fails_only_vanished_claims_witness:
  "isOurs lost_claim \<and> (\<exists>n. ReadNG Uncached n (Inl NotFound) \<in> set (did (start ()) (snd (snd example_sweep))))"
proof -
  have "\<exists>xs ys. did (start ()) (snd (snd example_sweep)) = xs @ DeletedClaim lost_claim None None # ys"
    unfolding example_sweep_did by (rule split_list) simp
  then obtain xs ys where d: "did (start ()) (snd (snd example_sweep)) = xs @ DeletedClaim lost_claim None None # ys"
    by blast
  obtain n where "ReadNG Uncached n (Inl NotFound) \<in> set xs" "isOurs lost_claim"
    using gc_fails_only_vanished_claims [OF example_sweep_run d] by blast
  then show ?thesis unfolding d by auto
qed

theorem gc_reaches_every_orphan_witness:
  "\<exists>d. DeletedNG ''c1'' d \<in> set (did (start ()) (snd (snd example_sweep)))"
proof -
  have "kListNG orphan_world [(ManagedLabelKey, ''true'')] (world (start ())) = (Inr [example_group], ())"
    "kListClaims orphan_world () = (Inr [lost_claim], ())" by simp_all
  moreover have "orphan [lost_claim] example_group" by (simp add: orphan_def)
  moreover have "\<forall>w. omCreated (ngMeta example_group) + minAge \<le> kNow orphan_world w" by (simp add: dur_defs)
  ultimately show ?thesis
    using gc_reaches_every_orphan [OF example_sweep_run, of "[example_group]" "()" "[lost_claim]" "()" example_group]
    by simp
qed

theorem overdue_report_is_exact_witness:
  "did (start ()) (snd (reportOverdueDeletions [example_group] (10 * minute) gc0 (start ()))) =
     [SetGauge NodeGroupDeletionOverdue 0]"
proof -
  let ?r = "reportOverdueDeletions [example_group] (10 * minute) gc0 (start ())"
  have "did (start ()) (snd ?r) = concat (map (overdue_effects (10 * minute) (gcDeletionWarned gc0)) [example_group]) @
      [SetGauge NodeGroupDeletionOverdue (of_nat (length (filter (isOverdue (10 * minute)) [example_group])))]"
    using overdue_report_is_exact [of "[example_group]" "10 * minute" gc0 "start ()" "fst ?r" "snd ?r"] by simp
  then show ?thesis by (simp add: overdue_effects_def isOverdue_def)
qed

end
