(* ===== verification/NodeGroupStatus.thy ===== *)
theory NodeGroupStatus
  imports GarbageCollection
begin

text \<open>
  \<^verbatim>\<open>src/pkg/controllers/nodegroupstatus/controller.go\<close>: follows a launched NodeGroup until it syncs,
  fails its launch when the operator refuses it late, and reports it when it stays unsynced. The two
  maps its mutex guards are lists without repetition; the controller runs one reconcile at a time,
  controller-runtime's default. Log lines the controller deduplicates are effects.
\<close>

section \<open>State\<close>

definition syncOverdueAfter :: duration where
  "syncOverdueAfter = 5 * minute"

definition conflictRetry :: duration where
  "conflictRetry = second"

declare syncOverdueAfter_def [dur_defs] conflictRetry_def [dur_defs]

record status_state =
  ssOverdue :: "name list"
  ssLogged :: "string list"

datatype status_error = StApi api_error | StDelete name api_error

text \<open>\<^verbatim>\<open>reconcile.Result\<close>: nothing, or the delay of the requeue.\<close>

type_synonym reconcile_result = "status_error + duration option"

section \<open>What is kept about a group\<close>

definition insert_name :: "string \<Rightarrow> string list \<Rightarrow> string list" where
  "insert_name n ns = (if n \<in> set ns then ns else n # ns)"

definition setOverdue :: "name \<Rightarrow> status_state \<times> 'w sys \<Rightarrow> status_state \<times> 'w sys" where
  "setOverdue n acc =
     (let (st, s) = acc; overdue = insert_name n (ssOverdue st)
      in (st\<lparr>ssOverdue := overdue\<rparr>, emit (SetGauge NodeGroupSyncOverdue (of_nat (length overdue))) s))"

definition forget :: "name \<Rightarrow> status_state \<times> 'w sys \<Rightarrow> status_state \<times> 'w sys" where
  "forget n acc =
     (let (st, s) = acc; overdue = removeAll n (ssOverdue st)
      in (\<lparr>ssOverdue = overdue,
           ssLogged = removeAll (''overdue/'' @ n) (removeAll (''transient/'' @ n) (ssLogged st))\<rparr>,
          emit (SetGauge NodeGroupSyncOverdue (of_nat (length overdue))) s))"

text \<open>\<open>firstLog\<close>: whether the key is logged for the first time, and the state that remembers it.\<close>

definition firstLog :: "string \<Rightarrow> status_state \<Rightarrow> bool \<times> status_state" where
  "firstLog key st =
     (if key \<in> set (ssLogged st) then (False, st) else (True, st\<lparr>ssLogged := key # ssLogged st\<rparr>))"

definition log_once :: "string \<Rightarrow> name \<Rightarrow> status_state \<times> 'w sys \<Rightarrow> status_state \<times> 'w sys" where
  "log_once kind n acc =
     (let (st, s) = acc; (first, st1) = firstLog (kind @ ''/'' @ n) st
      in (st1, if first then emit (Logged kind n) s else s))"

section \<open>The launch a group was created for\<close>

definition launchedNodeClaim ::
  "provider_env \<Rightarrow> 'w kube \<Rightarrow> reader \<Rightarrow> nodegroup \<Rightarrow> 'w sys \<Rightarrow> (api_error + nodeclaim option) \<times> 'w sys" where
  "launchedNodeClaim E K rd ng s =
     (if \<not> IsManaged ng \<or> ngTerminating ng \<or> ngName ng \<notin> set (NodeClaimOwners ng) then (Inr None, s)
      else case getClaim K (peCatalogue E) rd (ngName ng) s of
             (Inl e, s1) \<Rightarrow> (case IgnoreNotFound e of None \<Rightarrow> (Inr None, s1) | Some e' \<Rightarrow> (Inl e', s1))
           | (Inr claim, s1) \<Rightarrow>
               if \<not> isOurs claim \<or> ncTerminating claim \<or>
                  \<not> IsTrue (ncConditions claim) ConditionTypeLaunched \<or>
                  IsTrue (ncConditions claim) ConditionTypeRegistered \<or>
                  ncProviderID claim \<noteq> ProviderID (ngName ng)
               then (Inr None, s1) else (Inr (Some claim), s1))"

section \<open>Failing a launch\<close>

definition failLaunch ::
  "provider_env \<Rightarrow> 'w kube \<Rightarrow> name \<Rightarrow> 'w sys \<Rightarrow> reconcile_result \<times> 'w sys" where
  "failLaunch E K n s =
     (let cat = peCatalogue E in
      case getNG K cat Uncached n s of
        (Inl e, s1) \<Rightarrow> (case IgnoreNotFound e of None \<Rightarrow> (Inr None, s1) | Some e' \<Rightarrow> (Inl (StApi e'), s1))
      | (Inr ng, s1) \<Rightarrow>
          (case launchedNodeClaim E K Uncached ng s1 of
             (Inl e, s2) \<Rightarrow> (Inl (StApi e), s2)
           | (Inr nodeClaim, s2) \<Rightarrow>
               (case nodeClaim of
                  None \<Rightarrow> (Inr None, s2)
                | Some claim \<Rightarrow>
                    if IsSynced ng \<or> \<not> IsRefused ng then (Inr None, s2)
                    else (case deleteClaim K cat claim
                                 (Some (ncUID claim, omResourceVersion (ncMeta claim))) s2 of
                            (Some e, s3) \<Rightarrow>
                              if e = NotFound then (Inr None, s3)
                              else if e = Conflict then (Inr (Some conflictRetry), s3)
                              else (Inl (StDelete (ncName claim) e), s3)
                          | (None, s3) \<Rightarrow> (Inr None, RecordLateRefusal E K claim ng s3)))))"

section \<open>Reports\<close>

text \<open>The operator's last words: \<open>None\<close> for a group it never picked up, else the phase and the conditions.\<close>

definition operatorState :: "nodegroup \<Rightarrow> (string \<times> string list) option" where
  "operatorState ng =
     (if stPhase (ngStatus ng) = '''' \<and> length (stConditions (ngStatus ng)) = 0 then None
      else Some (stPhase (ngStatus ng),
        map (\<lambda>c. ncType c @ '' ('' @ DescribeFailure (ncReason c) (ncMessage c) @ '')'')
          (filter (\<lambda>c. ncStatus c = ConditionTrue) (stConditions (ngStatus ng)))))"

definition operatorStateArgs :: "nodegroup \<Rightarrow> string list" where
  "operatorStateArgs ng =
     (case operatorState ng of
        None \<Rightarrow> [''no status: the node-group operator has not picked it up'']
      | Some (phase, conds) \<Rightarrow> phase # conds)"

definition surfaceTransientFailure ::
  "nodegroup \<Rightarrow> nodeclaim \<Rightarrow> string \<Rightarrow> string \<Rightarrow> status_state \<times> 'w sys \<Rightarrow> status_state \<times> 'w sys" where
  "surfaceTransientFailure ng claim reason message acc =
     (let (st, s) = log_once ''transient'' (ngName ng) acc
      in (st, emit (claimEvent True ''NodeGroupTransientFailure'' claim
                [ngName ng, DescribeFailure reason message]) s))"

definition reportOverdue :: "nodegroup \<Rightarrow> nodeclaim \<Rightarrow> status_state \<times> 'w sys \<Rightarrow> status_state \<times> 'w sys" where
  "reportOverdue ng claim acc =
     (let (st, s) = log_once ''overdue'' (ngName ng) (setOverdue (ngName ng) acc)
      in (st, emit (claimEvent True ''NodeGroupSyncOverdue'' claim
                (ngName ng # show_duration syncOverdueAfter # operatorStateArgs ng @ [ngName ng])) s))"

section \<open>Reconcile\<close>

definition follow_launch ::
  "'w kube \<Rightarrow> nodegroup \<Rightarrow> nodeclaim \<Rightarrow> status_state \<times> 'w sys \<Rightarrow> reconcile_result \<times> status_state \<times> 'w sys" where
  "follow_launch K ng claim acc =
     (let (st1, s1) = (case TransientFailure ng of
             Some (reason, message) \<Rightarrow> surfaceTransientFailure ng claim reason message acc
           | None \<Rightarrow> acc);
          remaining = syncOverdueAfter - (now K s1 - omCreated (ngMeta ng))
      in if 0 < remaining then (Inr (Some remaining), st1, s1)
         else let (st2, s2) = reportOverdue ng claim (st1, s1) in (Inr None, st2, s2))"

definition status_Reconcile ::
  "provider_env \<Rightarrow> 'w kube \<Rightarrow> name \<Rightarrow> status_state \<times> 'w sys \<Rightarrow> reconcile_result \<times> status_state \<times> 'w sys" where
  "status_Reconcile E K n acc =
     (let (st, s) = acc in
      case getNG K (peCatalogue E) Cached n s of
        (Inl e, s1) \<Rightarrow>
          if e = NotFound then (let (st', s') = forget n (st, s1) in (Inr None, st', s'))
          else (Inl (StApi e), st, s1)
      | (Inr ng, s1) \<Rightarrow>
          (case launchedNodeClaim E K Cached ng s1 of
             (Inl e, s2) \<Rightarrow> (Inl (StApi e), st, s2)
           | (Inr nodeClaim, s2) \<Rightarrow>
               (case nodeClaim of
                  None \<Rightarrow> (let (st', s') = forget (ngName ng) (st, s2) in (Inr None, st', s'))
                | Some claim \<Rightarrow>
                    if IsSynced ng then (let (st', s') = forget (ngName ng) (st, s2) in (Inr None, st', s'))
                    else if IsRefused ng then
                      (let (st', s3) = forget (ngName ng) (st, s2); (r, s4) = failLaunch E K (ngName ng) s3
                       in (r, st', s4))
                    else follow_launch K ng claim (st, s2))))"

section \<open>The watches\<close>

text \<open>Which objects' events trigger a reconcile, and of which group.\<close>

definition status_UpdateFunc :: "nodegroup \<Rightarrow> nodegroup \<Rightarrow> bool" where
  "status_UpdateFunc old new \<longleftrightarrow> IsManaged old \<or> IsManaged new"

definition nodeGroupOfNodeClaim :: "nodeclaim \<Rightarrow> name list" where
  "nodeGroupOfNodeClaim claim = (if \<not> isOurs claim then [] else [ncName claim])"

section \<open>What a followed launch is\<close>

definition followed_launch :: "nodegroup \<Rightarrow> nodeclaim \<Rightarrow> bool" where
  "followed_launch ng c \<longleftrightarrow>
     IsManaged ng \<and> \<not> ngTerminating ng \<and> ngName ng \<in> set (NodeClaimOwners ng) \<and>
     isOurs c \<and> \<not> ncTerminating c \<and> IsTrue (ncConditions c) ConditionTypeLaunched \<and>
     \<not> IsTrue (ncConditions c) ConditionTypeRegistered \<and> ncProviderID c = ProviderID (ngName ng)"

lemma launchedNodeClaim_spec:
  assumes "launchedNodeClaim E K rd ng s = (r, s')"
  shows "\<exists>es. trace s' = trace s @ es \<and> list_all harmless es \<and> list_all (\<lambda>e. \<forall>c. e \<noteq> Count c) es \<and>
    (\<forall>c. r = Inr (Some c) \<longrightarrow> followed_launch ng c \<and> es = [ReadClaim rd (ngName ng) (Inr c)])"
proof (cases "\<not> IsManaged ng \<or> ngTerminating ng \<or> ngName ng \<notin> set (NodeClaimOwners ng)")
  case True
  then show ?thesis using assms by (auto simp: launchedNodeClaim_def)
next
  case False
  obtain x s1 where x: "getClaim K (peCatalogue E) rd (ngName ng) s = (x, s1)" by (meson surj_pair)
  have t: "trace s1 = trace s @ [ReadClaim rd (ngName ng) x]" using x by (auto simp: getClaim_def dest: trace_call)
  have "s' = s1" "\<forall>c. r = Inr (Some c) \<longrightarrow> followed_launch ng c \<and> x = Inr c"
    using assms False unfolding launchedNodeClaim_def x prod.case
    by (auto simp: followed_launch_def split: sum.splits if_splits option.splits)
  then show ?thesis using t by (intro exI [of _ "[ReadClaim rd (ngName ng) x]"]) auto
qed

section \<open>Why a claim is deleted and a refusal counted\<close>

definition status_justifies :: "effect list \<Rightarrow> effect \<Rightarrow> bool" where
  "status_justifies xs e =
     (case e of
        DeletedClaim c pre d \<Rightarrow>
          pre = Some (ncUID c, omResourceVersion (ncMeta c)) \<and>
          (\<exists>n ng. followed_launch ng c \<and> IsRefused ng \<and> \<not> IsSynced ng \<and>
             ReadNG Uncached n (Inr ng) \<in> set xs \<and> ReadClaim Uncached (ngName ng) (Inr c) \<in> set xs)
      | Count k \<Rightarrow> k \<in> {NodeGroupQuotaRejections, NodeGroupRejections} \<and>
          (\<exists>c pre. DeletedClaim c pre None \<in> set xs)
      | DeletedNG _ _ \<Rightarrow> False | CreatedNG _ _ \<Rightarrow> False | PatchedNG _ _ _ \<Rightarrow> False
      | PatchedClass _ _ _ \<Rightarrow> False | PatchedClassStatus _ _ _ \<Rightarrow> False | PatchedNode _ _ _ \<Rightarrow> False
      | _ \<Rightarrow> True)"

lemma grows_status: "grows status_justifies"
proof (rule growsI)
  fix xs ys e
  assume "set xs \<subseteq> set ys" "status_justifies xs e"
  then show "status_justifies ys e"
    by (cases e; simp add: status_justifies_def; blast)
qed

lemma trace_RecordLateRefusal:
  "IsRefused ng \<Longrightarrow> \<exists>ev. trace (RecordLateRefusal E K c ng s) = trace s @
     [Count (if IsQuotaExceeded ng then NodeGroupQuotaRejections else NodeGroupRejections), Publish ev]"
  by (cases "IsQuotaExceeded ng"; cases "Refusal ng")
     (auto simp: RecordLateRefusal_def IsRefused_def Let_def claimEvent_def)

fun quiet :: "effect \<Rightarrow> bool" where
  "quiet (Count c) = False"
| "quiet e = harmless e"

lemma quiet_status: "quiet e \<Longrightarrow> status_justifies xs e"
  by (cases e) (simp_all add: status_justifies_def)

lemma quiet_eq: "quiet e \<longleftrightarrow> harmless e \<and> (\<forall>c. e \<noteq> Count c)"
  by (cases e) simp_all

lemma only_status: "only quiet s s' \<Longrightarrow> guarded status_justifies s s'"
  by (erule only_guarded) (rule quiet_status)

lemma quiet_event [simp]: "quiet (claimEvent w r c a)"
  by (simp add: claimEvent_def)

lemma quiet_launched: "launchedNodeClaim E K rd ng s = (r, s') \<Longrightarrow> only quiet s s'"
  by (auto simp: only_def quiet_eq list_all_iff dest!: launchedNodeClaim_spec)

lemma quiet_forget: "forget n (st, s) = (st', s') \<Longrightarrow> only quiet s s'"
  by (auto simp: forget_def Let_def intro!: only_intros)

lemma quiet_log_once: "log_once kind n (st, s) = (st', s') \<Longrightarrow> only quiet s s'"
  by (auto simp: log_once_def firstLog_def split: if_splits intro!: only_intros)

lemma quiet_setOverdue: "setOverdue n (st, s) = (st', s') \<Longrightarrow> only quiet s s'"
  by (auto simp: setOverdue_def Let_def intro!: only_intros)

lemma quiet_reportOverdue:
  assumes "reportOverdue ng c (st, s) = (st', s')"
  shows "only quiet s s'"
proof -
  obtain st1 s1 where a: "setOverdue (ngName ng) (st, s) = (st1, s1)" by (meson surj_pair)
  obtain st2 s2 where b: "log_once ''overdue'' (ngName ng) (st1, s1) = (st2, s2)" by (meson surj_pair)
  from only_trans [OF quiet_setOverdue [OF a] quiet_log_once [OF b]] show ?thesis
    using assms a b by (auto simp: reportOverdue_def intro!: only_intros)
qed

lemma quiet_follow_launch:
  assumes "follow_launch K ng c (st, s) = (r, st', s')"
  shows "only quiet s s'"
proof -
  obtain st1 s1 where a: "(case TransientFailure ng of
      Some (reason, message) \<Rightarrow> surfaceTransientFailure ng c reason message (st, s) | None \<Rightarrow> (st, s)) = (st1, s1)"
    by (meson surj_pair)
  have q: "only quiet s s1"
    using a by (auto simp: surfaceTransientFailure_def split: option.splits prod.splits
        intro!: only_intros dest: quiet_log_once)
  obtain st2 s2 where b: "reportOverdue ng c (st1, s1) = (st2, s2)" by (meson surj_pair)
  from assms have "s' = s1 \<or> s' = s2"
    unfolding follow_launch_def a Let_def prod.case b by (auto split: if_splits)
  then show ?thesis using q only_trans [OF q quiet_reportOverdue [OF b]] by blast
qed

lemma guarded_failLaunch:
  assumes "failLaunch E K n s = (r, s')"
  shows "guarded status_justifies s s'"
proof -
  obtain x s1 where x: "getNG K (peCatalogue E) Uncached n s = (x, s1)" by (meson surj_pair)
  have t1: "trace s1 = trace s @ [ReadNG Uncached n x]" using x by (auto simp: getNG_def dest: trace_call)
  then have q1: "only quiet s s1" by (auto simp: only_def)
  show ?thesis
  proof (cases x)
    case (Inl e)
    then have "s' = s1" using assms x by (auto simp: failLaunch_def Let_def split: option.splits)
    with only_status [OF q1] show ?thesis by simp
  next
    case (Inr ng)
    obtain c s2 where c: "launchedNodeClaim E K Uncached ng s1 = (c, s2)" by (meson surj_pair)
    note q2 = only_trans [OF q1 quiet_launched [OF c]]
    show ?thesis
    proof (cases "\<exists>claim. c = Inr (Some claim) \<and> \<not> (IsSynced ng \<or> \<not> IsRefused ng)")
      case False
      then have "s' = s2"
        using assms unfolding failLaunch_def Let_def x Inr prod.case sum.case c
        by (auto split: sum.splits option.splits if_splits)
      with only_status [OF q2] show ?thesis by simp
    next
      case True
      then obtain claim where cl: "c = Inr (Some claim)" and ng: "\<not> IsSynced ng" "IsRefused ng" by blast
      let ?pre = "Some (ncUID claim, omResourceVersion (ncMeta claim))"
      obtain d s3 where d: "deleteClaim K (peCatalogue E) claim ?pre s2 = (d, s3)" by (meson surj_pair)
      have t2: "trace s2 = trace s1 @ [ReadClaim Uncached (ngName ng) (Inr claim)]" "followed_launch ng claim"
        using launchedNodeClaim_spec [OF c] cl by auto
      have t3: "trace s3 = trace s2 @ [DeletedClaim claim ?pre d]" using d by (auto simp: deleteClaim_def dest: trace_call)
      let ?es = "[ReadNG Uncached n x, ReadClaim Uncached (ngName ng) (Inr claim)]"
      have "justified status_justifies ?es"
        using justified_snoc [OF justified_snoc [OF justified_Nil]] quiet_status by fastforce
      moreover have "status_justifies ?es (DeletedClaim claim ?pre d)"
        using t2(2) ng Inr by (auto simp: status_justifies_def)
      ultimately have j: "justified status_justifies (?es @ [DeletedClaim claim ?pre d])"
        by (rule justified_snoc)
      have g3: "guarded status_justifies s s3"
        unfolding guarded_def using j t1 t2 t3 by (intro exI [of _ "?es @ [DeletedClaim claim ?pre d]"]) simp
      show ?thesis
      proof (cases d)
        case (Some e)
        then have "s' = s3"
          using assms ng unfolding failLaunch_def Let_def x Inr prod.case sum.case c cl option.case d
          by (auto split: if_splits)
        with g3 show ?thesis by simp
      next
        case None
        then have s': "s' = RecordLateRefusal E K claim ng s3"
          using assms ng unfolding failLaunch_def Let_def x Inr prod.case sum.case c cl option.case d
          by (auto split: if_splits)
        let ?k = "if IsQuotaExceeded ng then NodeGroupQuotaRejections else NodeGroupRejections"
        obtain ev where "trace s' = trace s3 @ [Count ?k, Publish ev]"
          using trace_RecordLateRefusal [OF ng(2)] unfolding s' by blast
        moreover have "justified status_justifies (?es @ [DeletedClaim claim ?pre d, Count ?k, Publish ev])"
          using None justified_snoc [OF justified_snoc [OF j, of "Count ?k"], of "Publish ev"]
          by (auto simp: status_justifies_def)
        ultimately show ?thesis
          unfolding guarded_def using t1 t2 t3
          by (intro exI [of _ "?es @ [DeletedClaim claim ?pre d, Count ?k, Publish ev]"]) simp
      qed
    qed
  qed
qed

lemma guarded_status_Reconcile:
  assumes "status_Reconcile E K n (st, s) = (r, st', s')"
  shows "guarded status_justifies s s'"
proof -
  obtain x s1 where x: "getNG K (peCatalogue E) Cached n s = (x, s1)" by (meson surj_pair)
  have "trace s1 = trace s @ [ReadNG Cached n x]" using x by (auto simp: getNG_def dest: trace_call)
  then have q1: "only quiet s s1" by (auto simp: only_def)
  show ?thesis
  proof (cases x)
    case (Inl e)
    then have "only quiet s1 s'"
      using assms x unfolding status_Reconcile_def by (auto split: if_splits prod.splits dest: quiet_forget)
    with q1 show ?thesis using only_status only_trans by metis
  next
    case (Inr ng)
    obtain c s2 where c: "launchedNodeClaim E K Cached ng s1 = (c, s2)" by (meson surj_pair)
    note q2 = only_trans [OF q1 quiet_launched [OF c]]
    obtain st3 s3 where f: "forget (ngName ng) (st, s2) = (st3, s3)" by (meson surj_pair)
    note q3 = only_trans [OF q2 quiet_forget [OF f]]
    obtain r4 s4 where fl: "failLaunch E K (ngName ng) s3 = (r4, s4)" by (meson surj_pair)
    have g4: "guarded status_justifies s s4"
      by (rule guarded_trans [OF grows_status only_status [OF q3] guarded_failLaunch [OF fl]])
    consider "s' = s2" | "s' = s3" | "s' = s4" | claim where "follow_launch K ng claim (st, s2) = (r, st', s')"
      using assms unfolding status_Reconcile_def prod.case Let_def x Inr sum.case c f fl
      by (auto split: sum.splits option.splits if_splits)
    then show ?thesis
      by cases (use only_status [OF q2] only_status [OF q3] g4
        only_status [OF only_trans [OF q2 quiet_follow_launch]] in auto)
  qed
qed

text \<open>
  C7. A launch is failed late only on fresh evidence, and only the claim examined. Whenever the
  controller deletes a NodeClaim, uncached reads made before in the same reconcile showed the group
  refused and not Ready and the claim launched, not registered, not terminating, owned and named
  by the group; the DELETE is conditional on that claim's UID and resource version; and nothing
  else is ever deleted, created or patched.
\<close>

theorem late_failures_are_confirmed:
  assumes "status_Reconcile E K n (st, s) = (r, st', s')"
  shows "list_all (\<lambda>e. harmless e \<or> (\<exists>c pre d. e = DeletedClaim c pre d)) (did s s') \<and>
    (\<forall>xs c pre d ys. did s s' = xs @ DeletedClaim c pre d # ys \<longrightarrow>
       pre = Some (ncUID c, omResourceVersion (ncMeta c)) \<and>
       (\<exists>m ng. IsRefused ng \<and> \<not> IsSynced ng \<and> IsManaged ng \<and> \<not> ngTerminating ng \<and>
          ngName ng \<in> set (NodeClaimOwners ng) \<and> ncProviderID c = ProviderID (ngName ng) \<and>
          isOurs c \<and> \<not> ncTerminating c \<and> IsTrue (ncConditions c) ConditionTypeLaunched \<and>
          \<not> IsTrue (ncConditions c) ConditionTypeRegistered \<and>
          ReadNG Uncached m (Inr ng) \<in> set xs \<and> ReadClaim Uncached (ngName ng) (Inr c) \<in> set xs))"
proof (intro conjI allI impI)
  have just: "status_justifies xs e" if "did s s' = xs @ e # ys" for xs e ys
    using guarded_did [OF guarded_status_Reconcile [OF assms] that] .
  have "harmless e \<or> (\<exists>c pre d. e = DeletedClaim c pre d)" if "e \<in> set (did s s')" for e
  proof -
    from split_list [OF that] obtain xs ys where "did s s' = xs @ e # ys" by blast
    from just [OF this] show ?thesis by (cases e) (simp_all add: status_justifies_def)
  qed
  then show "list_all (\<lambda>e. harmless e \<or> (\<exists>c pre d. e = DeletedClaim c pre d)) (did s s')"
    by (simp add: list_all_iff)
  fix xs c pre d ys
  assume "did s s' = xs @ DeletedClaim c pre d # ys"
  from just [OF this]
  show "pre = Some (ncUID c, omResourceVersion (ncMeta c))"
    and "\<exists>m ng. IsRefused ng \<and> \<not> IsSynced ng \<and> IsManaged ng \<and> \<not> ngTerminating ng \<and>
          ngName ng \<in> set (NodeClaimOwners ng) \<and> ncProviderID c = ProviderID (ngName ng) \<and>
          isOurs c \<and> \<not> ncTerminating c \<and> IsTrue (ncConditions c) ConditionTypeLaunched \<and>
          \<not> IsTrue (ncConditions c) ConditionTypeRegistered \<and>
          ReadNG Uncached m (Inr ng) \<in> set xs \<and> ReadClaim Uncached (ngName ng) (Inr c) \<in> set xs"
    unfolding status_justifies_def followed_launch_def by auto
qed

section \<open>What an accepted deletion is followed by\<close>

lemma did_quiet: "only quiet s s' \<Longrightarrow> DeletedClaim c pre d \<notin> set (did s s')"
  using only_did by fastforce

lemma late_refusal_lasts:
  assumes "IsRefused ng" and "t < now K s + (if IsQuotaExceeded ng then minute else 5 * minute)"
  shows "Unavailable (peCatalogue E) t (ngFlavor ng) (refs (RecordLateRefusal E K claim ng s))"
  using assms by (cases "IsQuotaExceeded ng"; cases "Refusal ng")
    (auto simp: RecordLateRefusal_def IsRefused_def Let_def quota_lasts hold_out_lasts)

lemma now_RecordLateRefusal [simp]: "now K (RecordLateRefusal E K claim ng s) = now K s"
  by (auto simp: RecordLateRefusal_def Let_def split: option.splits)

definition refusal_lasts :: "provider_env \<Rightarrow> 'w kube \<Rightarrow> nodegroup \<Rightarrow> 'w sys \<Rightarrow> bool" where
  "refusal_lasts E K ng s \<longleftrightarrow>
     (\<forall>t. t < now K s + (if IsQuotaExceeded ng then minute else 5 * minute) \<longrightarrow>
        Unavailable (peCatalogue E) t (ngFlavor ng) (refs s))"

lemma failLaunch_records:
  assumes "failLaunch E K n s = (r, s')" and "DeletedClaim c pre None \<in> set (did s s')"
  shows "\<exists>ng. IsRefused ng \<and> ReadNG Uncached n (Inr ng) \<in> set (did s s') \<and> refusal_lasts E K ng s'"
proof -
  obtain x s1 where x: "getNG K (peCatalogue E) Uncached n s = (x, s1)" by (meson surj_pair)
  have t1: "trace s1 = trace s @ [ReadNG Uncached n x]" using x by (auto simp: getNG_def dest: trace_call)
  then have q1: "only quiet s s1" by (auto simp: only_def)
  have "s' \<noteq> s1" using did_quiet [OF q1] assms(2) by blast
  then obtain ng where ng: "x = Inr ng"
    using assms(1) x by (cases x) (auto simp: failLaunch_def Let_def split: option.splits)
  obtain cl s2 where cl: "launchedNodeClaim E K Uncached ng s1 = (cl, s2)" by (meson surj_pair)
  note q2 = only_trans [OF q1 quiet_launched [OF cl]]
  have "s' \<noteq> s2" using did_quiet [OF q2] assms(2) by blast
  then obtain claim where c: "cl = Inr (Some claim)" and ref: "\<not> IsSynced ng" "IsRefused ng"
    using assms(1) unfolding failLaunch_def Let_def x ng prod.case sum.case cl
    by (auto split: sum.splits option.splits if_splits)
  let ?pre = "Some (ncUID claim, omResourceVersion (ncMeta claim))"
  obtain d s3 where d: "deleteClaim K (peCatalogue E) claim ?pre s2 = (d, s3)" by (meson surj_pair)
  have t3: "trace s3 = trace s2 @ [DeletedClaim claim ?pre d]" using d by (auto simp: deleteClaim_def dest: trace_call)
  obtain es where es: "trace s2 = trace s1 @ es" "list_all harmless es"
    using launchedNodeClaim_spec [OF cl] by blast
  have "d = None"
  proof (rule ccontr)
    assume "d \<noteq> None"
    then have "s' = s3"
      using assms(1) ref unfolding failLaunch_def Let_def x ng prod.case sum.case cl c option.case d
      by (auto split: if_splits)
    with \<open>d \<noteq> None\<close> t1 t3 es assms(2) show False by (auto simp: did_def list_all_iff)
  qed
  then have s': "s' = RecordLateRefusal E K claim ng s3"
    using assms(1) ref unfolding failLaunch_def Let_def x ng prod.case sum.case cl c option.case d
    by (auto split: if_splits)
  have "ReadNG Uncached n (Inr ng) \<in> set (did s s')"
    using trace_RecordLateRefusal [OF ref(2), of E K claim s3] t1 t3 es ng by (auto simp: did_def s')
  moreover have "refusal_lasts E K ng s'"
    unfolding refusal_lasts_def s' by (intro allI impI late_refusal_lasts [OF ref(2)]) simp
  ultimately show ?thesis using ref(2) by blast
qed

text \<open>
  A late refusal is recorded exactly when its launch was failed. The controller counts a refusal
  only after the API accepted the deletion of the claim, so a retry cannot count one twice; and once
  a deletion is accepted the flavor of the refused group is unavailable, for one minute after a
  quota rejection and five after any other refusal.
\<close>

theorem late_refusal_recorded_iff_claim_deleted:
  assumes "status_Reconcile E K n (st, s) = (r, st', s')"
  shows "(\<forall>xs k ys. did s s' = xs @ Count k # ys \<longrightarrow> (\<exists>c pre. DeletedClaim c pre None \<in> set xs)) \<and>
    (\<forall>c pre. DeletedClaim c pre None \<in> set (did s s') \<longrightarrow>
       (\<exists>m ng. IsRefused ng \<and> ReadNG Uncached m (Inr ng) \<in> set (did s s') \<and>
          (\<forall>t. t < now K s' + (if IsQuotaExceeded ng then minute else 5 * minute) \<longrightarrow>
             Unavailable (peCatalogue E) t (ngFlavor ng) (refs s'))))"
proof (intro conjI allI impI)
  fix xs k ys
  assume "did s s' = xs @ Count k # ys"
  from guarded_did [OF guarded_status_Reconcile [OF assms] this]
  show "\<exists>c pre. DeletedClaim c pre None \<in> set xs" by (simp add: status_justifies_def)
next
  fix c pre
  assume del: "DeletedClaim c pre None \<in> set (did s s')"
  obtain x s1 where x: "getNG K (peCatalogue E) Cached n s = (x, s1)" by (meson surj_pair)
  have "trace s1 = trace s @ [ReadNG Cached n x]" using x by (auto simp: getNG_def dest: trace_call)
  then have q1: "only quiet s s1" by (auto simp: only_def)
  have "\<not> only quiet s s'" using del did_quiet by blast
  then have nq: "\<not> only quiet s1 s'" using only_trans [OF q1] by blast
  then obtain ng where ng: "x = Inr ng"
    using assms x unfolding status_Reconcile_def
    by (cases x) (auto split: if_splits prod.splits dest: quiet_forget)
  obtain cl s2 where cl: "launchedNodeClaim E K Cached ng s1 = (cl, s2)" by (meson surj_pair)
  obtain st3 s3 where f: "forget (ngName ng) (st, s2) = (st3, s3)" by (meson surj_pair)
  obtain r4 s4 where fl: "failLaunch E K (ngName ng) s3 = (r4, s4)" by (meson surj_pair)
  note q2 = quiet_launched [OF cl]
  note q3 = only_trans [OF q2 quiet_forget [OF f]]
  consider "s' = s2" | "s' = s3" | "s' = s4" | claim where "follow_launch K ng claim (st, s2) = (r, st', s')"
    using assms unfolding status_Reconcile_def prod.case Let_def x ng sum.case cl f fl
    by (auto split: sum.splits option.splits if_splits)
  then have s': "s' = s4"
    using nq q2 q3 by cases (use only_trans [OF q2 quiet_follow_launch] in auto)
  have q: "only quiet s s3" by (rule only_trans [OF q1 q3])
  have ext: "extends s s3" "extends s3 s'"
    using only_extends [OF q] guarded_extends [OF guarded_failLaunch [OF fl]] s' by simp_all
  have "DeletedClaim c pre None \<in> set (did s3 s')"
    using del did_trans [OF ext] did_quiet [OF q] by auto
  with failLaunch_records [OF fl] s' obtain ng' where
    "IsRefused ng'" "ReadNG Uncached (ngName ng) (Inr ng') \<in> set (did s3 s')" "refusal_lasts E K ng' s'" by blast
  moreover have "set (did s3 s') \<subseteq> set (did s s')" using did_trans [OF ext] by simp
  ultimately show "\<exists>m ng. IsRefused ng \<and> ReadNG Uncached m (Inr ng) \<in> set (did s s') \<and>
      (\<forall>t. t < now K s' + (if IsQuotaExceeded ng then minute else 5 * minute) \<longrightarrow>
         Unavailable (peCatalogue E) t (ngFlavor ng) (refs s'))"
    unfolding refusal_lasts_def by blast
qed

section \<open>The gauge of overdue groups\<close>

definition wf_status :: "status_state \<Rightarrow> bool" where
  "wf_status st \<longleftrightarrow> distinct (ssOverdue st) \<and> distinct (ssLogged st)"

lemma wf_steps:
  "wf_status st \<Longrightarrow> forget m (st, s) = (st', s') \<Longrightarrow> wf_status st'"
  "wf_status st \<Longrightarrow> setOverdue m (st, s) = (st', s') \<Longrightarrow> wf_status st'"
  "wf_status st \<Longrightarrow> log_once k m (st, s) = (st', s') \<Longrightarrow> wf_status st'"
  by (auto simp: wf_status_def forget_def setOverdue_def log_once_def firstLog_def insert_name_def
      distinct_removeAll Let_def split: if_splits)

lemma overdue_steps:
  "forget m (st, s) = (st', s') \<Longrightarrow> set (ssOverdue st') = set (ssOverdue st) - {m}"
  "setOverdue m (st, s) = (st', s') \<Longrightarrow> set (ssOverdue st') = insert m (set (ssOverdue st))"
  "log_once k m (st, s) = (st', s') \<Longrightarrow> ssOverdue st' = ssOverdue st"
  by (auto simp: forget_def setOverdue_def log_once_def firstLog_def insert_name_def Let_def split: if_splits)

lemma surfaceTransientFailure_steps:
  "surfaceTransientFailure ng c reason msg (st, s) = (st', s') \<Longrightarrow>
     ssOverdue st' = ssOverdue st \<and> (wf_status st \<longrightarrow> wf_status st')"
  by (auto simp: surfaceTransientFailure_def split: prod.splits dest: overdue_steps wf_steps)

lemma reportOverdue_steps:
  assumes "reportOverdue ng c (st, s) = (st', s')"
  shows "set (ssOverdue st') = insert (ngName ng) (set (ssOverdue st)) \<and> (wf_status st \<longrightarrow> wf_status st')"
proof -
  obtain st1 s1 where a: "setOverdue (ngName ng) (st, s) = (st1, s1)" by (meson surj_pair)
  obtain st2 s2 where b: "log_once ''overdue'' (ngName ng) (st1, s1) = (st2, s2)" by (meson surj_pair)
  have "st' = st2" using assms a b by (simp add: reportOverdue_def)
  then show ?thesis
    using overdue_steps(2) [OF a] overdue_steps(3) [OF b] wf_steps(2) [OF _ a] wf_steps(3) [OF _ b] by simp
qed

text \<open>Following a launch counts its group overdue only when it is five minutes old.\<close>

lemma follow_launch_steps:
  assumes "follow_launch K ng c (st, s) = (r, st', s')" and "wf_status st"
  shows "wf_status st' \<and> (ssOverdue st' = ssOverdue st \<and> r \<noteq> Inr None \<or>
    set (ssOverdue st') = insert (ngName ng) (set (ssOverdue st)) \<and> (\<exists>w. omCreated (ngMeta ng) + syncOverdueAfter \<le> kNow K w))"
proof -
  obtain st4 s5 where a: "(case TransientFailure ng of
      Some (reason, message) \<Rightarrow> surfaceTransientFailure ng c reason message (st, s) | None \<Rightarrow> (st, s)) = (st4, s5)"
    by (meson surj_pair)
  have st4: "ssOverdue st4 = ssOverdue st" "wf_status st4"
    using a assms(2) by (auto split: option.splits dest: surfaceTransientFailure_steps)
  obtain st5 s6 where b: "reportOverdue ng c (st4, s5) = (st5, s6)" by (meson surj_pair)
  show ?thesis
  proof (cases "0 < syncOverdueAfter - (now K s5 - omCreated (ngMeta ng))")
    case True
    then show ?thesis using assms(1) st4 unfolding follow_launch_def a Let_def prod.case b by auto
  next
    case False
    then have "st' = st5" "omCreated (ngMeta ng) + syncOverdueAfter \<le> kNow K (world s5)"
      using assms(1) unfolding follow_launch_def a Let_def prod.case b by (simp_all add: now_def algebra_simps)
    then show ?thesis using reportOverdue_steps [OF b] st4 by auto
  qed
qed

text \<open>
  The overdue gauge counts unsynced launches and only those. A reconcile changes the standing of
  its own group alone: it enters the set only while a read showed it managed, neither synced nor
  refused, at least five minutes old, its claim launched and not registered; and when the reconcile
  ends any other way than in an error of the API or a wait, the group has left the set.
\<close>

theorem overdue_set_tracks_unsynced_launches:
  assumes "wf_status st" and "status_Reconcile E K n (st, s) = (r, st', s')"
    and "\<forall>w ng w'. kGetNG K Cached n w = (Inr ng, w') \<longrightarrow> ngName ng = n"
  shows "wf_status st' \<and> set (ssOverdue st') - {n} = set (ssOverdue st) - {n} \<and>
    (n \<in> set (ssOverdue st') \<longrightarrow>
       n \<in> set (ssOverdue st) \<and> r \<noteq> Inr None \<or>
       (\<exists>ng c w. followed_launch ng c \<and> \<not> IsSynced ng \<and> \<not> IsRefused ng \<and> ngName ng = n \<and>
          omCreated (ngMeta ng) + syncOverdueAfter \<le> kNow K w \<and>
          ReadNG Cached n (Inr ng) \<in> set (did s s')))"
proof -
  obtain x s1 where x: "getNG K (peCatalogue E) Cached n s = (x, s1)" by (meson surj_pair)
  have t1: "trace s1 = trace s @ [ReadNG Cached n x]" using x by (auto simp: getNG_def dest: trace_call)
  show ?thesis
  proof (cases x)
    case (Inl e)
    then consider "st' = st" "r \<noteq> Inr None" | s2 where "forget n (st, s1) = (st', s2)"
      using assms(2) x unfolding status_Reconcile_def by (auto split: if_splits prod.splits)
    then show ?thesis
      by cases (use assms(1) in \<open>auto dest: overdue_steps wf_steps\<close>)
  next
    case (Inr ng)
    have nm: "ngName ng = n"
      using assms(3) x Inr by (auto simp: getNG_def call_def Let_def split: prod.splits)
    obtain cl s2 where cl: "launchedNodeClaim E K Cached ng s1 = (cl, s2)" by (meson surj_pair)
    obtain st3 s3 where f: "forget n (st, s2) = (st3, s3)" by (meson surj_pair)
    obtain r4 s4 where fl: "failLaunch E K n s3 = (r4, s4)" by (meson surj_pair)
    consider (err) "st' = st" "r \<noteq> Inr None" | (gone) "st' = st3"
      | (live) c where "cl = Inr (Some c)" "\<not> IsSynced ng" "\<not> IsRefused ng"
          "follow_launch K ng c (st, s2) = (r, st', s')"
      using assms(2) unfolding status_Reconcile_def prod.case Let_def x Inr sum.case cl nm f fl
      by (auto split: sum.splits option.splits if_splits)
    then show ?thesis
    proof cases
      case err
      then show ?thesis using assms(1) by simp
    next
      case gone
      then show ?thesis using overdue_steps(1) [OF f] wf_steps(1) [OF assms(1) f] by auto
    next
      case live
      have "extends s2 s'" by (rule only_extends [OF quiet_follow_launch [OF live(4)]])
      moreover obtain es where "trace s2 = trace s1 @ es" and fol: "followed_launch ng c"
        using launchedNodeClaim_spec [OF cl] live(1) by auto
      ultimately have "ReadNG Cached n (Inr ng) \<in> set (did s s')" using t1 Inr by (auto simp: extends_def did_def)
      then show ?thesis using follow_launch_steps [OF live(4) assms(1)] nm fol live(2,3) by auto
    qed
  qed
qed

section \<open>An example reconcile\<close>

text \<open>A launched claim whose group the operator refused after the acknowledgement.\<close>

definition launched_claim :: nodeclaim where
  "launched_claim = example_claim\<lparr>ncProviderID := ProviderID ''c1'',
     ncConditions := [ConditionTypeLaunched \<mapsto> \<lparr>cdStatus = ConditionTrue, cdReason = '''', cdMessage = ''''\<rparr>]\<rparr>"

definition refused_group :: nodegroup where
  "refused_group = with_condition ConditionTypeReconcileFailed ''NoStock'' ''sold out'' example_group"

definition late_world :: "unit kube" where
  "late_world = silent\<lparr>kGetNG := \<lambda>rd n w. (if n = ''c1'' then Inr refused_group else Inl NotFound, w),
     kGetClaim := \<lambda>rd n w. (Inr launched_claim, w), kDeleteClaim := \<lambda>c p w. (None, w)\<rparr>"

lemma late_world_simps [simp]:
  "kGetNG late_world rd n w = (if n = ''c1'' then Inr refused_group else Inl NotFound, w)"
  "kGetClaim late_world rd n w = (Inr launched_claim, w)"
  "kDeleteClaim late_world c p w = (None, w)" "kOthers late_world w = []" "kNow late_world w = 0"
  by (simp_all add: late_world_def silent_def)

lemma refused_group_facts [simp]:
  "ngName refused_group = ''c1''" "IsManaged refused_group" "omDeleted (ngMeta refused_group) = None"
  "NodeClaimOwners refused_group = [''c1'']" "IsRefused refused_group" "\<not> IsSynced refused_group"
  "\<not> IsQuotaExceeded refused_group" "Refusal refused_group = Some (''NoStock'', ''sold out'')"
  "ngFlavor refused_group = ''M''"
  by (simp_all add: refused_group_def with_condition_def example_group_def meta0_def valOf_def key_neqs
      IsManaged_def NodeClaimOwners_def HasPrefix_def verdict_defs ng_consts status0_def)

lemma launched_claim_facts [simp]:
  "isOurs launched_claim" "omDeleted (ncMeta launched_claim) = None" "ncName launched_claim = ''c1''"
  "IsTrue (ncConditions launched_claim) ConditionTypeLaunched"
  "\<not> IsTrue (ncConditions launched_claim) ConditionTypeRegistered"
  "ncProviderID launched_claim = ProviderID ''c1''"
  by (simp_all add: launched_claim_def example_claim_def meta0_def isOurs_def IsTrue_def
      ConditionTypeLaunched_def ConditionTypeRegistered_def)

definition status0_state :: status_state where
  "status0_state = \<lparr>ssOverdue = [''c1''], ssLogged = []\<rparr>"

definition late_run :: "reconcile_result \<times> status_state \<times> unit sys" where
  "late_run = status_Reconcile example_env late_world ''c1'' (status0_state, start ())"

lemma late_run_eq:
  "status_Reconcile example_env late_world ''c1'' (status0_state, start ()) =
     (fst late_run, fst (snd late_run), snd (snd late_run))"
  by (simp add: late_run_def)

definition late_pre :: "(string \<times> string) option" where
  "late_pre = Some (ncUID launched_claim, omResourceVersion (ncMeta launched_claim))"

lemma late_run_deletes: "DeletedClaim launched_claim late_pre None \<in> set (did (start ()) (snd (snd late_run)))"
  by (simp add: late_run_def status_Reconcile_def launchedNodeClaim_def forget_def failLaunch_def
      RecordLateRefusal_def remember_hold_def run_defs did_def start_def late_pre_def Let_def)

theorem late_failures_are_confirmed_witness:
  "\<exists>m ng. IsRefused ng \<and> ReadNG Uncached m (Inr ng) \<in> set (did (start ()) (snd (snd late_run)))"
proof -
  from split_list [OF late_run_deletes] obtain xs ys where
    d: "did (start ()) (snd (snd late_run)) = xs @ DeletedClaim launched_claim late_pre None # ys" by blast
  with late_failures_are_confirmed [OF late_run_eq] obtain m ng where
    "IsRefused ng" "ReadNG Uncached m (Inr ng) \<in> set xs" by blast
  then show ?thesis using d by auto
qed

theorem late_refusal_recorded_iff_claim_deleted_witness:
  "\<exists>ng. IsRefused ng \<and>
     (\<forall>t. t < now late_world (snd (snd late_run)) + (if IsQuotaExceeded ng then minute else 5 * minute) \<longrightarrow>
        Unavailable (peCatalogue example_env) t (ngFlavor ng) (refs (snd (snd late_run))))"
  using late_refusal_recorded_iff_claim_deleted [OF late_run_eq] late_run_deletes by blast

theorem overdue_set_tracks_unsynced_launches_witness:
  "''c1'' \<notin> set (ssOverdue (fst (snd late_run)))"
proof -
  have r: "fst late_run = Inr None"
    by (simp add: late_run_def status_Reconcile_def launchedNodeClaim_def forget_def failLaunch_def
      RecordLateRefusal_def remember_hold_def run_defs start_def Let_def)
  have names: "\<forall>w ng w'. kGetNG late_world Cached ''c1'' w = (Inr ng, w') \<longrightarrow> ngName ng = ''c1''"
    by auto
  have "wf_status status0_state" by (simp add: wf_status_def status0_state_def)
  from overdue_set_tracks_unsynced_launches [OF this late_run_eq names] r
  have "''c1'' \<in> set (ssOverdue (fst (snd late_run))) \<longrightarrow>
      (\<exists>ng. \<not> IsRefused ng \<and> ReadNG Cached ''c1'' (Inr ng) \<in> set (did (start ()) (snd (snd late_run))))"
    by blast
  moreover have "ng = refused_group" if "ReadNG Cached ''c1'' (Inr ng) \<in> set (did (start ()) (snd (snd late_run)))" for ng
    using that
    by (simp add: late_run_def status_Reconcile_def launchedNodeClaim_def forget_def failLaunch_def
      RecordLateRefusal_def remember_hold_def run_defs did_def start_def claimEvent_def Let_def)
  ultimately show ?thesis using refused_group_facts(5) by metis
qed

end
