(* ===== verification/ProviderIdController.thy ===== *)
theory ProviderIdController
  imports NodeGroupStatus
begin

text \<open>
  \<^verbatim>\<open>src/pkg/controllers/providerid/controller.go\<close>: stamps the provider ID of a NodeGroup on its one node,
  and takes karpenter-core's nodepool label off a node it refuses to stamp. Reconciles are
  serialised (\<^verbatim>\<open>MaxConcurrentReconciles: 1\<close>). The last part is a cluster: a store of nodes that this
  controller and its environment change in turn, in which a provider ID stays unique.
\<close>

section \<open>The controller\<close>

record pid_state =
  piResized :: "name list"
  piStripped :: "name list"

definition stripNodePoolLabel ::
  "'w kube \<Rightarrow> catalogue \<Rightarrow> node \<Rightarrow> pid_state \<times> 'w sys \<Rightarrow> api_error option \<times> pid_state \<times> 'w sys" where
  "stripNodePoolLabel K cat nd acc =
     (let (st, s) = acc in
      if noLabels nd CoreNodePoolLabelKey = None then (None, st, s)
      else
        let nd' = nd\<lparr>noMeta := (noMeta nd)\<lparr>omLabels := (noLabels nd)(CoreNodePoolLabelKey := None)\<rparr>\<rparr> in
        case patchNode K cat nd nd' s of
          (Some e, s1) \<Rightarrow> (IgnoreNotFound e, st, s1)
        | (None, s1) \<Rightarrow>
            if noName nd \<in> set (piStripped st) then (None, st, s1)
            else (None, st\<lparr>piStripped := noName nd # piStripped st\<rparr>, emit (Logged ''stripped'' (noName nd)) s1))"

text \<open>The loop over the siblings returns at the first other node that carries the ID.\<close>

definition carriesID :: "node \<Rightarrow> string \<Rightarrow> node \<Rightarrow> bool" where
  "carriesID nd pid sib \<longleftrightarrow> \<not> (noName sib = noName nd \<or> noProviderID sib \<noteq> pid)"

definition refuse_stamp ::
  "'w kube \<Rightarrow> catalogue \<Rightarrow> node \<Rightarrow> pid_state \<times> 'w sys \<Rightarrow> api_error option \<times> pid_state \<times> 'w sys" where
  "refuse_stamp K cat nd acc =
     (let (st, s) = acc;
          (st1, s1) = (if noName nd \<in> set (piResized st) then (st, s)
                       else (st\<lparr>piResized := noName nd # piResized st\<rparr>, emit (Logged ''resized'' (noName nd)) s))
      in stripNodePoolLabel K cat nd (st1, s1))"

definition stamp ::
  "'w kube \<Rightarrow> catalogue \<Rightarrow> node \<Rightarrow> name \<Rightarrow> pid_state \<times> 'w sys \<Rightarrow> api_error option \<times> pid_state \<times> 'w sys" where
  "stamp K cat nd g acc =
     (let (st, s) = acc;
          st1 = st\<lparr>piResized := removeAll (noName nd) (piResized st),
                   piStripped := removeAll (noName nd) (piStripped st)\<rparr>;
          (r, s1) = patchNode K cat nd (nd\<lparr>noProviderID := ProviderID g\<rparr>) s
      in (r, st1, s1))"

definition pid_Reconcile ::
  "'w kube \<Rightarrow> catalogue \<Rightarrow> name \<Rightarrow> pid_state \<times> 'w sys \<Rightarrow> api_error option \<times> pid_state \<times> 'w sys" where
  "pid_Reconcile K cat n acc =
     (let (st, s) = acc in
      case getNode K cat Cached n s of
        (Inl e, s1) \<Rightarrow> (IgnoreNotFound e, st, s1)
      | (Inr nd, s1) \<Rightarrow>
          if noProviderID nd \<noteq> '''' then (None, st, s1)
          else (case noLabels nd NodeGroupNodeLabelKey of
                  None \<Rightarrow> (None, st, s1)
                | Some g \<Rightarrow>
                    (case getNG K cat Cached g s1 of
                       (Inl e, s2) \<Rightarrow> (IgnoreNotFound e, st, s2)
                     | (Inr ng, s2) \<Rightarrow>
                         if \<not> IsManaged ng then (None, st, s2)
                         else (case listNodes K cat [(NodeGroupNodeLabelKey, g)] s2 of
                                 (Inl e, s3) \<Rightarrow> (Some e, st, s3)
                               | (Inr siblings, s3) \<Rightarrow>
                                   if find (carriesID nd (ProviderID g)) siblings \<noteq> None
                                   then refuse_stamp K cat nd (st, s3)
                                   else stamp K cat nd g (st, s3)))))"

text \<open>The event filter: which nodes are reconciled at all.\<close>

definition needsProviderID :: "node \<Rightarrow> bool" where
  "needsProviderID nd \<longleftrightarrow> noLabels nd NodeGroupNodeLabelKey \<noteq> None \<and> noProviderID nd = ''''"

section \<open>What is ever written to a node\<close>

text \<open>The patch that is not a stamp: the node as it was, less one label it had.\<close>

definition strips :: "node \<Rightarrow> node \<Rightarrow> bool" where
  "strips old new \<longleftrightarrow>
     noProviderID old = '''' \<and> CoreNodePoolLabelKey \<in> dom (noLabels old) \<and>
     new = old\<lparr>noMeta := (noMeta old)\<lparr>omLabels := (noLabels old)(CoreNodePoolLabelKey := None)\<rparr>\<rparr>"

fun reading :: "effect \<Rightarrow> bool" where
  "reading (ReadNode rd n r) = True"
| "reading (ReadNG rd n r) = True"
| "reading (ListedNodes l r) = True"
| "reading (Logged m n) = True"
| "reading _ = False"

lemma reading_only: "reading e \<Longrightarrow> harmless e \<and> (\<forall>old new d. e \<noteq> PatchedNode old new d)"
  by (cases e) simp_all

text \<open>How a reconcile goes: it only reads, or it patches the node it read, once.\<close>

lemma pid_Reconcile_trace:
  assumes "pid_Reconcile K cat n (st, s) = (r, st', s')"
  obtains (reads) es where "trace s' = trace s @ es" "list_all reading es"
  | (patch) nd g ng sibs new d es logs where
      "trace s' = trace s @ [ReadNode Cached n (Inr nd), ReadNG Cached g (Inr ng),
         ListedNodes [(NodeGroupNodeLabelKey, g)] (Inr sibs)] @ logs @ [PatchedNode nd new d] @ es"
      "noLabels nd NodeGroupNodeLabelKey = Some g" "IsManaged ng" "noProviderID nd = ''''"
      "if find (carriesID nd (ProviderID g)) sibs \<noteq> None then strips nd new else new = nd\<lparr>noProviderID := ProviderID g\<rparr>"
      "list_all reading es" "list_all reading logs"
proof -
  obtain x s1 where x: "getNode K cat Cached n s = (x, s1)" by (meson surj_pair)
  have t1: "trace s1 = trace s @ [ReadNode Cached n x]" using x by (auto simp: getNode_def dest: trace_call)
  show thesis
  proof (cases "\<exists>nd g. x = Inr nd \<and> noProviderID nd = '''' \<and> noLabels nd NodeGroupNodeLabelKey = Some g")
    case False
    then have "s' = s1"
      using assms x by (auto simp: pid_Reconcile_def split: sum.splits if_splits option.splits)
    with t1 show ?thesis by (intro reads [of "[ReadNode Cached n x]"]) simp_all
  next
    case True
    then obtain nd g where nd: "x = Inr nd" "noProviderID nd = ''''" "noLabels nd NodeGroupNodeLabelKey = Some g"
      by blast
    obtain y s2 where y: "getNG K cat Cached g s1 = (y, s2)" by (meson surj_pair)
    have t2: "trace s2 = trace s1 @ [ReadNG Cached g y]" using y by (auto simp: getNG_def dest: trace_call)
    obtain z s3 where z: "listNodes K cat [(NodeGroupNodeLabelKey, g)] s2 = (z, s3)" by (meson surj_pair)
    have t3: "trace s3 = trace s2 @ [ListedNodes [(NodeGroupNodeLabelKey, g)] z]"
      using z by (auto simp: listNodes_def dest: trace_call)
    note run = assms [unfolded pid_Reconcile_def Let_def prod.case x nd(1) sum.case, simplified nd(2,3), simplified]
    show ?thesis
    proof (cases "\<exists>ng sibs. y = Inr ng \<and> IsManaged ng \<and> z = Inr sibs")
      case False
      then have "s' = s2 \<or> s' = s3"
        using run y z by (auto split: sum.splits if_splits)
      then show ?thesis
        using t1 t2 t3 reads [of "[ReadNode Cached n x, ReadNG Cached g y]"]
          reads [of "[ReadNode Cached n x, ReadNG Cached g y, ListedNodes [(NodeGroupNodeLabelKey, g)] z]"] by auto
    next
      case True
      then obtain ng sibs where ng: "y = Inr ng" "IsManaged ng" "z = Inr sibs" by blast
      let ?reads = "[ReadNode Cached n (Inr nd), ReadNG Cached g (Inr ng),
         ListedNodes [(NodeGroupNodeLabelKey, g)] (Inr sibs)]"
      have t: "trace s3 = trace s @ ?reads" using t1 t2 t3 nd(1) ng by simp
      show ?thesis
      proof (cases "find (carriesID nd (ProviderID g)) sibs = None")
        case True
        then have st: "stamp K cat nd g (st, s3) = (r, st', s')"
          using run y z ng by simp
        obtain d s4 where d: "patchNode K cat nd (nd\<lparr>noProviderID := ProviderID g\<rparr>) s3 = (d, s4)" by (meson surj_pair)
        have "trace s' = trace s3 @ [PatchedNode nd (nd\<lparr>noProviderID := ProviderID g\<rparr>) d]"
          using st d by (auto simp: stamp_def patchNode_def Let_def dest: trace_call)
        with t True nd ng show ?thesis
          by (intro patch [of nd g ng sibs "[]" "nd\<lparr>noProviderID := ProviderID g\<rparr>" d "[]"]) simp_all
      next
        case False
        then have rs: "refuse_stamp K cat nd (st, s3) = (r, st', s')"
          using run y z ng by auto
        obtain st4 s4 logs where l: "refuse_stamp K cat nd (st, s3) = stripNodePoolLabel K cat nd (st4, s4)"
            "trace s4 = trace s3 @ logs" "list_all reading logs"
          by (cases "noName nd \<in> set (piResized st)") (auto simp: refuse_stamp_def)
        show ?thesis
        proof (cases "noLabels nd CoreNodePoolLabelKey")
          case None
          then have "s' = s4" using rs l(1) by (simp add: stripNodePoolLabel_def)
          then show ?thesis
            using t l reads [of "?reads @ logs"] by (auto simp: list_all_iff)
        next
          case (Some v)
          let ?new = "nd\<lparr>noMeta := (noMeta nd)\<lparr>omLabels := (noLabels nd)(CoreNodePoolLabelKey := None)\<rparr>\<rparr>"
          obtain d s5 where d: "patchNode K cat nd ?new s4 = (d, s5)" by (meson surj_pair)
          have t5: "trace s5 = trace s4 @ [PatchedNode nd ?new d]" using d by (auto simp: patchNode_def dest: trace_call)
          have "\<exists>es. trace s' = trace s5 @ es \<and> list_all reading es"
            using rs l(1) d Some by (auto simp: stripNodePoolLabel_def Let_def split: option.splits if_splits)
          then obtain es where es: "trace s' = trace s5 @ es" "list_all reading es" by blast
          have "strips nd ?new" using nd(2) Some by (auto simp: strips_def)
          with False t t5 es l nd ng show ?thesis
            by (intro patch [of nd g ng sibs logs ?new d es]) simp_all
        qed
      qed
    qed
  qed
qed

lemma find_carriesID:
  "find (carriesID nd pid) sibs \<noteq> None \<longleftrightarrow>
     (\<exists>sib \<in> set sibs. noName sib \<noteq> noName nd \<and> noProviderID sib = pid)"
  by (auto simp: find_None_iff carriesID_def)

abbreviation node_patch :: "effect \<Rightarrow> bool" where
  "node_patch e \<equiv> \<exists>old new d. e = PatchedNode old new d"

lemma reading_no_patch:
  assumes "list_all reading es"
  shows "filter node_patch es = []" "list_all (\<lambda>e. harmless e \<or> node_patch e) es" "PatchedNode old new d \<notin> set es"
proof -
  have r: "harmless e \<and> \<not> node_patch e" if "e \<in> set es" for e using assms that by (simp add: list_all_iff reading_only)
  then show "filter node_patch es = []" "list_all (\<lambda>e. harmless e \<or> node_patch e) es"
    unfolding filter_empty_conv list_all_iff by blast+
  show "PatchedNode old new d \<notin> set es" using r by blast
qed

text \<open>
  C28. A node is patched only in two ways. Before any patch the controller read the node without a
  provider ID, read the group its label names as managed, and listed the group's nodes uncached. If
  another listed node carries the group's ID, the patch removes the nodepool label and nothing
  else; if none does, it sets the ID of that very group and nothing else. There is at most one
  patch per reconcile, and no other write at all.
\<close>

theorem node_patches_are_confirmed:
  assumes "pid_Reconcile K cat n (st, s) = (r, st', s')"
  shows "length (filter (\<lambda>e. \<exists>old new d. e = PatchedNode old new d) (did s s')) \<le> 1 \<and>
    list_all (\<lambda>e. harmless e \<or> (\<exists>old new d. e = PatchedNode old new d)) (did s s') \<and>
    (\<forall>old new d. PatchedNode old new d \<in> set (did s s') \<longrightarrow>
       noProviderID old = '''' \<and>
       (\<exists>g ng sibs. noLabels old NodeGroupNodeLabelKey = Some g \<and> IsManaged ng \<and>
          ReadNG Cached g (Inr ng) \<in> set (did s s') \<and>
          ListedNodes [(NodeGroupNodeLabelKey, g)] (Inr sibs) \<in> set (did s s') \<and>
          (if \<exists>sib \<in> set sibs. noName sib \<noteq> noName old \<and> noProviderID sib = ProviderID g
           then strips old new else new = old\<lparr>noProviderID := ProviderID g\<rparr>)))"
  using assms
proof (cases rule: pid_Reconcile_trace)
  case (reads es)
  then have "did s s' = es" by (simp add: did_def)
  then show ?thesis using reading_no_patch [OF reads(2)] by simp
next
  case (patch nd g ng sibs new d es logs)
  let ?reads = "[ReadNode Cached n (Inr nd), ReadNG Cached g (Inr ng), ListedNodes [(NodeGroupNodeLabelKey, g)] (Inr sibs)]"
  have did: "did s s' = ?reads @ logs @ [PatchedNode nd new d] @ es" using patch by (simp add: did_def)
  note quiet = reading_no_patch [OF patch(6)] reading_no_patch [OF patch(7)]
  have "noLabels nd NodeGroupNodeLabelKey = Some g \<and> IsManaged ng \<and> ReadNG Cached g (Inr ng) \<in> set (did s s') \<and>
      ListedNodes [(NodeGroupNodeLabelKey, g)] (Inr sibs) \<in> set (did s s') \<and>
      (if \<exists>sib \<in> set sibs. noName sib \<noteq> noName nd \<and> noProviderID sib = ProviderID g
       then strips nd new else new = nd\<lparr>noProviderID := ProviderID g\<rparr>)"
    using patch(2,3,5) unfolding find_carriesID did by simp
  moreover have "old = nd \<and> new' = new" if "PatchedNode old new' d' \<in> set (did s s')" for old new' d'
    using that quiet(3,6) unfolding did by simp
  moreover have "length (filter node_patch (did s s')) \<le> 1" "list_all (\<lambda>e. harmless e \<or> node_patch e) (did s s')"
    unfolding did using quiet(1,2,4,5) by simp_all
  ultimately show ?thesis using patch(4) by blast
qed

section \<open>The cluster\<close>

text \<open>
  The nodes as the API server stores them. \<open>view\<close> is what the cache shows and may be stale; \<open>groups\<close> are
  the NodeGroups; \<open>move\<close> is what the environment does between the uncached list and the patch. A
  merge patch writes the fields that differ between the object read and the object sent.
\<close>

definition merge :: "node \<Rightarrow> node \<Rightarrow> node \<Rightarrow> node" where
  "merge old new nd =
     nd\<lparr>noProviderID := (if noProviderID new \<noteq> noProviderID old then noProviderID new else noProviderID nd),
        noMeta := (noMeta nd)\<lparr>omLabels :=
          (\<lambda>k. if noLabels new k \<noteq> noLabels old k then noLabels new k else noLabels nd k)\<rparr>\<rparr>"

definition patch_store :: "node \<Rightarrow> node \<Rightarrow> node list \<Rightarrow> node list" where
  "patch_store old new w = map (\<lambda>nd. if noName nd = noName old then merge old new nd else nd) w"

definition node_store ::
  "(name \<Rightarrow> api_error + node) \<Rightarrow> (name \<Rightarrow> api_error + nodegroup) \<Rightarrow> (node list \<Rightarrow> node list) \<Rightarrow> node list kube" where
  "node_store view groups move = silent\<lparr>
     kGetNode := \<lambda>rd n w. (view n, w),
     kGetNG := \<lambda>rd n w. (groups n, w),
     kListNodes := \<lambda>sel w. (Inr (filter (\<lambda>nd. \<forall>(k, v) \<in> set sel. noLabels nd k = Some v) w), w),
     kPatchNode := \<lambda>old new w. (if noName old \<in> noName ` set (move w) then None else Some NotFound,
       patch_store old new (move w))\<rparr>"

lemma node_store_simps [simp]:
  "kGetNode (node_store view groups move) rd n w = (view n, w)"
  "kGetNG (node_store view groups move) rd n w = (groups n, w)"
  "kListNodes (node_store view groups move) sel w =
     (Inr (filter (\<lambda>nd. \<forall>(k, v) \<in> set sel. noLabels nd k = Some v) w), w)"
  "kPatchNode (node_store view groups move) old new w =
     (if noName old \<in> noName ` set (move w) then None else Some NotFound, patch_store old new (move w))"
  by (simp_all add: node_store_def)

definition oursID :: "node \<Rightarrow> bool" where
  "oursID nd \<longleftrightarrow> (\<exists>g. noProviderID nd = ProviderID g)"

text \<open>
  What the environment may do between two steps: anything, but give a node one of our IDs. Nodes join and
  leave under any names, and a kubelet can rewrite the labels of its own node.
\<close>

definition env_step :: "node list \<Rightarrow> node list \<Rightarrow> bool" where
  "env_step w w' \<longleftrightarrow>
     distinct (map noName w') \<and>
     (\<forall>nd' \<in> set w'. oursID nd' \<longrightarrow> (\<exists>nd \<in> set w. noName nd = noName nd' \<and> noProviderID nd = noProviderID nd'))"

text \<open>The cache shows a node as it was at some time, under its name, or fails.\<close>

definition view_ok :: "(name \<Rightarrow> api_error + node) \<Rightarrow> node list list \<Rightarrow> bool" where
  "view_ok view h \<longleftrightarrow> (\<forall>n v. view n = Inr v \<longrightarrow> noName v = n \<and> (\<exists>w \<in> set h. v \<in> set w))"

text \<open>
  The states of a cluster, the latest first. When a reconcile patches nothing, what \<open>move\<close> did is undone:
  the environment steps from there with \<open>cluster_env\<close>.
\<close>

inductive cluster :: "node list list \<Rightarrow> bool" where
  cluster_init: "distinct (map noName w) \<Longrightarrow> (\<forall>nd \<in> set w. \<not> oursID nd) \<Longrightarrow> cluster [w]"
| cluster_env: "cluster (w # h) \<Longrightarrow> env_step w w' \<Longrightarrow> cluster (w' # w # h)"
| cluster_reconcile: "cluster (world s # h) \<Longrightarrow> env_step (world s) (move (world s)) \<Longrightarrow>
    view_ok view (world s # h) \<Longrightarrow>
    pid_Reconcile (node_store view groups move) cat n (st, s) = (r, st', s') \<Longrightarrow>
    cluster (world s' # move (world s) # world s # h)"

text \<open>A name whose nodes have had one nodegroup label, always the same.\<close>

definition steady :: "node list list \<Rightarrow> name \<Rightarrow> bool" where
  "steady h n \<longleftrightarrow>
     (\<forall>w \<in> set h. \<forall>w' \<in> set h. \<forall>nd \<in> set w. \<forall>nd' \<in> set w'. noName nd = n \<longrightarrow> noName nd' = n \<longrightarrow>
        noLabels nd NodeGroupNodeLabelKey = noLabels nd' NodeGroupNodeLabelKey)"

lemma steadyD:
  "steady h n \<Longrightarrow> w \<in> set h \<Longrightarrow> w' \<in> set h \<Longrightarrow> nd \<in> set w \<Longrightarrow> nd' \<in> set w' \<Longrightarrow> noName nd = n \<Longrightarrow> noName nd' = n \<Longrightarrow>
   noLabels nd NodeGroupNodeLabelKey = noLabels nd' NodeGroupNodeLabelKey"
  unfolding steady_def by blast

lemma steady_sub: "steady h n \<Longrightarrow> set h' \<subseteq> set h \<Longrightarrow> steady h' n"
  unfolding steady_def by (meson subsetD)

lemma steady_tail: "steady (w # h) n \<Longrightarrow> steady h n"
  by (erule steady_sub) auto

text \<open>Among the steady nodes, an ID names the label of its bearer and has one bearer.\<close>

definition unique_ids :: "node list \<Rightarrow> node list list \<Rightarrow> bool" where
  "unique_ids w h \<longleftrightarrow>
     distinct (map noName w) \<and>
     (\<forall>nd \<in> set w. \<forall>g. noProviderID nd = ProviderID g \<longrightarrow> steady (w # h) (noName nd) \<longrightarrow> noLabels nd NodeGroupNodeLabelKey = Some g) \<and>
     (\<forall>nd \<in> set w. \<forall>nd' \<in> set w. oursID nd \<longrightarrow> noProviderID nd = noProviderID nd' \<longrightarrow>
        steady (w # h) (noName nd) \<longrightarrow> steady (w # h) (noName nd') \<longrightarrow> noName nd = noName nd')"

lemma unique_idsD:
  assumes "unique_ids w h"
  shows "distinct (map noName w)"
    and "nd \<in> set w \<Longrightarrow> noProviderID nd = ProviderID g \<Longrightarrow> steady (w # h) (noName nd) \<Longrightarrow> noLabels nd NodeGroupNodeLabelKey = Some g"
    and "nd \<in> set w \<Longrightarrow> nd' \<in> set w \<Longrightarrow> noProviderID nd = ProviderID g \<Longrightarrow> noProviderID nd' = ProviderID g \<Longrightarrow>
      steady (w # h) (noName nd) \<Longrightarrow> steady (w # h) (noName nd') \<Longrightarrow> noName nd = noName nd'"
  using assms unfolding unique_ids_def oursID_def by (blast, blast, metis)

lemma unique_idsI:
  assumes "distinct (map noName w)"
    and "\<And>nd g. nd \<in> set w \<Longrightarrow> noProviderID nd = ProviderID g \<Longrightarrow> steady (w # h) (noName nd) \<Longrightarrow> noLabels nd NodeGroupNodeLabelKey = Some g"
    and "\<And>nd nd' g. nd \<in> set w \<Longrightarrow> nd' \<in> set w \<Longrightarrow> noProviderID nd = ProviderID g \<Longrightarrow> noProviderID nd' = ProviderID g \<Longrightarrow>
      steady (w # h) (noName nd) \<Longrightarrow> steady (w # h) (noName nd') \<Longrightarrow> noName nd = noName nd'"
  shows "unique_ids w h"
  using assms unfolding unique_ids_def oursID_def by metis

lemma world_store_calls:
  "getNode (node_store view groups move) cat rd n s = (x, s1) \<Longrightarrow> x = view n \<and> world s1 = world s"
  "getNG (node_store view groups move) cat rd n s = (y, s1) \<Longrightarrow> y = groups n \<and> world s1 = world s"
  "listNodes (node_store view groups move) cat sel s = (z, s1) \<Longrightarrow>
     z = Inr (filter (\<lambda>nd. \<forall>(k, v) \<in> set sel. noLabels nd k = Some v) (world s)) \<and> world s1 = world s"
  "patchNode (node_store view groups move) cat old new s = (d, s1) \<Longrightarrow>
     world s1 = patch_store old new (move (world s))"
  by (auto simp: run_defs Let_def)

lemma pid_world:
  assumes "pid_Reconcile (node_store view groups move) cat n (st, s) = (r, st', s')"
  shows "world s' = world s \<or> (\<exists>nd g new. view n = Inr nd \<and> noLabels nd NodeGroupNodeLabelKey = Some g \<and>
     noProviderID nd = '''' \<and> world s' = patch_store nd new (move (world s)) \<and>
     (strips nd new \<or> new = nd\<lparr>noProviderID := ProviderID g\<rparr> \<and>
        (\<forall>sib \<in> set (world s). noLabels sib NodeGroupNodeLabelKey = Some g \<longrightarrow>
           noName sib \<noteq> noName nd \<longrightarrow> noProviderID sib \<noteq> ProviderID g)))"
proof -
  let ?K = "node_store view groups move"
  obtain x s1 where x: "getNode ?K cat Cached n s = (x, s1)" by (meson surj_pair)
  have w1: "x = view n" "world s1 = world s" using world_store_calls(1) [OF x] by simp_all
  show ?thesis
  proof (cases "\<exists>nd g. x = Inr nd \<and> noProviderID nd = '''' \<and> noLabels nd NodeGroupNodeLabelKey = Some g")
    case False
    then have "s' = s1"
      using assms x by (auto simp: pid_Reconcile_def split: sum.splits if_splits option.splits)
    with w1 show ?thesis by simp
  next
    case True
    then obtain nd g where nd: "x = Inr nd" "noProviderID nd = ''''" "noLabels nd NodeGroupNodeLabelKey = Some g"
      by blast
    obtain y s2 where y: "getNG ?K cat Cached g s1 = (y, s2)" by (meson surj_pair)
    obtain z s3 where z: "listNodes ?K cat [(NodeGroupNodeLabelKey, g)] s2 = (z, s3)" by (meson surj_pair)
    have w2: "world s2 = world s" using world_store_calls(2) [OF y] w1 by simp
    have w3: "world s3 = world s" "z = Inr (filter (\<lambda>nd. noLabels nd NodeGroupNodeLabelKey = Some g) (world s))"
      using world_store_calls(3) [OF z] w2 by simp_all
    note run = assms [unfolded pid_Reconcile_def Let_def prod.case x nd(1) sum.case, simplified nd(2,3), simplified]
    let ?sibs = "filter (\<lambda>nd. noLabels nd NodeGroupNodeLabelKey = Some g) (world s)"
    consider "s' = s2" | "stamp ?K cat nd g (st, s3) = (r, st', s')" "find (carriesID nd (ProviderID g)) ?sibs = None"
      | "refuse_stamp ?K cat nd (st, s3) = (r, st', s')"
      using run y z w3(2) by (auto split: sum.splits if_splits option.splits)
    then show ?thesis
    proof cases
      case 1
      then show ?thesis using w2 by simp
    next
      case 2
      then have "world s' = patch_store nd (nd\<lparr>noProviderID := ProviderID g\<rparr>) (move (world s))"
        using w3 by (auto simp: stamp_def Let_def split: prod.splits dest!: world_store_calls(4))
      moreover have "\<forall>sib \<in> set (world s). noLabels sib NodeGroupNodeLabelKey = Some g \<longrightarrow>
           noName sib \<noteq> noName nd \<longrightarrow> noProviderID sib \<noteq> ProviderID g"
        using 2(2) find_carriesID [of nd "ProviderID g" ?sibs] by auto
      moreover have "view n = Inr nd" using nd(1) w1(1) by simp
      ultimately show ?thesis using nd(2,3)
        by (intro disjI2 exI [of _ nd] exI [of _ g] exI [of _ "nd\<lparr>noProviderID := ProviderID g\<rparr>"]) simp
    next
      case 3
      obtain st4 s4 where l: "refuse_stamp ?K cat nd (st, s3) = stripNodePoolLabel ?K cat nd (st4, s4)"
          "world s4 = world s"
        using w3(1) by (cases "noName nd \<in> set (piResized st)") (auto simp: refuse_stamp_def)
      show ?thesis
      proof (cases "noLabels nd CoreNodePoolLabelKey")
        case None
        then show ?thesis using 3 l by (simp add: stripNodePoolLabel_def)
      next
        case (Some v)
        let ?new = "nd\<lparr>noMeta := (noMeta nd)\<lparr>omLabels := (noLabels nd)(CoreNodePoolLabelKey := None)\<rparr>\<rparr>"
        obtain d s5 where d: "patchNode ?K cat nd ?new s4 = (d, s5)" by (meson surj_pair)
        have "world s' = world s5"
          using 3 l(1) d Some by (auto simp: stripNodePoolLabel_def Let_def split: option.splits if_splits)
        then have "world s' = patch_store nd ?new (move (world s))"
          using world_store_calls(4) [OF d] l(2) by simp
        moreover have "strips nd ?new" using nd(2) Some by (auto simp: strips_def)
        moreover have "view n = Inr nd" using nd(1) w1(1) by simp
        ultimately show ?thesis using nd(2,3)
          by (intro disjI2 exI [of _ nd] exI [of _ g] exI [of _ ?new]) simp
      qed
    qed
  qed
qed

lemma merge_simps [simp]: "noName (merge old new nd) = noName nd"
  by (simp add: merge_def)

lemma ProviderID_nonempty [simp]: "ProviderID g \<noteq> ''''" "'''' \<noteq> ProviderID g"
  by (simp_all add: ProviderID_def ProviderIDPrefix_def)

lemma ProviderID_inject [simp]: "ProviderID g = ProviderID h \<longleftrightarrow> g = h"
  by (simp add: ProviderID_def)

lemma core_key_neq [simp]:
  "CoreNodePoolLabelKey \<noteq> NodeGroupNodeLabelKey" "NodeGroupNodeLabelKey \<noteq> CoreNodePoolLabelKey"
  by (simp_all add: CoreNodePoolLabelKey_def NodeGroupNodeLabelKey_def)

lemma merge_strips:
  "strips old new \<Longrightarrow> noProviderID (merge old new nd) = noProviderID nd \<and>
     noLabels (merge old new nd) NodeGroupNodeLabelKey = noLabels nd NodeGroupNodeLabelKey"
  by (simp add: merge_def strips_def)

lemma merge_stamp:
  "noProviderID old = '''' \<Longrightarrow> noProviderID (merge old (old\<lparr>noProviderID := ProviderID g\<rparr>) nd) = ProviderID g \<and>
     noLabels (merge old (old\<lparr>noProviderID := ProviderID g\<rparr>) nd) = noLabels nd"
  by (simp add: merge_def)

lemma env_stays:
  assumes "env_step w w'" "nd' \<in> set w'" "noProviderID nd' = ProviderID g"
  shows "\<exists>nd \<in> set w. noName nd = noName nd' \<and> noProviderID nd = ProviderID g"
  using assms unfolding env_step_def oursID_def by metis

lemma unique_env:
  assumes "unique_ids w h" and "env_step w w'"
  shows "unique_ids w' (w # h)"
proof (rule unique_idsI)
  show "distinct (map noName w')" using assms(2) by (simp add: env_step_def)
next
  fix nd' g assume nd': "nd' \<in> set w'" "noProviderID nd' = ProviderID g" "steady (w' # w # h) (noName nd')"
  obtain nd where nd: "nd \<in> set w" "noName nd = noName nd'" "noProviderID nd = ProviderID g"
    using env_stays [OF assms(2) nd'(1,2)] by blast
  have "noLabels nd NodeGroupNodeLabelKey = Some g"
    using unique_idsD(2) [OF assms(1) nd(1,3)] steady_tail [OF nd'(3)] nd(2) by simp
  then show "noLabels nd' NodeGroupNodeLabelKey = Some g"
    using steadyD [OF nd'(3), of w w' nd nd'] nd nd'(1) by simp
next
  fix a b g assume ab: "a \<in> set w'" "b \<in> set w'" "noProviderID a = ProviderID g" "noProviderID b = ProviderID g"
    "steady (w' # w # h) (noName a)" "steady (w' # w # h) (noName b)"
  obtain a0 where a: "a0 \<in> set w" "noName a0 = noName a" "noProviderID a0 = ProviderID g"
    using env_stays [OF assms(2) ab(1,3)] by blast
  obtain b0 where b: "b0 \<in> set w" "noName b0 = noName b" "noProviderID b0 = ProviderID g"
    using env_stays [OF assms(2) ab(2,4)] by blast
  show "noName a = noName b"
    using unique_idsD(3) [OF assms(1) a(1) b(1) a(3) b(3)] steady_tail [OF ab(5)] steady_tail [OF ab(6)] a(2) b(2) by simp
qed

lemma names_patch: "map noName (patch_store old new w) = map noName w"
  by (induction w) (simp_all add: patch_store_def)

text \<open>Stripping a label is a change the environment could make as well.\<close>

lemma strip_is_env:
  assumes "distinct (map noName w)" and "strips old new"
  shows "env_step w (patch_store old new w)"
proof -
  have "\<exists>nd \<in> set w. noName nd = noName nd' \<and> noProviderID nd = noProviderID nd'" if nd': "nd' \<in> set (patch_store old new w)" for nd'
  proof -
    obtain nd where "nd \<in> set w" "nd' = (if noName nd = noName old then merge old new nd else nd)"
      using nd' by (auto simp: patch_store_def)
    with merge_strips [OF assms(2), of nd] show ?thesis by (intro bexI [of _ nd]) simp_all
  qed
  then show ?thesis using assms(1) by (simp add: env_step_def names_patch)
qed

lemma stamped_nodes:
  assumes "noProviderID old = ''''" and "nd' \<in> set (patch_store old (old\<lparr>noProviderID := ProviderID g\<rparr>) w)"
  shows "nd' \<in> set w \<and> noName nd' \<noteq> noName old \<or>
    (\<exists>nd \<in> set w. noName nd = noName old \<and> noName nd' = noName old \<and> noProviderID nd' = ProviderID g \<and> noLabels nd' = noLabels nd)"
proof -
  obtain nd where nd: "nd \<in> set w" "nd' = (if noName nd = noName old then merge old (old\<lparr>noProviderID := ProviderID g\<rparr>) nd else nd)"
    using assms(2) by (auto simp: patch_store_def)
  then show ?thesis using merge_stamp [OF assms(1), of g nd] by (cases "noName nd = noName old") auto
qed

text \<open>
  Stamping: the node is the one the cache showed with the label \<open>g\<close>; no other node that was listed with it
  had the ID.
\<close>

lemma unique_stamp:
  assumes u: "unique_ids w (w0 # h)" and env: "env_step w0 w" and old: "noProviderID old = ''''"
    and seen: "old \<in> set v" "v \<in> set (w0 # h)" "noLabels old NodeGroupNodeLabelKey = Some g"
    and u0: "unique_ids w0 h"
    and sib: "\<forall>sib \<in> set w0. noLabels sib NodeGroupNodeLabelKey = Some g \<longrightarrow> noName sib \<noteq> noName old \<longrightarrow> noProviderID sib \<noteq> ProviderID g"
  shows "unique_ids (patch_store old (old\<lparr>noProviderID := ProviderID g\<rparr>) w) (w # w0 # h)" (is "unique_ids ?w _")
proof -
  let ?h = "?w # w # w0 # h"
  note node = stamped_nodes [OF old, of _ g w]
  have other: "noProviderID b \<noteq> ProviderID g" if b: "b \<in> set w" "noName b \<noteq> noName old" "steady ?h (noName b)" for b
  proof
    assume id: "noProviderID b = ProviderID g"
    obtain b0 where b0: "b0 \<in> set w0" "noName b0 = noName b" "noProviderID b0 = ProviderID g"
      using env_stays [OF env b(1) id] by blast
    have "steady (w0 # h) (noName b0)" using steady_tail [OF steady_tail [OF b(3)]] b0(2) by simp
    from unique_idsD(2) [OF u0 b0(1,3) this] sib b0 b(2) show False by simp
  qed
  show ?thesis
  proof (rule unique_idsI)
    show "distinct (map noName ?w)" using unique_idsD(1) [OF u] by (simp add: names_patch)
  next
    fix nd' k assume nd': "nd' \<in> set ?w" "noProviderID nd' = ProviderID k" "steady ?h (noName nd')"
    from node [OF nd'(1)] show "noLabels nd' NodeGroupNodeLabelKey = Some k"
    proof (elim disjE conjE bexE)
      assume "nd' \<in> set w" then show ?thesis using unique_idsD(2) [OF u _ nd'(2)] steady_tail [OF nd'(3)] by simp
    next
      fix nd assume id: "noName nd' = noName old" "noProviderID nd' = ProviderID g"
      have "noLabels nd' NodeGroupNodeLabelKey = noLabels old NodeGroupNodeLabelKey"
        by (rule steadyD [OF nd'(3) _ _ nd'(1) seen(1) refl id(1) [symmetric]]) (use seen(2) in auto)
      then show ?thesis using id(2) nd'(2) seen(3) by simp
    qed
  next
    fix a b k assume ab: "a \<in> set ?w" "b \<in> set ?w" "noProviderID a = ProviderID k" "noProviderID b = ProviderID k"
      "steady ?h (noName a)" "steady ?h (noName b)"
    from node [OF ab(1)] node [OF ab(2)] show "noName a = noName b"
    proof (elim disjE conjE bexE)
      assume "a \<in> set w" "b \<in> set w"
      then show ?thesis using unique_idsD(3) [OF u _ _ ab(3,4)] steady_tail [OF ab(5)] steady_tail [OF ab(6)] by simp
    next
      fix nd assume "a \<in> set w" "noName a \<noteq> noName old" "noProviderID b = ProviderID g"
      then show ?thesis using other [of a] ab(3-5) by simp
    next
      fix nd assume "b \<in> set w" "noName b \<noteq> noName old" "noProviderID a = ProviderID g"
      then show ?thesis using other [of b] ab(3,4,6) by simp
    qed simp
  qed
qed

text \<open>A reconcile that patches nothing leaves the state it found.\<close>

lemma unique_back:
  assumes "unique_ids w h"
  shows "unique_ids w (m # w # h)"
proof -
  have sub: "steady (w # m # w # h) n \<Longrightarrow> steady (w # h) n" for n
    by (erule steady_sub) auto
  show ?thesis
  proof (rule unique_idsI)
    show "distinct (map noName w)" by (rule unique_idsD(1) [OF assms])
  next
    fix nd g assume "nd \<in> set w" "noProviderID nd = ProviderID g" "steady (w # m # w # h) (noName nd)"
    then show "noLabels nd NodeGroupNodeLabelKey = Some g" using unique_idsD(2) [OF assms] sub by blast
  next
    fix nd nd' g assume "nd \<in> set w" "nd' \<in> set w" "noProviderID nd = ProviderID g" "noProviderID nd' = ProviderID g"
      "steady (w # m # w # h) (noName nd)" "steady (w # m # w # h) (noName nd')"
    then show "noName nd = noName nd'" using unique_idsD(3) [OF assms] sub by blast
  qed
qed

lemma cluster_unique: "cluster (w # h) \<Longrightarrow> unique_ids w h"
proof (induction "w # h" arbitrary: w h rule: cluster.induct)
  case (cluster_init w)
  then show ?case by (auto simp: unique_ids_def oursID_def)
next
  case (cluster_env w h w')
  then show ?case by (blast intro: unique_env)
next
  case (cluster_reconcile s h move view groups cat n st r st' s')
  let ?w = "move (world s)"
  have u0: "unique_ids (world s) h" using cluster_reconcile by blast
  have u: "unique_ids ?w (world s # h)" using unique_env [OF u0 cluster_reconcile(3)] .
  have d: "distinct (map noName (world s))" "distinct (map noName ?w)" using unique_idsD(1) [OF u0] unique_idsD(1) [OF u] by simp_all
  from pid_world [OF cluster_reconcile(5)] show ?case
  proof (elim disjE exE conjE)
    assume same: "world s' = world s"
    show ?thesis unfolding same by (rule unique_back [OF u0])
  next
    fix nd g new
    assume "world s' = patch_store nd new ?w" "strips nd new"
    then show ?thesis using unique_env [OF u strip_is_env [OF d(2)]] by simp
  next
    fix nd g new
    assume nd: "view n = Inr nd" "noLabels nd NodeGroupNodeLabelKey = Some g" "noProviderID nd = ''''"
      "world s' = patch_store nd new ?w" "new = nd\<lparr>noProviderID := ProviderID g\<rparr>"
      and sib: "\<forall>sib \<in> set (world s). noLabels sib NodeGroupNodeLabelKey = Some g \<longrightarrow>
           noName sib \<noteq> noName nd \<longrightarrow> noProviderID sib \<noteq> ProviderID g"
    obtain v where "v \<in> set (world s # h)" "nd \<in> set v"
      using cluster_reconcile(4) nd(1) unfolding view_ok_def by blast
    then show ?thesis
      unfolding nd(4,5) using unique_stamp [OF u cluster_reconcile(3) nd(3) _ _ nd(2) u0 sib] by blast
  qed
qed

text \<open>
  C6. A provider ID identifies one node. Take any history of a cluster in which nodes join and leave,
  kubelets rewrite the labels of their nodes, nobody else gives a node one of our IDs, and this
  controller's reconciles run one at a time, each with a cache as stale as it may be and with the
  environment acting between its list and its patch. Then each node that carries one of our IDs, and has
  kept its nodegroup label, has the label of the group the ID names, and no other node that has kept
  its own carries that ID, whatever the nodes that were relabelled carry.
\<close>

theorem provider_ids_stay_unique:
  assumes "cluster (w # h)" and "nd \<in> set w" and "noProviderID nd = ProviderID g" and "steady (w # h) (noName nd)"
  shows "noLabels nd NodeGroupNodeLabelKey = Some g \<and>
    (\<forall>nd' \<in> set w. noProviderID nd' = ProviderID g \<longrightarrow> steady (w # h) (noName nd') \<longrightarrow> nd' = nd)"
proof -
  have u: "unique_ids w h" by (rule cluster_unique [OF assms(1)])
  have "inj_on noName (set w)" using unique_idsD(1) [OF u] by (simp add: distinct_map)
  then show ?thesis
    using unique_idsD(2) [OF u assms(2,3,4)] unique_idsD(3) [OF u _ assms(2) _ assms(3) _ assms(4)] assms(2) by (meson inj_onD)
qed

section \<open>An example stamping\<close>

definition fresh_node :: node where
  "fresh_node = \<lparr>noMeta = meta0\<lparr>omName := ''c1-node0'', omLabels := [NodeGroupNodeLabelKey \<mapsto> ''c1'']\<rparr>,
     noProviderID = '''', noCapacity = Map.empty, noAllocatable = Map.empty\<rparr>"

definition stamped_node :: node where
  "stamped_node = merge fresh_node (fresh_node\<lparr>noProviderID := ProviderID ''c1''\<rparr>) fresh_node"

definition pid0 :: pid_state where
  "pid0 = \<lparr>piResized = [], piStripped = []\<rparr>"

definition fresh_store :: "node list kube" where
  "fresh_store = node_store (\<lambda>n. if n = ''c1-node0'' then Inr fresh_node else Inl NotFound) (\<lambda>n. Inr example_group) (\<lambda>w. w)"

lemma fresh_node_facts [simp]:
  "noName fresh_node = ''c1-node0''" "noProviderID fresh_node = ''''"
  "noLabels fresh_node NodeGroupNodeLabelKey = Some ''c1''" "\<not> oursID fresh_node"
  by (simp_all add: fresh_node_def oursID_def)

lemma example_group_managed [simp]: "IsManaged example_group"
  by (simp add: IsManaged_def example_group_def meta0_def valOf_def key_neqs)

definition stamping :: "api_error option \<times> pid_state \<times> node list sys" where
  "stamping = pid_Reconcile fresh_store None ''c1-node0'' (pid0, start [fresh_node])"

lemma stamping_run:
  "pid_Reconcile fresh_store None ''c1-node0'' (pid0, start [fresh_node]) =
     (fst stamping, fst (snd stamping), snd (snd stamping))"
  by (simp add: stamping_def)

lemma stamping_world: "world (snd (snd stamping)) = [stamped_node]"
  by (simp add: stamping_def fresh_store_def pid_Reconcile_def run_defs start_def carriesID_def stamp_def
      patch_store_def stamped_node_def Let_def)

lemma stamping_did:
  "PatchedNode fresh_node (fresh_node\<lparr>noProviderID := ProviderID ''c1''\<rparr>) None \<in> set (did (start [fresh_node]) (snd (snd stamping)))"
  by (simp add: stamping_def fresh_store_def pid_Reconcile_def run_defs start_def carriesID_def stamp_def
      did_def Let_def)

theorem node_patches_are_confirmed_witness:
  "\<exists>ng. IsManaged ng \<and> ReadNG Cached ''c1'' (Inr ng) \<in> set (did (start [fresh_node]) (snd (snd stamping)))"
proof -
  obtain g ng where "noLabels fresh_node NodeGroupNodeLabelKey = Some g" "IsManaged ng"
      "ReadNG Cached g (Inr ng) \<in> set (did (start [fresh_node]) (snd (snd stamping)))"
    using node_patches_are_confirmed [OF stamping_run] stamping_did by blast
  then show ?thesis by auto
qed

lemma cluster_stamped: "cluster [[stamped_node], [fresh_node], [fresh_node]]"
proof -
  have init: "cluster [world (start [fresh_node])]"
    by (rule cluster_init) (simp_all add: start_def)
  have "cluster (world (snd (snd stamping)) # (\<lambda>w. w) (world (start [fresh_node])) # [world (start [fresh_node])])"
    by (rule cluster_reconcile [OF init _ _ stamping_run [unfolded fresh_store_def]])
       (auto simp: env_step_def view_ok_def start_def)
  then show ?thesis by (simp add: stamping_world start_def)
qed

lemma stamped_node_simps [simp]:
  "noProviderID stamped_node = ProviderID ''c1''" "noLabels stamped_node = noLabels fresh_node" "noName stamped_node = ''c1-node0''"
  unfolding stamped_node_def using merge_stamp [of fresh_node "''c1''" fresh_node] by simp_all

theorem provider_ids_stay_unique_witness:
  "noLabels stamped_node NodeGroupNodeLabelKey = Some ''c1''"
proof -
  have "steady [[stamped_node], [fresh_node], [fresh_node]] ''c1-node0''" by (simp add: steady_def)
  then show ?thesis using provider_ids_stay_unique [OF cluster_stamped, of stamped_node "''c1''"] by simp
qed

section \<open>A relabelled node\<close>

text \<open>
  Keeping the label is needed. The siblings are listed by the label, which a kubelet can rewrite: once
  the node that carries the ID of \<open>c1\<close> bears another label, a second node of \<open>c1\<close> is stamped with the
  same ID.
\<close>

definition strayed_node :: node where
  "strayed_node = stamped_node\<lparr>noMeta := (noMeta stamped_node)\<lparr>omLabels := [NodeGroupNodeLabelKey \<mapsto> ''c9'']\<rparr>\<rparr>"

definition second_node :: node where
  "second_node = fresh_node\<lparr>noMeta := (noMeta fresh_node)\<lparr>omName := ''c1-node1''\<rparr>\<rparr>"

definition strayed_store :: "node list kube" where
  "strayed_store = node_store (\<lambda>n. if n = ''c1-node1'' then Inr second_node else Inl NotFound) (\<lambda>n. Inr example_group) (\<lambda>w. w)"

lemma stray_simps [simp]:
  "noName second_node = ''c1-node1''" "noProviderID second_node = ''''" "noLabels second_node NodeGroupNodeLabelKey = Some ''c1''"
  "noName strayed_node = ''c1-node0''" "noProviderID strayed_node = ProviderID ''c1''"
  "noLabels strayed_node NodeGroupNodeLabelKey = Some ''c9''" "\<not> oursID second_node"
  by (simp_all add: second_node_def strayed_node_def oursID_def fresh_node_def)

definition restamping :: "api_error option \<times> pid_state \<times> node list sys" where
  "restamping = pid_Reconcile strayed_store None ''c1-node1'' (pid0, start [strayed_node, second_node])"

lemma relabelled_nodes_share_an_ID:
  "\<exists>h nd. cluster ([strayed_node, nd] # h) \<and> noName nd \<noteq> noName strayed_node \<and> noProviderID nd = noProviderID strayed_node"
proof -
  let ?h = "[[stamped_node], [fresh_node], [fresh_node]]"
  let ?nd = "merge second_node (second_node\<lparr>noProviderID := ProviderID ''c1''\<rparr>) second_node"
  have "cluster ([strayed_node, second_node] # ?h)"
    by (rule cluster_env [OF cluster_stamped]) (simp add: env_step_def)
  then have c: "cluster (world (start [strayed_node, second_node]) # ?h)" by (simp add: start_def)
  have w: "world (snd (snd restamping)) = [strayed_node, ?nd]"
    by (simp add: restamping_def strayed_store_def pid_Reconcile_def run_defs start_def carriesID_def stamp_def
        patch_store_def Let_def)
  have run: "pid_Reconcile strayed_store None ''c1-node1'' (pid0, start [strayed_node, second_node]) =
      (fst restamping, fst (snd restamping), snd (snd restamping))"
    by (simp add: restamping_def)
  have "cluster (world (snd (snd restamping)) # (\<lambda>w. w) (world (start [strayed_node, second_node])) #
      world (start [strayed_node, second_node]) # ?h)"
    by (rule cluster_reconcile [OF c _ _ run [unfolded strayed_store_def]])
       (auto simp: env_step_def view_ok_def start_def)
  moreover have "noName ?nd = ''c1-node1''" "noProviderID ?nd = ProviderID ''c1''"
    using merge_stamp [of second_node "''c1''" second_node] by simp_all
  ultimately show ?thesis unfolding w by (intro exI [of _ "_ # _ # ?h"] exI [of _ ?nd]) simp
qed

end
