(* ===== verification/NodeClassController.thy ===== *)
theory NodeClassController
  imports ProviderIdController
begin

text \<open>
  \<^verbatim>\<open>src/pkg/controllers/nodeclass/controller.go\<close>: validates a CleverNodeClass, probes the NodeGroup API,
  migrates the stamps of older hash generations, reports ignored labels, and holds the NodeClass while
  NodeClaims reference it. The status conditions are written through operatorpkg's condition set,
  a parameter (\<open>cond_ops\<close>); what the code relies on is \<open>lawful_conditions\<close>. A patch answers with the
  object as the server has it, which replaces the one in hand.
\<close>

section \<open>The condition set\<close>

record cond_ops =
  coTrue :: "string \<Rightarrow> conditions \<Rightarrow> conditions"
  coTrueReason :: "string \<Rightarrow> string \<Rightarrow> string list \<Rightarrow> conditions \<Rightarrow> bool \<times> conditions"
  coFalse :: "string \<Rightarrow> string \<Rightarrow> string \<Rightarrow> conditions \<Rightarrow> conditions"
  coClear :: "string \<Rightarrow> conditions \<Rightarrow> api_error option \<times> conditions"

definition ConditionTypeValidationSucceeded :: string where
  "ConditionTypeValidationSucceeded = ''ValidationSucceeded''"
definition ConditionTypeNodeGroupAPIServed :: string where
  "ConditionTypeNodeGroupAPIServed = ''NodeGroupAPIServed''"
definition ConditionTypeLabelsIgnored :: string where
  "ConditionTypeLabelsIgnored = ''LabelsIgnored''"
definition ConditionTypeDrifted :: string where
  "ConditionTypeDrifted = ''Drifted''"

text \<open>The dependents of readiness (\<^verbatim>\<open>NewReadyConditions\<close>).\<close>

definition readyDependents :: "string list" where
  "readyDependents = [ConditionTypeValidationSucceeded, ConditionTypeNodeGroupAPIServed]"

definition reasonOf :: "conditions \<Rightarrow> string \<Rightarrow> string option" where
  "reasonOf cs t = map_option cdReason (cs t)"

text \<open>
  The documented behaviour: setting or clearing a condition that is not the Ready summary affects no
  other condition but that summary; a set condition has the status and the reason it was given.
\<close>

definition lawful_conditions :: "cond_ops \<Rightarrow> bool" where
  "lawful_conditions ops \<longleftrightarrow>
     (\<forall>t cs. t \<noteq> ConditionTypeReady \<longrightarrow> IsTrue (coTrue ops t cs) t) \<and>
     (\<forall>t r m cs. t \<noteq> ConditionTypeReady \<longrightarrow> \<not> IsTrue (coFalse ops t r m cs) t) \<and>
     (\<forall>t r m cs. t \<noteq> ConditionTypeReady \<longrightarrow> reasonOf (snd (coTrueReason ops t r m cs)) t = Some r) \<and>
     (\<forall>t u cs. u \<noteq> t \<longrightarrow> u \<noteq> ConditionTypeReady \<longrightarrow> coTrue ops t cs u = cs u) \<and>
     (\<forall>t u r m cs. u \<noteq> t \<longrightarrow> u \<noteq> ConditionTypeReady \<longrightarrow> coFalse ops t r m cs u = cs u) \<and>
     (\<forall>t u r m cs. u \<noteq> t \<longrightarrow> u \<noteq> ConditionTypeReady \<longrightarrow> snd (coTrueReason ops t r m cs) u = cs u) \<and>
     (\<forall>t u cs. u \<noteq> t \<longrightarrow> u \<noteq> ConditionTypeReady \<longrightarrow> snd (coClear ops t cs) u = cs u)"

section \<open>Validation\<close>

text \<open>The text of a rejection is the library's; the condition's message is a parameter of the model.\<close>

definition validate_step ::
  "label_rules \<Rightarrow> (string \<times> string) list \<Rightarrow> string \<Rightarrow> string list \<times> label_error option \<Rightarrow> string list \<times> label_error option" where
  "validate_step R labels k acc =
     (let (ignored, err) = acc; v = valOf (map_of labels) k in
      case ValidateNodeClassLabel R k v of
        None \<Rightarrow> (ignored, err)
      | Some rejection \<Rightarrow>
          if IsLegacyNodeClassLabel k v then (ignored @ [k], err)
          else if err = None then (ignored, Some rejection)
          else (ignored, err))"

definition sortedKeys :: "(string \<times> string) list \<Rightarrow> string list" where
  "sortedKeys labels = sort (remdups (map fst labels))"

definition validate_class :: "label_rules \<Rightarrow> class_spec \<Rightarrow> string list \<times> label_error option" where
  "validate_class R spec =
     fold (validate_step R (labelsOf spec)) (sortedKeys (labelsOf spec)) ([], None)"

section \<open>The hash migration\<close>

definition pendingUnknown :: int where
  "pendingUnknown = - 1"

definition hashMigrationRecheck :: duration where
  "hashMigrationRecheck = minute"

declare hashMigrationRecheck_def [dur_defs]

definition nodeClaimDrifted ::
  "provider_env \<Rightarrow> 'w kube \<Rightarrow> nodegroup \<Rightarrow> 'w sys \<Rightarrow> (api_error + bool) \<times> 'w sys" where
  "nodeClaimDrifted E K ng s =
     (case getClaim K (peCatalogue E) Cached (claimNameOf ng) s of
        (Inl e, s1) \<Rightarrow> if e = NotFound then (Inr False, s1) else (Inl e, s1)
      | (Inr claim, s1) \<Rightarrow> (Inr (ncConditions claim ConditionTypeDrifted \<noteq> None), s1))"

definition restamp :: "provider_env \<Rightarrow> nodeclass \<Rightarrow> nodegroup \<Rightarrow> nodegroup" where
  "restamp E class ng =
     ng\<lparr>ngMeta := (ngMeta ng)\<lparr>omAnnotations := (omAnnotations (ngMeta ng))
       (NodeClassHashLabelKey \<mapsto> Hash (peRules E) (peHash E) (clLabels class),
        NodeClassHashVersionAnnotationKey \<mapsto> NodeClassHashVersion)\<rparr>\<rparr>"

text \<open>One iteration: \<open>(pending, errs)\<close> and the state.\<close>

definition migrate_step ::
  "provider_env \<Rightarrow> 'w kube \<Rightarrow> nodeclass \<Rightarrow> nodegroup \<Rightarrow> (int \<times> api_error list) \<times> 'w sys \<Rightarrow>
   (int \<times> api_error list) \<times> 'w sys" where
  "migrate_step E K class ng acc =
     (let ((pending, errs), s) = acc;
          annotations = omAnnotations (ngMeta ng);
          version = valOf annotations NodeClassHashVersionAnnotationKey in
      if version = NodeClassHashVersion then acc
      else case annotations NodeClassHashLabelKey of
        None \<Rightarrow> acc
      | Some hash \<Rightarrow>
          (let (match, known) = HashMatches (peRules E) (peHash E) (clLabels class) version hash in
           if \<not> known then acc
           else if \<not> match then ((pending + 1, errs), s)
           else case nodeClaimDrifted E K ng s of
                  (Inl e, s1) \<Rightarrow> ((pending + 1, errs @ [e]), s1)
                | (Inr drifted, s1) \<Rightarrow>
                    if drifted then ((pending + 1, errs), s1)
                    else case patchNG K (peCatalogue E) ng (restamp E class ng) s1 of
                           (Some e, s2) \<Rightarrow>
                             if e \<noteq> NotFound then ((pending + 1, errs @ [e]), s2) else ((pending, errs), s2)
                         | (None, s2) \<Rightarrow> ((pending, errs), s2)))"

definition migrateHashVersion ::
  "provider_env \<Rightarrow> 'w kube \<Rightarrow> nodeclass \<Rightarrow> 'w sys \<Rightarrow> (int \<times> api_error list) \<times> 'w sys" where
  "migrateHashVersion E K class s =
     (case listNG K (peCatalogue E) [(ManagedLabelKey, ''true''), (NodeClassLabelKey, clName class)] s of
        (Inl e, s1) \<Rightarrow> ((pendingUnknown, [e]), s1)
      | (Inr ngs, s1) \<Rightarrow> fold (migrate_step E K class) ngs ((0, []), s1))"

section \<open>Ignored labels\<close>

definition ignoredReason :: "int \<Rightarrow> string" where
  "ignoredReason pending =
     (if pending = pendingUnknown then ''HashMigrationPending''
      else if 0 < pending then ''HashMigrationPending''
      else ''LegacyLabelKeys'')"

text \<open>The values the advice interpolates, after a tag for its wording.\<close>

definition ignoredAdvice :: "int \<Rightarrow> string list" where
  "ignoredAdvice pending =
     (if pending = pendingUnknown then [''unknown'', NodeClassHashVersion, NodeClassHashVersionAnnotationKey]
      else if 0 < pending then [''pending'', dec_int pending, NodeClassHashVersion, NodeClassHashVersionAnnotationKey]
      else [''none''])"

definition reportIgnoredLabels ::
  "cond_ops \<Rightarrow> nodeclass \<Rightarrow> string list \<Rightarrow> int \<Rightarrow> 'w sys \<Rightarrow> api_error option \<times> nodeclass \<times> 'w sys" where
  "reportIgnoredLabels C class ignored pending s =
     (if length ignored = 0 then
        let (e, cs) = coClear C ConditionTypeLabelsIgnored (clConditions class)
        in (e, class\<lparr>clConditions := cs\<rparr>, s)
      else
        let reason = ignoredReason pending;
            msg = join '', '' ignored # ignoredAdvice pending;
            (changed, cs) = coTrueReason C ConditionTypeLabelsIgnored reason msg (clConditions class)
        in (None, class\<lparr>clConditions := cs\<rparr>,
            emit (Publish \<lparr>evOn = OnClass (clName class), evWarning = True, evReason = ''LabelsIgnored'',
                           evArgs = msg, evDedupe = [clName class, reason] @ ignored\<rparr>) s))"

section \<open>Finalizers\<close>

definition AddFinalizer :: "string \<Rightarrow> nodeclass \<Rightarrow> bool \<times> nodeclass" where
  "AddFinalizer f class =
     (if f \<in> set (omFinalizers (clMeta class)) then (False, class)
      else (True, class\<lparr>clMeta := (clMeta class)\<lparr>omFinalizers := omFinalizers (clMeta class) @ [f]\<rparr>\<rparr>))"

definition RemoveFinalizer :: "string \<Rightarrow> nodeclass \<Rightarrow> nodeclass" where
  "RemoveFinalizer f class =
     class\<lparr>clMeta := (clMeta class)\<lparr>omFinalizers := removeAll f (omFinalizers (clMeta class))\<rparr>\<rparr>"

type_synonym class_result = "api_error list + duration option"

definition ignoring_NotFound :: "api_error \<Rightarrow> class_result" where
  "ignoring_NotFound e = (case IgnoreNotFound e of None \<Rightarrow> Inr None | Some e' \<Rightarrow> Inl [e'])"

definition references :: "nodeclass \<Rightarrow> nodeclaim \<Rightarrow> bool" where
  "references class claim \<longleftrightarrow> (case ncClassRef claim of None \<Rightarrow> False | Some r \<Rightarrow> crName r = clName class)"

definition finalize ::
  "provider_env \<Rightarrow> 'w kube \<Rightarrow> nodeclass \<Rightarrow> 'w sys \<Rightarrow> class_result \<times> 'w sys" where
  "finalize E K class s =
     (if TerminationFinalizer \<notin> set (omFinalizers (clMeta class)) then (Inr None, s)
      else case listClaims K (peCatalogue E) s of
        (Inl e, s1) \<Rightarrow> (Inl [e], s1)
      | (Inr claims, s1) \<Rightarrow>
          if find (references class) claims \<noteq> None then (Inr (Some (30 * second)), s1)
          else case patchClass K (peCatalogue E) class (RemoveFinalizer TerminationFinalizer class) s1 of
                 (Inl e, s2) \<Rightarrow> (ignoring_NotFound e, s2)
               | (Inr _, s2) \<Rightarrow> (Inr None, s2))"

section \<open>Reconcile\<close>

text \<open>
  The part after the finalizer is in place. \<open>rejection_text\<close> and \<open>probe_text\<close> render the two errors that
  go into condition messages.
\<close>

definition class_conditions ::
  "provider_env \<Rightarrow> cond_ops \<Rightarrow> (label_error \<Rightarrow> string) \<Rightarrow> nodeclass \<Rightarrow> string list \<times> nodeclass" where
  "class_conditions E C rejection_text class =
     (let (ignored, err) = validate_class (peRules E) (clLabels class)
      in (ignored, class\<lparr>clConditions :=
            (case err of
               Some e \<Rightarrow> coFalse C ConditionTypeValidationSucceeded ''ValidationFailed'' (rejection_text e) (clConditions class)
             | None \<Rightarrow> coTrue C ConditionTypeValidationSucceeded (clConditions class))\<rparr>))"

definition probe_api ::
  "provider_env \<Rightarrow> 'w kube \<Rightarrow> cond_ops \<Rightarrow> (api_error \<Rightarrow> string) \<Rightarrow> nodeclass \<Rightarrow> 'w sys \<Rightarrow> bool \<times> nodeclass \<times> 'w sys" where
  "probe_api E K C probe_text class s =
     (case listNG K (peCatalogue E) [] s of
        (Inl e, s1) \<Rightarrow> (False, class\<lparr>clConditions := coFalse C ConditionTypeNodeGroupAPIServed
            ''NodeGroupAPIUnavailable'' (probe_text e) (clConditions class)\<rparr>, s1)
      | (Inr _, s1) \<Rightarrow> (True, class\<lparr>clConditions := coTrue C ConditionTypeNodeGroupAPIServed (clConditions class)\<rparr>, s1))"

definition class_status ::
  "provider_env \<Rightarrow> 'w kube \<Rightarrow> cond_ops \<Rightarrow> (label_error \<Rightarrow> string) \<Rightarrow> (api_error \<Rightarrow> string) \<Rightarrow> nodeclass \<Rightarrow>
   'w sys \<Rightarrow> class_result \<times> 'w sys" where
  "class_status E K C rejection_text probe_text stored s =
     (let (ignored, class1) = class_conditions E C rejection_text stored;
          (apiServed, class2, s1) = probe_api E K C probe_text class1 s;
          ((pending, migrationErr), s2) =
            (if apiServed then migrateHashVersion E K class2 s1 else ((pendingUnknown, []), s1))
      in case reportIgnoredLabels C class2 ignored pending s2 of
           (Some e, class3, s3) \<Rightarrow> (Inl [e], s3)
         | (None, class3, s3) \<Rightarrow>
             (let rest = (if \<not> apiServed then Inr (Some minute)
                          else if migrationErr \<noteq> [] then Inl migrationErr
                          else if 0 < length ignored \<and> 0 < pending then Inr (Some hashMigrationRecheck)
                          else Inr None)
              in if stored \<noteq> class3 then
                   (case patchClassStatus K (peCatalogue E) stored class3 s3 of
                      (Some e, s4) \<Rightarrow>
                        if e = Conflict then (Inr (Some second), s4) else (ignoring_NotFound e, s4)
                    | (None, s4) \<Rightarrow> (rest, s4))
                 else (rest, s3)))"

definition class_Reconcile ::
  "provider_env \<Rightarrow> 'w kube \<Rightarrow> cond_ops \<Rightarrow> (label_error \<Rightarrow> string) \<Rightarrow> (api_error \<Rightarrow> string) \<Rightarrow> name \<Rightarrow>
   'w sys \<Rightarrow> class_result \<times> 'w sys" where
  "class_Reconcile E K C rejection_text probe_text n s =
     (case getClass K (peCatalogue E) Cached n s of
        (Inl e, s1) \<Rightarrow> (ignoring_NotFound e, s1)
      | (Inr class, s1) \<Rightarrow>
          if clTerminating class then finalize E K class s1
          else (case AddFinalizer TerminationFinalizer class of
                  (False, _) \<Rightarrow> class_status E K C rejection_text probe_text class s1
                | (True, class1) \<Rightarrow>
                    (case patchClass K (peCatalogue E) class class1 s1 of
                       (Inl e, s2) \<Rightarrow> (ignoring_NotFound e, s2)
                     | (Inr class2, s2) \<Rightarrow> class_status E K C rejection_text probe_text class2 s2)))"

section \<open>Validation decides delivery\<close>

definition rejected_legacy :: "label_rules \<Rightarrow> (string \<times> string) list \<Rightarrow> string \<Rightarrow> bool" where
  "rejected_legacy R labels k \<longleftrightarrow>
     ValidateNodeClassLabel R k (valOf (map_of labels) k) \<noteq> None \<and> IsLegacyNodeClassLabel k (valOf (map_of labels) k)"

definition rejected_now :: "label_rules \<Rightarrow> (string \<times> string) list \<Rightarrow> string \<Rightarrow> bool" where
  "rejected_now R labels k \<longleftrightarrow>
     ValidateNodeClassLabel R k (valOf (map_of labels) k) \<noteq> None \<and> \<not> IsLegacyNodeClassLabel k (valOf (map_of labels) k)"

lemma fold_validate:
  "fold (validate_step R labels) ks (ig, err) =
     (ig @ filter (rejected_legacy R labels) ks,
      if err \<noteq> None then err
      else case find (rejected_now R labels) ks of
             None \<Rightarrow> None | Some k \<Rightarrow> ValidateNodeClassLabel R k (valOf (map_of labels) k))"
proof (induction ks arbitrary: ig err)
  case (Cons k ks)
  then show ?case
    by (cases "ValidateNodeClassLabel R k (valOf (map_of labels) k)";
        cases "IsLegacyNodeClassLabel k (valOf (map_of labels) k)")
       (simp_all add: validate_step_def rejected_legacy_def [of R labels k] rejected_now_def [of R labels k] Let_def)
qed simp

lemma validate_class_eq:
  "validate_class R spec =
     (filter (rejected_legacy R (labelsOf spec)) (sortedKeys (labelsOf spec)),
      case find (rejected_now R (labelsOf spec)) (sortedKeys (labelsOf spec)) of
        None \<Rightarrow> None | Some k \<Rightarrow> ValidateNodeClassLabel R k (valOf (map_of (labelsOf spec)) k))"
  by (simp add: validate_class_def fold_validate)

lemma set_sortedKeys [simp]: "set (sortedKeys l) = fst ` set l"
  by (simp add: sortedKeys_def)

lemma valOf_map_of: "distinct (map fst l) \<Longrightarrow> (k, v) \<in> set l \<Longrightarrow> valOf (map_of l) k = v"
  by (simp add: valOf_def)

lemma validate_err:
  "snd (validate_class R spec) = None \<longleftrightarrow> (\<forall>k \<in> fst ` set (labelsOf spec). \<not> rejected_now R (labelsOf spec) k)"
proof (cases "find (rejected_now R (labelsOf spec)) (sortedKeys (labelsOf spec))")
  case None
  then have "\<forall>k \<in> set (sortedKeys (labelsOf spec)). \<not> rejected_now R (labelsOf spec) k"
    by (simp add: find_None_iff)
  with None show ?thesis by (simp add: validate_class_eq)
next
  case (Some k)
  then have "rejected_now R (labelsOf spec) k" "k \<in> fst ` set (labelsOf spec)"
    by (auto simp: find_Some_iff dest!: nth_mem)
  with Some show ?thesis by (auto simp: validate_class_eq rejected_now_def)
qed

text \<open>
  C39. Validation leaves nothing to be dropped silently. It succeeds exactly when every label either
  passes the shared rule or is a legacy key, the tolerated legacy keys are returned sorted and
  without repetition, and a NodeClass that validates with none of them has every single one of its
  labels delivered to its nodes.
\<close>

theorem validation_decides_delivery:
  assumes "distinct (map fst (labelsOf spec))"
  shows "(snd (validate_class R spec) = None \<longleftrightarrow>
      (\<forall>(k, v) \<in> set (labelsOf spec). ValidateNodeClassLabel R k v = None \<or> IsLegacyNodeClassLabel k v)) \<and>
    sorted (fst (validate_class R spec)) \<and> distinct (fst (validate_class R spec)) \<and>
    set (fst (validate_class R spec)) =
      {k. \<exists>v. (k, v) \<in> set (labelsOf spec) \<and> ValidateNodeClassLabel R k v \<noteq> None \<and> IsLegacyNodeClassLabel k v} \<and>
    (validate_class R spec = ([], None) \<longrightarrow> delivered R spec = map_of (labelsOf spec))"
proof -
  note v = valOf_map_of [OF assms]
  have ok: "snd (validate_class R spec) = None \<longleftrightarrow>
      (\<forall>(k, v) \<in> set (labelsOf spec). ValidateNodeClassLabel R k v = None \<or> IsLegacyNodeClassLabel k v)"
    unfolding validate_err by (auto simp: rejected_now_def v)
  have ig: "set (fst (validate_class R spec)) =
      {k. \<exists>v. (k, v) \<in> set (labelsOf spec) \<and> ValidateNodeClassLabel R k v \<noteq> None \<and> IsLegacyNodeClassLabel k v}"
    by (auto simp: validate_class_eq rejected_legacy_def v) (force intro: rev_image_eqI)
  have "delivered R spec = map_of (labelsOf spec)" if all: "validate_class R spec = ([], None)"
  proof -
    have "ValidateNodeClassLabel R k v = None" if kv: "(k, v) \<in> set (labelsOf spec)" for k v
    proof -
      have "ValidateNodeClassLabel R k v = None \<or> IsLegacyNodeClassLabel k v"
        using ok kv all by auto
      moreover have "\<not> (ValidateNodeClassLabel R k v \<noteq> None \<and> IsLegacyNodeClassLabel k v)"
        using ig kv all by auto
      ultimately show ?thesis by blast
    qed
    then have "filter (\<lambda>(k, v). ValidateNodeClassLabel R k v = None) (labelsOf spec) = labelsOf spec"
      by (intro filter_True) auto
    then show ?thesis by (simp add: delivered_def)
  qed
  moreover have "sorted (sortedKeys (labelsOf spec))" "distinct (sortedKeys (labelsOf spec))"
    by (simp_all add: sortedKeys_def)
  then have "sorted (fst (validate_class R spec))" "distinct (fst (validate_class R spec))"
    by (simp_all add: validate_class_eq sorted_filter [where f = id, simplified])
  ultimately show ?thesis using ok ig by blast
qed

theorem validation_decides_delivery_witness:
  "delivered example_rules (Some [(''team'', ''a'')]) = [''team'' \<mapsto> ''a'']"
proof -
  have "validate_class example_rules (Some [(''team'', ''a'')]) = ([], None)"
    by (simp add: validate_class_def sortedKeys_def validate_step_def labelsOf_def ValidateNodeClassLabel_def
        inKubernetesIODomain_def inKarpenterDomain_def CoreGroup_def HasPrefix_def example_rules_def valOf_def)
  then show ?thesis
    using validation_decides_delivery [of "Some [(''team'', ''a'')]" example_rules]
    by (simp add: labelsOf_def)
qed

section \<open>The migration and drift\<close>

definition stampOf :: "nodegroup \<Rightarrow> string" where
  "stampOf ng = valOf (omAnnotations (ngMeta ng)) NodeClassHashLabelKey"

definition versionOf :: "nodegroup \<Rightarrow> string" where
  "versionOf ng = valOf (omAnnotations (ngMeta ng)) NodeClassHashVersionAnnotationKey"

text \<open>The verdict of drift on a group: whether its stamp matches, if its generation is known.\<close>

definition stampMatches :: "provider_env \<Rightarrow> nodeclass \<Rightarrow> nodegroup \<Rightarrow> bool \<times> bool" where
  "stampMatches E class ng = HashMatches (peRules E) (peHash E) (clLabels class) (versionOf ng) (stampOf ng)"

text \<open>A group whose stamp the migration has still to replace or to leave.\<close>

definition outdated :: "provider_env \<Rightarrow> nodeclass \<Rightarrow> nodegroup \<Rightarrow> bool" where
  "outdated E class ng \<longleftrightarrow>
     versionOf ng \<noteq> NodeClassHashVersion \<and> omAnnotations (ngMeta ng) NodeClassHashLabelKey \<noteq> None \<and>
     snd (stampMatches E class ng)"

definition migrate_justifies ::
  "provider_env \<Rightarrow> nodeclass \<Rightarrow> nodegroup list \<Rightarrow> effect list \<Rightarrow> effect \<Rightarrow> bool" where
  "migrate_justifies E class ngs xs e =
     (case e of
        PatchedNG old new d \<Rightarrow>
          old \<in> set ngs \<and> new = restamp E class old \<and> outdated E class old \<and>
          stampMatches E class old = (True, True) \<and>
          (\<exists>r. ReadClaim Cached (claimNameOf old) r \<in> set xs \<and>
             (r = Inl NotFound \<or> (\<exists>c. r = Inr c \<and> ncConditions c ConditionTypeDrifted = None)))
      | ReadClaim rd _ _ \<Rightarrow> rd = Cached
      | _ \<Rightarrow> False)"

lemma grows_migrate: "grows (migrate_justifies E class ngs)"
proof (rule growsI)
  fix xs ys e
  assume "set xs \<subseteq> set ys" "migrate_justifies E class ngs xs e"
  then show "migrate_justifies E class ngs ys e"
    by (cases e; simp add: migrate_justifies_def; blast)
qed

text \<open>What one iteration does, by case.\<close>

lemma migrate_step_cases:
  assumes "migrate_step E K class ng ((p, errs), s) = ((p', errs'), s')"
  obtains (skip) "\<not> outdated E class ng" "p' = p" "s' = s"
  | (keep) "outdated E class ng" "p' = p + 1" "s' = s"
  | (look) r where "outdated E class ng" "p' = p + 1" "trace s' = trace s @ [ReadClaim Cached (claimNameOf ng) r]"
  | (patch) r d where "outdated E class ng" "stampMatches E class ng = (True, True)"
      "r = Inl NotFound \<or> (\<exists>c. r = Inr c \<and> ncConditions c ConditionTypeDrifted = None)"
      "trace s' = trace s @ [ReadClaim Cached (claimNameOf ng) r, PatchedNG ng (restamp E class ng) d]"
      "p' = (if d = None \<or> d = Some NotFound then p else p + 1)"
proof (cases "outdated E class ng")
  case False
  then have "migrate_step E K class ng ((p, errs), s) = ((p, errs), s)"
    by (auto simp: migrate_step_def outdated_def stampMatches_def versionOf_def stampOf_def valOf_def Let_def
        split: option.splits prod.splits)
  with assms False show thesis by (intro skip) simp_all
next
  case True
  then obtain hash where h: "omAnnotations (ngMeta ng) NodeClassHashLabelKey = Some hash"
    and v: "versionOf ng \<noteq> NodeClassHashVersion" by (auto simp: outdated_def)
  have st: "stampOf ng = hash" using h by (simp add: stampOf_def)
  obtain match where m: "stampMatches E class ng = (match, True)"
    using True by (metis outdated_def prod.collapse)
  then have hm: "HashMatches (peRules E) (peHash E) (clLabels class)
      (valOf (omAnnotations (ngMeta ng)) NodeClassHashVersionAnnotationKey) hash = (match, True)"
    by (simp add: stampMatches_def versionOf_def st)
  have run: "(if \<not> match then ((p + 1, errs), s)
      else case nodeClaimDrifted E K ng s of
        (Inl e, s1) \<Rightarrow> ((p + 1, errs @ [e]), s1)
      | (Inr drifted, s1) \<Rightarrow>
          if drifted then ((p + 1, errs), s1)
          else case patchNG K (peCatalogue E) ng (restamp E class ng) s1 of
            (Some e, s2) \<Rightarrow> if e \<noteq> NotFound then ((p + 1, errs @ [e]), s2) else ((p, errs), s2)
          | (None, s2) \<Rightarrow> ((p, errs), s2)) = ((p', errs'), s')"
    using assms v h hm unfolding migrate_step_def Let_def versionOf_def by simp
  show thesis
  proof (cases match)
    case False
    then show thesis using run True by (intro keep) simp_all
  next
    case match: True
    obtain x s1 where x: "getClaim K (peCatalogue E) Cached (claimNameOf ng) s = (x, s1)" by (meson surj_pair)
    have t1: "trace s1 = trace s @ [ReadClaim Cached (claimNameOf ng) x]"
      using x by (auto simp: getClaim_def dest: trace_call)
    show thesis
    proof (cases "x = Inl NotFound \<or> (\<exists>c. x = Inr c \<and> ncConditions c ConditionTypeDrifted = None)")
      case False
      then have "p' = p + 1" "s' = s1"
        using run match x by (auto simp: nodeClaimDrifted_def split: sum.splits if_splits)
      with True t1 show thesis by (intro look [of x]) simp_all
    next
      case ok: True
      obtain d s2 where d: "patchNG K (peCatalogue E) ng (restamp E class ng) s1 = (d, s2)" by (meson surj_pair)
      have t2: "trace s2 = trace s1 @ [PatchedNG ng (restamp E class ng) d]"
        using d by (auto simp: patchNG_def dest: trace_call)
      have "nodeClaimDrifted E K ng s = (Inr False, s1)"
        using ok x by (auto simp: nodeClaimDrifted_def)
      then have "s' = s2" "p' = (if d = None \<or> d = Some NotFound then p else p + 1)"
        using run match d by (auto split: option.splits if_splits)
      with True m match ok t1 t2 show thesis by (intro patch [of x d]) simp_all
    qed
  qed
qed

lemma restamp_matches: "stampMatches E class (restamp E class ng) = (True, True)"
  by (simp add: stampMatches_def versionOf_def stampOf_def restamp_def valOf_def key_neqs key_neqs [symmetric]
      HashMatches_def)

lemma guarded_migrate_step:
  assumes "ng \<in> set ngs" and "migrate_step E K class ng (a, s) = (a', s')"
  shows "guarded (migrate_justifies E class ngs) s s'"
proof -
  obtain p errs p' errs' where "a = (p, errs)" "a' = (p', errs')" by (cases a, cases a')
  with assms(2) have "migrate_step E K class ng ((p, errs), s) = ((p', errs'), s')" by simp
  then show ?thesis
  proof (cases rule: migrate_step_cases)
    case (look r)
    then show ?thesis by (intro only_guarded [where P = "\<lambda>e. \<exists>b c. e = ReadClaim Cached b c"])
       (auto simp: only_def migrate_justifies_def)
  next
    case (patch r d)
    let ?read = "ReadClaim Cached (claimNameOf ng) r"
    have "justified (migrate_justifies E class ngs) [?read]"
      by (rule justified_snoc [of _ "[]", simplified]) (simp_all add: migrate_justifies_def)
    moreover have "migrate_justifies E class ngs [?read] (PatchedNG ng (restamp E class ng) d)"
      using patch(1-3) assms(1) by (auto simp: migrate_justifies_def)
    ultimately have "justified (migrate_justifies E class ngs) ([?read] @ [PatchedNG ng (restamp E class ng) d])"
      by (rule justified_snoc)
    then show ?thesis using patch(4) by (auto simp: guarded_def)
  qed simp_all
qed

text \<open>The groups a migration works on.\<close>

definition classSelector :: "nodeclass \<Rightarrow> (string \<times> string) list" where
  "classSelector class = [(ManagedLabelKey, ''true''), (NodeClassLabelKey, clName class)]"

lemma migrate_cases:
  assumes "migrateHashVersion E K class s = ((p, errs), s')"
  obtains (failed) e where "trace s' = trace s @ [ListedNG (classSelector class) (Inl e)]" "p = pendingUnknown"
  | (listed) ngs s1 where "trace s1 = trace s @ [ListedNG (classSelector class) (Inr ngs)]"
      "fold (migrate_step E K class) ngs ((0, []), s1) = ((p, errs), s')"
proof -
  obtain l s1 where l: "listNG K (peCatalogue E) (classSelector class) s = (l, s1)" by (meson surj_pair)
  have t: "trace s1 = trace s @ [ListedNG (classSelector class) l]" using l by (auto simp: listNG_def dest: trace_call)
  show thesis
  proof (cases l)
    case (Inl e)
    then show thesis
      using assms l t failed [of e] by (simp add: migrateHashVersion_def classSelector_def [symmetric])
  next
    case (Inr ngs)
    then show thesis
      using assms l t listed [of s1 ngs] by (simp add: migrateHashVersion_def classSelector_def [symmetric])
  qed
qed

lemma guarded_migrate_fold:
  assumes "fold (migrate_step E K class) ngs (a, s) = (b, s')"
  shows "guarded (migrate_justifies E class ngs) s s'"
  by (rule guarded_fold [OF grows_migrate _ assms]) (rule guarded_migrate_step)

lemma migration_effects:
  assumes "migrateHashVersion E K class s = ((pending, errs), s')"
  shows "did s s' = [] \<or> (\<exists>r es. did s s' = ListedNG (classSelector class) r # es \<and>
    (case r of Inl e \<Rightarrow> es = [] | Inr ngs \<Rightarrow> justified (migrate_justifies E class ngs) es))"
  using assms
proof (cases rule: migrate_cases)
  case (failed e)
  then show ?thesis by (simp add: did_def)
next
  case (listed ngs s1)
  note g = guarded_migrate_fold [OF listed(2)]
  have "extends s s1" using listed(1) by (auto simp: extends_def)
  then have "did s s' = [ListedNG (classSelector class) (Inr ngs)] @ did s1 s'"
    using did_trans [OF _ guarded_extends [OF g]] listed(1) by (simp add: did_def)
  moreover have "justified (migrate_justifies E class ngs) (did s1 s')" using g by (auto simp: guarded_def did_def)
  ultimately show ?thesis by simp
qed

text \<open>
  C19. The migration never changes a drift verdict. It does nothing but list the groups managed and of
  this NodeClass, read claims, and patch; and the only objects it patches are groups it listed, whose
  stamp, judged by its own generation, matches the NodeClass as it is now, and whose claim it has just
  read as gone or without the Drifted condition. The group it sends is the group it listed with the two
  hash annotations set and nothing else changed, and the new stamp matches as the old one did.
\<close>

theorem migration_preserves_drift_verdicts:
  assumes "migrateHashVersion E K class s = ((pending, errs), s')"
  shows "(\<forall>e \<in> set (did s s'). case e of
      ListedNG sel r \<Rightarrow> sel = classSelector class | ReadClaim rd n r \<Rightarrow> rd = Cached | PatchedNG old new d \<Rightarrow> True | _ \<Rightarrow> False) \<and>
    (\<forall>xs old new d ys. did s s' = xs @ PatchedNG old new d # ys \<longrightarrow>
      (\<exists>ngs. ListedNG (classSelector class) (Inr ngs) \<in> set xs \<and> old \<in> set ngs) \<and>
      stampMatches E class old = (True, True) \<and> stampMatches E class new = (True, True) \<and>
      new = old\<lparr>ngMeta := (ngMeta old)\<lparr>omAnnotations := (omAnnotations (ngMeta old))
        (NodeClassHashLabelKey \<mapsto> Hash (peRules E) (peHash E) (clLabels class),
         NodeClassHashVersionAnnotationKey \<mapsto> NodeClassHashVersion)\<rparr>\<rparr> \<and>
      (\<exists>r. ReadClaim Cached (claimNameOf old) r \<in> set xs \<and>
         (r = Inl NotFound \<or> (\<exists>c. r = Inr c \<and> ncConditions c ConditionTypeDrifted = None))))"
  using migration_effects [OF assms]
proof (elim disjE exE conjE)
  fix r es assume d: "did s s' = ListedNG (classSelector class) r # es"
    and es: "case r of Inl e \<Rightarrow> es = [] | Inr ngs \<Rightarrow> justified (migrate_justifies E class ngs) es"
  have "case e of ListedNG sel r \<Rightarrow> sel = classSelector class | ReadClaim rd n r \<Rightarrow> rd = Cached | PatchedNG old new d \<Rightarrow> True | _ \<Rightarrow> False"
    if "e \<in> set es" for e
  proof -
    obtain ngs where ngs: "justified (migrate_justifies E class ngs) es" using es that by (cases r) auto
    obtain us vs where "es = us @ e # vs" using split_list [OF \<open>e \<in> set es\<close>] by blast
    then have "migrate_justifies E class ngs us e" using ngs by (simp add: justified_def)
    then show ?thesis by (cases e) (simp_all add: migrate_justifies_def)
  qed
  then have "\<forall>e \<in> set (did s s'). case e of
      ListedNG sel r \<Rightarrow> sel = classSelector class | ReadClaim rd n r \<Rightarrow> rd = Cached | PatchedNG old new d \<Rightarrow> True | _ \<Rightarrow> False"
    unfolding d by simp
  moreover have "(\<exists>ngs. ListedNG (classSelector class) (Inr ngs) \<in> set xs \<and> old \<in> set ngs) \<and>
      stampMatches E class old = (True, True) \<and> stampMatches E class new = (True, True) \<and> new = restamp E class old \<and>
      (\<exists>r. ReadClaim Cached (claimNameOf old) r \<in> set xs \<and>
         (r = Inl NotFound \<or> (\<exists>c. r = Inr c \<and> ncConditions c ConditionTypeDrifted = None)))"
    if split: "did s s' = xs @ PatchedNG old new d' # ys" for xs old new d' ys
  proof -
    obtain zs where zs: "xs = ListedNG (classSelector class) r # zs" "es = zs @ PatchedNG old new d' # ys"
      using split d by (cases xs) auto
    with es obtain ngs where "r = Inr ngs" "migrate_justifies E class ngs zs (PatchedNG old new d')"
      by (cases r) (auto simp: justified_def)
    with zs(1) show ?thesis using restamp_matches [of E "class" old] by (auto simp: migrate_justifies_def)
  qed
  ultimately show ?thesis unfolding restamp_def by blast
qed simp

section \<open>When the migration is done\<close>

lemma migrate_fold_nonneg:
  "fold (migrate_step E K class) ngs ((p, errs), s) = ((p', errs'), s') \<Longrightarrow> p \<le> p'"
proof (induction ngs arbitrary: p errs s)
  case (Cons z zs)
  obtain q1 es1 t1 where z: "migrate_step E K class z ((p, errs), s) = ((q1, es1), t1)" by (metis prod.collapse)
  have "p \<le> q1" using z by (cases rule: migrate_step_cases) auto
  moreover have "q1 \<le> p'" using Cons z by simp
  ultimately show ?case by simp
qed simp

lemma migrate_fold_pending:
  assumes "fold (migrate_step E K class) ngs ((p, errs), s) = ((p', errs'), s')" and "ng \<in> set ngs"
  shows "p \<le> p' \<and> (p' = p \<longrightarrow> \<not> outdated E class ng \<or>
    (\<exists>d. (d = None \<or> d = Some NotFound) \<and> PatchedNG ng (restamp E class ng) d \<in> set (did s s')))"
  using assms
proof (induction ngs arbitrary: p errs s)
  case (Cons x ngs)
  obtain p1 errs1 s1 where st: "migrate_step E K class x ((p, errs), s) = ((p1, errs1), s1)"
    by (metis prod.collapse)
  have rest: "fold (migrate_step E K class) ngs ((p1, errs1), s1) = ((p', errs'), s')" using Cons.prems(1) st by simp
  have p1: "p \<le> p1" using st by (cases rule: migrate_step_cases) auto
  have p': "p1 \<le> p'" by (rule migrate_fold_nonneg [OF rest])
  have ext: "extends s s1" "extends s1 s'"
    using guarded_extends [OF guarded_migrate_step [of x "[x]", OF _ st]]
      guarded_extends [OF guarded_migrate_fold [OF rest]] by simp_all
  show ?case
  proof (cases "x = ng")
    case True
    have "\<not> outdated E class ng \<or>
        (\<exists>d. (d = None \<or> d = Some NotFound) \<and> PatchedNG ng (restamp E class ng) d \<in> set (did s s1))" if "p1 = p"
      using st
    proof (cases rule: migrate_step_cases)
      case (patch r d)
      then have "d = None \<or> d = Some NotFound" using that by (auto split: if_splits)
      then show ?thesis using patch True by (auto simp: did_def)
    qed (use that True in simp_all)
    then show ?thesis using p1 p' did_trans [OF ext] by auto
  next
    case False
    then have "p1 \<le> p' \<and> (p' = p1 \<longrightarrow> \<not> outdated E class ng \<or>
        (\<exists>d. (d = None \<or> d = Some NotFound) \<and> PatchedNG ng (restamp E class ng) d \<in> set (did s1 s')))"
      using Cons.IH [OF rest] Cons.prems(2) by simp
    then show ?thesis using p1 did_trans [OF ext] by auto
  qed
qed simp

text \<open>
  The advice to remove ignored labels is never premature. The condition says that removing them
  drifts no node only if the groups of the NodeClass could be listed and each of them either carries
  the current generation, or carries no stamp or one of an unknown generation, which drift does not
  judge, or was re-stamped, or found gone, in this very pass.
\<close>

theorem removal_advice_is_safe:
  assumes "migrateHashVersion E K class s = ((pending, errs), s')"
    and "ignoredReason pending = ''LegacyLabelKeys''"
  shows "\<exists>ngs. ListedNG (classSelector class) (Inr ngs) \<in> set (did s s') \<and>
    (\<forall>ng \<in> set ngs. versionOf ng = NodeClassHashVersion \<or>
       omAnnotations (ngMeta ng) NodeClassHashLabelKey = None \<or>
       \<not> snd (stampMatches E class ng) \<or>
       PatchedNG ng (restamp E class ng) None \<in> set (did s s') \<or>
       PatchedNG ng (restamp E class ng) (Some NotFound) \<in> set (did s s'))"
  using assms(1)
proof (cases rule: migrate_cases)
  case (failed e)
  then show ?thesis using assms(2) by (simp add: ignoredReason_def)
next
  case (listed ngs s1)
  have "0 \<le> pending" by (rule migrate_fold_nonneg [OF listed(2)])
  then have p: "pending = 0" using assms(2) by (auto simp: ignoredReason_def split: if_splits)
  have "extends s s1" using listed(1) by (auto simp: extends_def)
  then have d: "did s s' = [ListedNG (classSelector class) (Inr ngs)] @ did s1 s'"
    using did_trans [OF _ guarded_extends [OF guarded_migrate_fold [OF listed(2)]]] listed(1) by (simp add: did_def)
  have "\<not> outdated E class ng \<or>
      (\<exists>d. (d = None \<or> d = Some NotFound) \<and> PatchedNG ng (restamp E class ng) d \<in> set (did s s'))"
    if "ng \<in> set ngs" for ng
    using migrate_fold_pending [OF listed(2) that] p d by auto
  then have "\<forall>ng \<in> set ngs. versionOf ng = NodeClassHashVersion \<or>
       omAnnotations (ngMeta ng) NodeClassHashLabelKey = None \<or> \<not> snd (stampMatches E class ng) \<or>
       PatchedNG ng (restamp E class ng) None \<in> set (did s s') \<or>
       PatchedNG ng (restamp E class ng) (Some NotFound) \<in> set (did s s')"
    unfolding outdated_def by blast
  moreover have "ListedNG (classSelector class) (Inr ngs) \<in> set (did s s')" using d by simp
  ultimately show ?thesis by blast
qed

section \<open>The finalizer and readiness\<close>

fun class_write :: "effect \<Rightarrow> bool" where
  "class_write (PatchedClass old new r) = True"
| "class_write _ = False"

lemma only_migrate:
  assumes "migrateHashVersion E K class s = ((p, errs), s')"
  shows "only (\<lambda>e. \<not> class_write e \<and> (\<forall>old new r. e \<noteq> PatchedClassStatus old new r)) s s'"
  using assms
proof (cases rule: migrate_cases)
  case (failed e)
  then show ?thesis by (auto simp: only_def)
next
  case (listed ngs s1)
  from guarded_migrate_fold [OF listed(2)] obtain es where
    es: "trace s' = trace s1 @ es" "justified (migrate_justifies E class ngs) es" by (auto simp: guarded_def)
  have "\<not> class_write e \<and> (\<forall>old new r. e \<noteq> PatchedClassStatus old new r)" if "e \<in> set es" for e
  proof -
    from split_list [OF that] es(2) obtain xs where "migrate_justifies E class ngs xs e"
      by (auto simp: justified_def)
    then show ?thesis by (cases e) (simp_all add: migrate_justifies_def)
  qed
  with es listed(1) show ?thesis by (auto simp: only_def list_all_iff)
qed

lemma class_status_trace:
  assumes "class_status E K C rt pt stored s = (r, s')"
  shows "only (\<lambda>e. \<not> class_write e) s s'"
proof -
  obtain ignored class1 where c1: "class_conditions E C rt stored = (ignored, class1)" by (meson surj_pair)
  obtain ok class2 s1 where p: "probe_api E K C pt class1 s = (ok, class2, s1)" by (metis prod.collapse)
  have o1: "only (\<lambda>e. \<not> class_write e) s s1"
    using p by (auto simp: probe_api_def listNG_def only_def split: prod.splits sum.splits dest!: trace_call)
  obtain pending errs s2 where m: "(if ok then migrateHashVersion E K class2 s1 else ((pendingUnknown, []), s1)) =
      ((pending, errs), s2)" by (metis prod.collapse)
  have o2: "only (\<lambda>e. \<not> class_write e) s1 s2"
    using m by (auto split: if_splits dest!: only_migrate elim: only_mono)
  obtain e3 class3 s3 where i: "reportIgnoredLabels C class2 ignored pending s2 = (e3, class3, s3)"
    by (metis prod.collapse)
  have o3: "only (\<lambda>e. \<not> class_write e) s2 s3"
    using i by (auto simp: reportIgnoredLabels_def Let_def split: if_splits prod.splits intro!: only_intros)
  note o = only_trans [OF only_trans [OF o1 o2] o3]
  obtain d s4 where d: "patchClassStatus K (peCatalogue E) stored class3 s3 = (d, s4)" by (meson surj_pair)
  have o4: "only (\<lambda>e. \<not> class_write e) s s4"
    by (rule only_call [OF d [unfolded patchClassStatus_def] o]) simp
  have "s' = s3 \<or> s' = s4"
    using assms unfolding class_status_def c1 prod.case p m i Let_def d
    by (auto split: option.splits if_splits)
  with o o4 show ?thesis by blast
qed

lemma finalize_patches:
  assumes "finalize E K cls s = (r, s')" and "\<not> only (\<lambda>e. \<not> class_write e) s s'"
  shows "\<exists>claims e. did s s' = [ListedClaims (Inr claims), PatchedClass cls (RemoveFinalizer TerminationFinalizer cls) e] \<and>
    (\<forall>c \<in> set claims. \<forall>ref. ncClassRef c = Some ref \<longrightarrow> crName ref \<noteq> clName cls)"
proof -
  obtain l s2 where l: "listClaims K (peCatalogue E) s = (l, s2)" by (meson surj_pair)
  have t2: "trace s2 = trace s @ [ListedClaims l]" using l by (auto simp: listClaims_def dest: trace_call)
  then have q2: "only (\<lambda>e. \<not> class_write e) s s2" by (auto simp: only_def)
  let ?new = "RemoveFinalizer TerminationFinalizer cls"
  obtain e s3 where e: "patchClass K (peCatalogue E) cls ?new s2 = (e, s3)" by (meson surj_pair)
  have t3: "trace s3 = trace s2 @ [PatchedClass cls ?new e]" using e by (auto simp: patchClass_def dest: trace_call)
  obtain claims where c: "l = Inr claims" "find (references cls) claims = None" "s' = s3"
    using assms q2 l e unfolding finalize_def by (auto split: if_splits sum.splits)
  then have "did s s' = [ListedClaims (Inr claims), PatchedClass cls ?new e]" using t2 t3 by (simp add: did_def)
  then show ?thesis using c(2) by (fastforce simp: find_None_iff references_def split: option.splits)
qed

text \<open>On a class that is not being deleted, the first write adds the finalizer if it was missing.\<close>

lemma reconcile_live_class:
  assumes "class_Reconcile E K C rt pt n s = (r, s')" and "getClass K (peCatalogue E) Cached n s = (Inr cls, s1)"
    and "\<not> clTerminating cls" and "\<not> only (\<lambda>e. \<not> class_write e) s1 s'"
  shows "\<exists>class1 e es. AddFinalizer TerminationFinalizer cls = (True, class1) \<and>
    trace s' = trace s1 @ PatchedClass cls class1 e # es \<and> list_all (\<lambda>e. \<not> class_write e) es"
proof -
  obtain added class1 where a: "AddFinalizer TerminationFinalizer cls = (added, class1)" by (meson surj_pair)
  obtain e s2 where e: "patchClass K (peCatalogue E) cls class1 s1 = (e, s2)" by (meson surj_pair)
  have t2: "trace s2 = trace s1 @ [PatchedClass cls class1 e]" using e by (auto simp: patchClass_def dest: trace_call)
  have run: "(if added then (case e of Inl err \<Rightarrow> (ignoring_NotFound err, s2)
      | Inr class2 \<Rightarrow> class_status E K C rt pt class2 s2) else class_status E K C rt pt cls s1) = (r, s')"
    using assms(1-3) a e by (cases added) (simp_all add: class_Reconcile_def)
  then have add: "added" using assms(4) class_status_trace by (cases added) (simp, fastforce)
  then have "only (\<lambda>e. \<not> class_write e) s2 s'" using run by (cases e) (auto intro: class_status_trace)
  then show ?thesis using t2 a add by (auto simp: only_def)
qed

lemma finalize_extends: "finalize E K cls s = (r, s') \<Longrightarrow> extends s s'"
  by (rule only_extends [where P = "\<lambda>_. True"])
    (auto simp: finalize_def call_defs Let_def split: sum.splits option.splits prod.splits if_splits elim!: only_call intro!: only_intros)

text \<open>
  C20. A NodeClass outlives its NodeClaims. The controller removes its finalizer only from a NodeClass
  that is being deleted, and only after listing the NodeClaims and finding none that references it;
  every other write of the object itself adds the finalizer to one that is not being deleted.
\<close>

theorem finalizer_waits_for_claims:
  assumes "class_Reconcile E K C rt pt n s = (r, s')"
    and "did s s' = xs @ PatchedClass old new d # ys"
  shows "if clTerminating old
    then new = RemoveFinalizer TerminationFinalizer old \<and>
      (\<exists>claims. ListedClaims (Inr claims) \<in> set xs \<and>
         (\<forall>c \<in> set claims. \<forall>ref. ncClassRef c = Some ref \<longrightarrow> crName ref \<noteq> clName old))
    else TerminationFinalizer \<notin> set (omFinalizers (clMeta old)) \<and>
      omFinalizers (clMeta new) = omFinalizers (clMeta old) @ [TerminationFinalizer]"
proof -
  obtain x s1 where x: "getClass K (peCatalogue E) Cached n s = (x, s1)" by (meson surj_pair)
  have t1: "trace s1 = trace s @ [ReadClass Cached n x]" using x by (auto simp: getClass_def dest: trace_call)
  have "PatchedClass old new d \<in> set (did s s')" using assms(2) by simp
  then have "\<not> only (\<lambda>e. \<not> class_write e) s s'" using only_did [of "\<lambda>e. \<not> class_write e"] by fastforce
  moreover have q1: "only (\<lambda>e. \<not> class_write e) s s1" using t1 by (auto simp: only_def)
  ultimately have nq: "\<not> only (\<lambda>e. \<not> class_write e) s1 s'" by (blast intro: only_trans)
  then obtain cls where cl: "x = Inr cls" using assms(1) x by (cases x) (auto simp: class_Reconcile_def)
  show ?thesis
  proof (cases "clTerminating cls")
    case True
    then have fin: "finalize E K cls s1 = (r, s')" using assms(1) x cl by (simp add: class_Reconcile_def)
    from finalize_patches [OF this nq] obtain claims e where
      f: "did s1 s' = [ListedClaims (Inr claims), PatchedClass cls (RemoveFinalizer TerminationFinalizer cls) e]"
        "\<forall>c \<in> set claims. \<forall>ref. ncClassRef c = Some ref \<longrightarrow> crName ref \<noteq> clName cls" by blast
    have "extends s1 s'" by (rule finalize_extends [OF fin])
    then have "did s s' = [ReadClass Cached n x, ListedClaims (Inr claims), PatchedClass cls (RemoveFinalizer TerminationFinalizer cls) e]"
      using t1 f(1) by (auto simp: did_def extends_def)
    with assms(2) have "old = cls" "new = RemoveFinalizer TerminationFinalizer cls" "xs = [ReadClass Cached n x, ListedClaims (Inr claims)]"
      by (auto simp: Cons_eq_append_conv)
    then show ?thesis using f(2) True by auto
  next
    case False
    from reconcile_live_class [OF assms(1) x [unfolded cl] this nq] obtain class1 e es where
      w: "AddFinalizer TerminationFinalizer cls = (True, class1)" "trace s' = trace s1 @ PatchedClass cls class1 e # es"
        "list_all (\<lambda>e. \<not> class_write e) es" by blast
    then have "did s s' = ReadClass Cached n x # PatchedClass cls class1 e # es" using t1 by (simp add: did_def)
    with assms(2) w(3) have "old = cls" "new = class1" by (auto simp: Cons_eq_append_conv)
    then show ?thesis using w(1) False by (auto simp: AddFinalizer_def split: if_splits)
  qed
qed

text \<open>The one status patch of a reconcile, and the conditions it was made of.\<close>

lemma class_status_patch:
  fixes s :: "'w sys"
  assumes "class_status E K C rt pt stored s = (r, s')" and "PatchedClassStatus old new d \<in> set (did s s')"
  shows "old = stored \<and> (\<exists>ignored class1 ok class2 s1 pending (s2 :: 'w sys) e3 s3.
    class_conditions E C rt stored = (ignored, class1) \<and> probe_api E K C pt class1 s = (ok, class2, s1) \<and>
    reportIgnoredLabels C class2 ignored pending s2 = (e3, new, s3))"
proof -
  obtain ignored class1 where c1: "class_conditions E C rt stored = (ignored, class1)" by (meson surj_pair)
  obtain ok class2 s1 where p: "probe_api E K C pt class1 s = (ok, class2, s1)" by (metis prod.collapse)
  obtain pending errs s2 where m: "(if ok then migrateHashVersion E K class2 s1 else ((pendingUnknown, []), s1)) =
      ((pending, errs), s2)" by (metis prod.collapse)
  obtain e3 class3 s3 where i: "reportIgnoredLabels C class2 ignored pending s2 = (e3, class3, s3)"
    by (metis prod.collapse)
  obtain d4 s4 where d: "patchClassStatus K (peCatalogue E) stored class3 s3 = (d4, s4)" by (meson surj_pair)
  let ?P = "\<lambda>e. \<forall>old new r. e \<noteq> PatchedClassStatus old new r"
  have o1: "only ?P s s1"
    using p by (auto simp: probe_api_def listNG_def only_def split: prod.splits sum.splits dest!: trace_call)
  have o2: "only ?P s1 s2"
    using m by (auto split: if_splits dest!: only_migrate elim: only_mono)
  have o3: "only ?P s2 s3"
    using i by (auto simp: reportIgnoredLabels_def Let_def split: if_splits prod.splits intro!: only_intros)
  note o = only_trans [OF only_trans [OF o1 o2] o3]
  have t4: "trace s4 = trace s3 @ [PatchedClassStatus stored class3 d4]"
    using d by (auto simp: patchClassStatus_def dest: trace_call)
  have "s' = s3 \<or> s' = s4"
    using assms(1) unfolding class_status_def c1 prod.case p m i Let_def d
    by (auto split: option.splits if_splits)
  moreover have "s' \<noteq> s3" using assms(2) only_did [OF o] by blast
  moreover obtain es where "trace s3 = trace s @ es" "list_all ?P es" using o by (auto simp: only_def)
  ultimately have "old = stored" "new = class3"
    using assms(2) t4 by (auto simp: did_def list_all_iff)
  with i have k: "old = stored" "reportIgnoredLabels C class2 ignored pending s2 = (e3, new, s3)" by simp_all
  show ?thesis by (rule conjI [OF k(1)], intro exI conjI, rule c1, rule p, rule k(2))
qed

lemma condition_neqs:
  "ConditionTypeValidationSucceeded \<noteq> ConditionTypeNodeGroupAPIServed"
  "ConditionTypeValidationSucceeded \<noteq> ConditionTypeLabelsIgnored" "ConditionTypeNodeGroupAPIServed \<noteq> ConditionTypeLabelsIgnored"
  "ConditionTypeValidationSucceeded \<noteq> ConditionTypeReady" "ConditionTypeNodeGroupAPIServed \<noteq> ConditionTypeReady"
  by (simp_all add: ConditionTypeValidationSucceeded_def ConditionTypeNodeGroupAPIServed_def
      ConditionTypeLabelsIgnored_def ConditionTypeReady_def)

text \<open>
  Readiness means valid and served. The status the controller writes has ValidationSucceeded true
  exactly when every label passes the rule or is a legacy key, and NodeGroupAPIServed true exactly
  when the probe of this reconcile succeeded; ignored labels never touch either.
\<close>

theorem readiness_is_valid_and_served:
  assumes "lawful_conditions C" and "distinct (map fst (labelsOf (clLabels stored)))"
    and "class_status E K C rt pt stored s = (r, s')"
    and "PatchedClassStatus old new d \<in> set (did s s')"
  shows "old = stored \<and>
    (IsTrue (clConditions new) ConditionTypeValidationSucceeded \<longleftrightarrow>
       (\<forall>(k, v) \<in> set (labelsOf (clLabels stored)).
          ValidateNodeClassLabel (peRules E) k v = None \<or> IsLegacyNodeClassLabel k v)) \<and>
    (IsTrue (clConditions new) ConditionTypeNodeGroupAPIServed \<longleftrightarrow> \<not> isl (fst (kListNG K [] (world s))))"
proof -
  let ?V = ConditionTypeValidationSucceeded and ?A = ConditionTypeNodeGroupAPIServed and ?L = ConditionTypeLabelsIgnored
  note neq = condition_neqs condition_neqs [symmetric]
  obtain ignored class1 ok class2 s1 pending e3 and s2 s3 :: "'a sys" where old: "old = stored"
    and c1: "class_conditions E C rt stored = (ignored, class1)" and p: "probe_api E K C pt class1 s = (ok, class2, s1)"
    and i: "reportIgnoredLabels C class2 ignored pending s2 = (e3, new, s3)"
    using class_status_patch [OF assms(3,4)] by blast
  have keep: "clConditions new t = clConditions class2 t" if "t \<noteq> ?L" "t \<noteq> ConditionTypeReady" for t
    using i assms(1) that
    by (auto simp: reportIgnoredLabels_def lawful_conditions_def Let_def split: if_splits prod.splits)
       (metis snd_conv)+
  have ok: "ok \<longleftrightarrow> \<not> isl (fst (kListNG K [] (world s)))"
    using p by (auto simp: probe_api_def listNG_def call_def Let_def split: prod.splits sum.splits)
  have a: "IsTrue (clConditions class2) ?A \<longleftrightarrow> ok"
    using p assms(1) neq by (auto simp: probe_api_def lawful_conditions_def split: prod.splits sum.splits)
  have v2: "clConditions class2 ?V = clConditions class1 ?V"
    using p assms(1) neq by (auto simp: probe_api_def lawful_conditions_def split: prod.splits sum.splits)
  have v1: "IsTrue (clConditions class1) ?V \<longleftrightarrow> snd (validate_class (peRules E) (clLabels stored)) = None"
    using c1 assms(1) neq by (auto simp: class_conditions_def lawful_conditions_def split: prod.splits option.splits)
  have v: "snd (validate_class (peRules E) (clLabels stored)) = None \<longleftrightarrow>
      (\<forall>(k, v) \<in> set (labelsOf (clLabels stored)).
          ValidateNodeClassLabel (peRules E) k v = None \<or> IsLegacyNodeClassLabel k v)"
    unfolding validate_err by (auto simp: rejected_now_def valOf_map_of [OF assms(2)])
  have "IsTrue (clConditions new) ?V \<longleftrightarrow> IsTrue (clConditions class1) ?V"
    "IsTrue (clConditions new) ?A \<longleftrightarrow> IsTrue (clConditions class2) ?A"
    using keep [of ?V] keep [of ?A] neq v2 by (simp_all add: IsTrue_def)
  then show ?thesis using old v1 v a ok by simp
qed

section \<open>Examples\<close>

text \<open>
  A NodeClass with one label that is delivered and one legacy label, a group of it whose stamp is of
  the second generation, and an API that accepts every write.
\<close>

definition v2_group :: nodegroup where
  "v2_group = example_group\<lparr>ngMeta := (ngMeta example_group)\<lparr>omAnnotations :=
     [NodeClassHashLabelKey \<mapsto> ''map:a'', NodeClassHashVersionAnnotationKey \<mapsto> ''v2'']\<rparr>\<rparr>"

definition deleted_class :: nodeclass where
  "deleted_class = example_class\<lparr>clMeta := (clMeta example_class)\<lparr>omDeleted := Some 1,
     omFinalizers := [TerminationFinalizer]\<rparr>\<rparr>"

definition class_world :: "unit kube" where
  "class_world = silent\<lparr>kListNG := \<lambda>sel w. (Inr [v2_group], w), kGetClaim := \<lambda>rd n w. (Inl NotFound, w),
     kPatchNG := \<lambda>old new w. (None, w), kGetClass := \<lambda>rd n w. (Inr deleted_class, w),
     kListClaims := \<lambda>w. (Inr [], w), kPatchClass := \<lambda>old new w. (Inr new, w),
     kPatchClassStatus := \<lambda>old new w. (None, w)\<rparr>"

lemma class_world_simps [simp]:
  "kListNG class_world sel w = (Inr [v2_group], w)" "kGetClaim class_world rd n w = (Inl NotFound, w)"
  "kPatchNG class_world g g' w = (None, w)" "kGetClass class_world rd n w = (Inr deleted_class, w)"
  "kListClaims class_world w = (Inr [], w)" "kPatchClass class_world c c' w = (Inr c', w)"
  "kPatchClassStatus class_world c c' w = (None, w)" "kOthers class_world w = []"
  by (simp_all add: class_world_def silent_def)

text \<open>A condition set that keeps no Ready summary.\<close>

definition plain_conditions :: cond_ops where
  "plain_conditions = \<lparr>
     coTrue = (\<lambda>t cs. cs(t \<mapsto> \<lparr>cdStatus = ConditionTrue, cdReason = t, cdMessage = ''''\<rparr>)),
     coTrueReason = (\<lambda>t r m cs. (True, cs(t \<mapsto> \<lparr>cdStatus = ConditionTrue, cdReason = r, cdMessage = ''''\<rparr>))),
     coFalse = (\<lambda>t r m cs. cs(t \<mapsto> \<lparr>cdStatus = ''False'', cdReason = r, cdMessage = m\<rparr>)),
     coClear = (\<lambda>t cs. (None, cs(t := None)))\<rparr>"

lemma plain_conditions_lawful: "lawful_conditions plain_conditions"
  by (simp add: lawful_conditions_def plain_conditions_def IsTrue_def reasonOf_def ConditionTrue_def)

definition migration :: "(int \<times> api_error list) \<times> unit sys" where
  "migration = migrateHashVersion example_env class_world example_class (start ())"

lemma v2_group_annotations [simp]:
  "omAnnotations (ngMeta v2_group) NodeClassHashLabelKey = Some ''map:a''"
  "omAnnotations (ngMeta v2_group) NodeClassHashVersionAnnotationKey = Some ''v2''"
  "claimNameOf v2_group = ''c1''"
  by (simp_all add: v2_group_def key_neqs key_neqs [symmetric] claimNameOf_def example_group_def valOf_def)

lemma v2_group_matches:
  "HashMatches (peRules example_env) (peHash example_env) (clLabels example_class) ''v2'' ''map:a'' = (True, True)"
  by (simp add: HashMatches_def version_defs previousNodeClassHashes_def setsOnly_def hashV2_def labelsOf_def
      example_env_def example_class_def example_hash_def valOf_def)

lemma migration_run:
  "migration = ((0, []), snd migration)"
  "did (start ()) (snd migration) = [ListedNG (classSelector example_class) (Inr [v2_group]),
     ReadClaim Cached ''c1'' (Inl NotFound), PatchedNG v2_group (restamp example_env example_class v2_group) None]"
  by (simp_all add: migration_def migrateHashVersion_def migrate_step_def nodeClaimDrifted_def v2_group_matches
      classSelector_def run_defs did_def start_def valOf_def version_defs Let_def)

theorem migration_preserves_drift_verdicts_witness:
  "stampMatches example_env example_class (restamp example_env example_class v2_group) = (True, True)"
proof -
  have "did (start ()) (snd migration) =
      [ListedNG (classSelector example_class) (Inr [v2_group]), ReadClaim Cached ''c1'' (Inl NotFound)] @
      PatchedNG v2_group (restamp example_env example_class v2_group) None # []"
    using migration_run(2) by simp
  moreover have "migrateHashVersion example_env class_world example_class (start ()) = ((0, []), snd migration)"
    using migration_run(1) by (simp flip: migration_def)
  ultimately show ?thesis using migration_preserves_drift_verdicts by blast
qed

theorem removal_advice_is_safe_witness:
  "\<exists>d. PatchedNG v2_group (restamp example_env example_class v2_group) d \<in> set (did (start ()) (snd migration))"
proof -
  obtain ngs where l: "ListedNG (classSelector example_class) (Inr ngs) \<in> set (did (start ()) (snd migration))"
    and "\<forall>ng \<in> set ngs. versionOf ng = NodeClassHashVersion \<or>
       omAnnotations (ngMeta ng) NodeClassHashLabelKey = None \<or> \<not> snd (stampMatches example_env example_class ng) \<or>
       PatchedNG ng (restamp example_env example_class ng) None \<in> set (did (start ()) (snd migration)) \<or>
       PatchedNG ng (restamp example_env example_class ng) (Some NotFound) \<in> set (did (start ()) (snd migration))"
    using removal_advice_is_safe [of example_env class_world example_class "start ()" 0 "[]" "snd migration"] migration_run(1)
    by (auto simp: ignoredReason_def pendingUnknown_def simp flip: migration_def)
  moreover have "ngs = [v2_group]" using l unfolding migration_run(2) by simp
  moreover have "versionOf v2_group \<noteq> NodeClassHashVersion" "snd (stampMatches example_env example_class v2_group)"
    by (simp_all add: versionOf_def stampOf_def stampMatches_def valOf_def v2_group_matches version_defs)
  ultimately show ?thesis by auto
qed

definition finalizing :: "class_result \<times> unit sys" where
  "finalizing = class_Reconcile example_env class_world plain_conditions (\<lambda>_. '''') (\<lambda>_. '''') ''default'' (start ())"

lemma finalizing_did:
  "did (start ()) (snd finalizing) = [ReadClass Cached ''default'' (Inr deleted_class), ListedClaims (Inr []),
     PatchedClass deleted_class (RemoveFinalizer TerminationFinalizer deleted_class)
       (Inr (RemoveFinalizer TerminationFinalizer deleted_class))]"
  by (simp add: finalizing_def class_Reconcile_def finalize_def run_defs did_def start_def deleted_class_def)

theorem finalizer_waits_for_claims_witness:
  "clTerminating deleted_class \<and> ListedClaims (Inr []) \<in> set (did (start ()) (snd finalizing))"
proof -
  let ?new = "RemoveFinalizer TerminationFinalizer deleted_class"
  have t: "clTerminating deleted_class" by (simp add: deleted_class_def)
  have "class_Reconcile example_env class_world plain_conditions (\<lambda>_. '''') (\<lambda>_. '''') ''default'' (start ()) =
      (fst finalizing, snd finalizing)" by (simp add: finalizing_def)
  from finalizer_waits_for_claims [OF this, of
      "[ReadClass Cached ''default'' (Inr deleted_class), ListedClaims (Inr [])]" deleted_class ?new "Inr ?new" "[]"]
  show ?thesis using t by (auto simp: finalizing_did)
qed

lemma example_class_validates:
  "validate_class (peRules example_env) (clLabels example_class) = ([''app.kubernetes.io/x''], None)"
  by (simp add: validate_class_def sortedKeys_def validate_step_def example_class_def example_env_def labelsOf_def
      ValidateNodeClassLabel_def IsLegacyNodeClassLabel_def inKubernetesIODomain_def inKarpenterDomain_def CoreGroup_def
      HasPrefix_def example_rules_def valOf_def)

lemma example_class_facts:
  "clConditions example_class = Map.empty" "clName example_class = ''default''"
  "cs \<noteq> Map.empty \<Longrightarrow> example_class \<noteq> example_class\<lparr>clConditions := cs\<rparr>"
  by (simp_all add: example_class_def meta0_def)

theorem readiness_is_valid_and_served_witness:
  "\<exists>class. PatchedClassStatus example_class class None \<in> set (did (start ())
     (snd (class_status example_env class_world plain_conditions (\<lambda>_. '''') (\<lambda>_. '''') example_class (start ())))) \<and>
   IsTrue (clConditions class) ConditionTypeNodeGroupAPIServed"
proof -
  let ?r = "class_status example_env class_world plain_conditions (\<lambda>_. '''') (\<lambda>_. '''') example_class (start ())"
  have "\<exists>class. PatchedClassStatus example_class class None \<in> set (did (start ()) (snd ?r))"
    by (simp add: class_status_def class_conditions_def example_class_validates probe_api_def reportIgnoredLabels_def
        migrateHashVersion_def migrate_step_def nodeClaimDrifted_def v2_group_matches example_class_facts run_defs
        did_def start_def plain_conditions_def valOf_def version_defs Let_def)
  then obtain cls where c: "PatchedClassStatus example_class cls None \<in> set (did (start ()) (snd ?r))" by blast
  have "distinct (map fst (labelsOf (clLabels example_class)))" by (simp add: example_class_def labelsOf_def)
  from readiness_is_valid_and_served [OF plain_conditions_lawful this _ c, of example_env class_world "\<lambda>_. ''''" "\<lambda>_. ''''" "fst ?r"]
  show ?thesis using c by (auto simp: start_def)
qed

end
