(* ===== verification/Float64.thy ===== *)
theory Float64
  imports Prelude "HOL-Library.Log_Nat"
begin

text \<open>
  Go's \<^verbatim>\<open>float64\<close>, as far as the program uses it: every operation returns the exact rational result
  rounded to 53 significant bits, ties to even. Every magnitude the program computes (sizes, prices,
  ratios of sizes) lies far inside the range of normal numbers, so neither overflow nor the
  subnormal range is modelled. The facts the components use: rounding is monotone, fixes the numbers
  it can represent, and is odd.
\<close>

section \<open>Rounding to an integer\<close>

definition round_half_even :: "rat \<Rightarrow> int" where
  "round_half_even y =
     (let f = \<lfloor>y\<rfloor>; r = y - of_int f in
      if r < 1/2 then f else if 1/2 < r then f + 1 else if even f then f else f + 1)"

text \<open>\<^verbatim>\<open>math.Round\<close>: halves away from zero.\<close>

definition Round :: "rat \<Rightarrow> rat" where
  "Round y = (if 0 \<le> y then of_int \<lfloor>y + 1/2\<rfloor> else - of_int \<lfloor>- y + 1/2\<rfloor>)"

lemma round_half_even_of_int [simp]: "round_half_even (of_int z) = z"
  by (simp add: round_half_even_def)

lemma round_half_even_cases:
  obtains "round_half_even y = \<lfloor>y\<rfloor>" "y - of_int \<lfloor>y\<rfloor> \<le> 1/2"
  | "round_half_even y = \<lfloor>y\<rfloor> + 1" "1/2 \<le> y - of_int \<lfloor>y\<rfloor>"
  unfolding round_half_even_def Let_def by (metis linorder_not_less order_le_less)

lemma round_half_even_mono: "x \<le> y \<Longrightarrow> round_half_even x \<le> round_half_even y"
proof -
  assume le: "x \<le> y"
  then have fl: "\<lfloor>x\<rfloor> \<le> \<lfloor>y\<rfloor>" by (rule floor_mono)
  show ?thesis
  proof (cases "\<lfloor>x\<rfloor> = \<lfloor>y\<rfloor>")
    case True
    then show ?thesis using le unfolding round_half_even_def Let_def by auto
  next
    case False
    with fl have "\<lfloor>x\<rfloor> + 1 \<le> \<lfloor>y\<rfloor>" by simp
    then show ?thesis
      using round_half_even_cases [of x] round_half_even_cases [of y] by (smt (verit))
  qed
qed

lemma round_half_even_error: "\<bar>of_int (round_half_even y) - y\<bar> \<le> 1/2"
proof (cases rule: round_half_even_cases [of y])
  case 1
  then show ?thesis using of_int_floor_le [of y] by linarith
next
  case 2
  then show ?thesis by linarith
qed

section \<open>Rounding to 53 bits\<close>

definition expo :: "rat \<Rightarrow> int" where
  "expo x =
     (let (n, d) = quotient_of x; k = bitlen n - bitlen d in if 2 powi k \<le> x then k else k - 1)"

text \<open>The distance of neighbouring floats at the magnitude of \<open>x\<close>.\<close>

definition ulp :: "rat \<Rightarrow> rat" where
  "ulp x = 2 powi (expo x - 52)"

definition fl_pos :: "rat \<Rightarrow> rat" where
  "fl_pos x = of_int (round_half_even (x / ulp x)) * ulp x"

definition fl :: "rat \<Rightarrow> rat" where
  "fl x = (if x = 0 then 0 else if 0 < x then fl_pos x else - fl_pos (- x))"

lemma bitlen_powi:
  assumes "0 < n"
  shows "2 powi (bitlen n - 1) \<le> (of_int n :: rat)" "(of_int n :: rat) < 2 powi (bitlen n)"
proof -
  have b: "0 \<le> bitlen n - 1" using assms by (simp add: bitlen_alt_def)
  have n: "2 ^ nat (bitlen n - 1) \<le> n" "n < 2 ^ nat (bitlen n)" using bitlen_bounds [OF assms] by auto
  have "(2::rat) powi (bitlen n - 1) = of_int (2 ^ nat (bitlen n - 1))"
    "(2::rat) powi (bitlen n) = of_int (2 ^ nat (bitlen n))"
    using b by (simp_all add: power_int_def)
  with n show "2 powi (bitlen n - 1) \<le> (of_int n :: rat)" "(of_int n :: rat) < 2 powi (bitlen n)"
    by (simp_all only: of_int_le_iff of_int_less_iff)
qed

lemma expo_bounds:
  assumes "0 < x"
  shows "2 powi expo x \<le> x" "x < 2 powi (expo x + 1)"
proof -
  obtain n d where q: "quotient_of x = (n, d)" by (cases "quotient_of x")
  have d: "0 < d" using q by (rule quotient_of_denom_pos)
  have x: "x = of_int n / of_int d" using q by (rule quotient_of_div)
  have n: "0 < n" using assms x d by (simp add: zero_less_divide_iff)
  let ?k = "bitlen n - bitlen d"
  have "x < 2 powi bitlen n / 2 powi (bitlen d - 1)"
    unfolding x using bitlen_powi [OF n] bitlen_powi [OF d] n by (intro frac_less) (auto intro: less_imp_le)
  then have up: "x < 2 powi (?k + 1)" by (simp add: power_int_diff power_int_add)
  have "2 powi (bitlen n - 1) / 2 powi bitlen d \<le> x"
    unfolding x using bitlen_powi [OF n] bitlen_powi [OF d] n d by (intro frac_le) (auto intro: less_imp_le)
  then have low: "2 powi (?k - 1) \<le> x" by (simp add: power_int_diff)
  have "expo x = (if 2 powi ?k \<le> x then ?k else ?k - 1)" by (simp add: expo_def q)
  then show "2 powi expo x \<le> x" "x < 2 powi (expo x + 1)" using up low by auto
qed

lemma powi_less: "(2::rat) powi m < 2 powi n \<Longrightarrow> m < n"
  using power_int_increasing [of n m "2::rat"] by (cases "n \<le> m") auto

lemma expo_unique:
  assumes "2 powi e \<le> x" "x < 2 powi (e + 1)"
  shows "expo x = e"
proof -
  have x: "0 < x" using assms(1) by (meson less_le_trans zero_less_numeral zero_less_power_int)
  have "(2::rat) powi expo x < 2 powi (e + 1)" "(2::rat) powi e < 2 powi (expo x + 1)"
    using expo_bounds [OF x] assms by (meson le_less_trans)+
  then have "expo x < e + 1" "e < expo x + 1"
    by (blast intro: powi_less)+
  then show ?thesis by simp
qed


lemma ulp_pos: "0 < ulp x"
  by (simp add: ulp_def)

lemma scaled_bounds:
  assumes "0 < x"
  shows "2 ^ 52 \<le> x / ulp x" "x / ulp x < 2 ^ 53"
proof -
  have "2 powi expo x = (2::rat) ^ 52 * ulp x" "2 powi (expo x + 1) = (2::rat) ^ 53 * ulp x"
    by (simp_all add: ulp_def power_int_diff power_int_add)
  then show "2 ^ 52 \<le> x / ulp x" "x / ulp x < 2 ^ 53"
    using expo_bounds [OF assms] ulp_pos [of x] by (simp_all add: field_simps)
qed

lemma round_half_even_between:
  assumes "of_int a \<le> y" "y \<le> of_int b"
  shows "a \<le> round_half_even y" "round_half_even y \<le> b"
  using round_half_even_mono [OF assms(1)] round_half_even_mono [OF assms(2)] by simp_all

lemma fl_pos_between:
  assumes "of_int a \<le> x / ulp x" "x / ulp x \<le> of_int b"
  shows "of_int a * ulp x \<le> fl_pos x" "fl_pos x \<le> of_int b * ulp x"
  unfolding fl_pos_def using round_half_even_between [OF assms] ulp_pos [of x]
  by (simp_all add: mult_right_mono)

lemma fl_pos_bounds:
  assumes "0 < x"
  shows "2 powi expo x \<le> fl_pos x" "fl_pos x \<le> 2 powi (expo x + 1)"
proof -
  have "of_int (2 ^ 52) \<le> x / ulp x" "x / ulp x \<le> of_int (2 ^ 53)"
    unfolding of_int_power of_int_numeral using scaled_bounds [OF assms] by (auto intro: less_imp_le)
  note b = fl_pos_between [OF this, unfolded of_int_power of_int_numeral]
  have "2 powi expo x = (2::rat) ^ 52 * ulp x" "2 powi (expo x + 1) = (2::rat) ^ 53 * ulp x"
    by (simp_all add: ulp_def power_int_diff power_int_add)
  then show "2 powi expo x \<le> fl_pos x" "fl_pos x \<le> 2 powi (expo x + 1)" using b by simp_all
qed

lemma expo_mono: "0 < x \<Longrightarrow> x \<le> y \<Longrightarrow> expo x \<le> expo y"
  using expo_bounds [of x] expo_bounds [of y] powi_less [of "expo x" "expo y + 1"] by simp

lemma fl_pos_mono:
  assumes "0 < x" "x \<le> y"
  shows "fl_pos x \<le> fl_pos y"
proof (cases "expo x = expo y")
  case True
  then have "ulp x = ulp y" by (simp add: ulp_def)
  with assms show ?thesis
    unfolding fl_pos_def using ulp_pos [of y]
    by (simp add: round_half_even_mono divide_right_mono)
next
  case False
  with expo_mono [OF assms] have "expo x + 1 \<le> expo y" by simp
  then have "2 powi (expo x + 1) \<le> (2::rat) powi expo y" by (intro power_int_increasing) auto
  then show ?thesis using fl_pos_bounds [of x] fl_pos_bounds [of y] assms by simp
qed

lemma fl_pos_positive: "0 < x \<Longrightarrow> 0 < fl_pos x"
  using fl_pos_bounds(1) [of x] by (meson less_le_trans zero_less_numeral zero_less_power_int)

lemma fl_0 [simp]: "fl 0 = 0"
  by (simp add: fl_def)

lemma fl_minus [simp]: "fl (- x) = - fl x"
  by (simp add: fl_def)

lemma fl_positive: "0 < x \<Longrightarrow> 0 < fl x"
  by (simp add: fl_def fl_pos_positive)

lemma fl_eq_0_iff [simp]: "fl x = 0 \<longleftrightarrow> x = 0"
  using fl_positive [of x] fl_positive [of "- x"] by (cases x "0 :: rat" rule: linorder_cases) auto

lemma fl_mono: "x \<le> y \<Longrightarrow> fl x \<le> fl y"
  using fl_pos_mono [of x y] fl_pos_mono [of "- y" "- x"] fl_positive [of y] fl_positive [of "- x"]
  by (cases x "0 :: rat" rule: linorder_cases; cases y "0 :: rat" rule: linorder_cases) (auto simp: fl_def)

lemma fl_nonneg: "0 \<le> x \<Longrightarrow> 0 \<le> fl x"
  using fl_mono [of 0 x] by simp

text \<open>Integers up to \<open>2 ^ 53\<close> are floats.\<close>

lemma fl_pos_power: "fl_pos (2 powi k) = 2 powi k"
proof -
  have "expo (2 powi k) = k" by (rule expo_unique) (simp_all add: power_int_strict_increasing)
  then have k: "2 powi k = of_int (2 ^ 52) * ulp (2 powi k)" by (simp add: ulp_def power_int_diff)
  then have "2 powi k / ulp (2 powi k) = of_int (2 ^ 52)"
    using ulp_pos [of "2 powi k"] by (metis less_irrefl nonzero_mult_div_cancel_right)
  then have "fl_pos (2 powi k) = of_int (2 ^ 52) * ulp (2 powi k)"
    unfolding fl_pos_def by (simp only: round_half_even_of_int)
  then show ?thesis using k by simp
qed

lemma fl_of_int:
  assumes "\<bar>z\<bar> \<le> 2 ^ 53"
  shows "fl (of_int z) = of_int z"
proof -
  have pos: "fl_pos (of_int z) = of_int z" if z: "0 < z" "z \<le> 2 ^ 53" for z
  proof (cases "expo (of_int z) \<le> 52")
    case True
    have "(of_int z :: rat) / ulp (of_int z) = of_int (z * 2 ^ nat (52 - expo (of_int z)))"
      using True by (simp add: ulp_def power_int_def field_simps)
    then show ?thesis using ulp_pos [of "of_int z"] unfolding fl_pos_def
      by (simp only: round_half_even_of_int) (simp add: field_simps)
  next
    case False
    then have "(2::rat) powi 53 \<le> 2 powi expo (of_int z)" by (intro power_int_increasing) auto
    then have "(2::rat) powi 53 \<le> of_int z" using expo_bounds(1) [of "of_int z"] z by simp
    moreover have "(of_int z :: rat) \<le> 2 powi 53"
      using z(2) [folded of_int_le_iff [where 'a = rat]] by (simp add: power_int_def)
    ultimately have "of_int z = (2::rat) powi 53" by (rule antisym [rotated])
    then show ?thesis by (simp only: fl_pos_power)
  qed
  show ?thesis using pos [of z] pos [of "- z"] assms by (auto simp: fl_def)
qed

lemma Round_nonneg: "0 \<le> y \<Longrightarrow> 0 \<le> Round y"
  by (simp add: Round_def)

lemma Round_nonpos: "y \<le> 0 \<Longrightarrow> Round y \<le> 0"
  by (cases "y = 0") (simp_all add: Round_def)

lemma Round_mono:
  assumes "x \<le> y"
  shows "Round x \<le> Round y"
proof (cases "0 \<le> x \<or> y < 0")
  case True
  have "\<lfloor>x + 1/2\<rfloor> \<le> \<lfloor>y + 1/2\<rfloor>" "\<lfloor>- y + 1/2\<rfloor> \<le> \<lfloor>- x + 1/2\<rfloor>"
    using assms by (auto intro: floor_mono)
  then show ?thesis using True assms by (auto simp: Round_def)
next
  case False
  then have "Round x \<le> 0" "0 \<le> Round y" by (simp_all add: Round_nonpos Round_nonneg)
  then show ?thesis by (rule order_trans)
qed

end
