(* ===== verification/Flavors.thy ===== *)
theory Flavors
  imports Sizing Float64 System
begin

text \<open>
  \<^verbatim>\<open>src/pkg/providers/instancetype/instancetype.go\<close>, the half that is fixed at startup: the flavors the
  catalogue serves, the built-in ones merged with the operator's overrides, and their prices. The
  YAML decoder and the file system are parameters. Sizes are \<^verbatim>\<open>int64\<close> values, as integers; prices are
  \<^verbatim>\<open>float64\<close> values, as rationals rounded by \<open>fl\<close>. The text of an error is not modelled.
\<close>

section \<open>Prices\<close>

record Flavor =
  flName :: flavor
  flCPU :: int
  flMemoryKi :: int
  flPrice :: rat

definition cpuPriceWeight :: rat where
  "cpuPriceWeight = 1/3"

definition memoryPriceWeight :: rat where
  "memoryPriceWeight = 2/3"

definition priceReference :: sizing where
  "priceReference = snd (FlavorSizing ! 0)"

definition RelativePrice :: "int \<Rightarrow> int \<Rightarrow> rat" where
  "RelativePrice cpu memoryKi =
     (let price = fl (fl (fl (fl cpuPriceWeight * fl (of_int cpu)) / fl (of_int (CPU priceReference))) +
                      fl (fl (fl memoryPriceWeight * fl (of_int memoryKi)) / fl (of_int (MemoryKi priceReference))))
      in fl (Round (fl (price * 10000)) / 10000))"

definition DefaultFlavors :: "Flavor list" where
  "DefaultFlavors =
     map (\<lambda>(n, s). \<lparr>flName = n, flCPU = CPU s, flMemoryKi = MemoryKi s, flPrice = RelativePrice (CPU s) (MemoryKi s)\<rparr>)
       FlavorSizing"

section \<open>Names\<close>

text \<open>The language of \<^verbatim>\<open>FlavorNamePattern\<close>: \<open>M\<close>, or \<open>S\<close> or \<open>L\<close> after nothing, \<open>X\<close>, or a digit from 2 to 9 and \<open>X\<close>.\<close>

definition flavorPrefixes :: "string list" where
  "flavorPrefixes = '''' # ''X'' # map (\<lambda>d. [d, CHR ''X'']) ''23456789''"

definition flavorNameRegexp :: "string \<Rightarrow> bool" where
  "flavorNameRegexp s \<longleftrightarrow> s = ''M'' \<or> (\<exists>p \<in> set flavorPrefixes. \<exists>c \<in> set ''SL''. s = p @ [c])"

section \<open>Overrides\<close>

record FlavorOverride =
  ovName :: flavor
  ovCPU :: "int option"
  ovMemoryKi :: "int option"

datatype override_error =
    Unmarshaling string
  | EmptyList
  | EmptyName nat
  | BadName flavor
  | DuplicateName flavor
  | BadCPU flavor
  | BadMemory flavor
  | Unsized flavor
  | ReadingFile string

text \<open>The loop of \<^verbatim>\<open>ParseFlavorOverrides\<close>, from index \<open>i\<close> with the names \<open>seen\<close>.\<close>

fun check_overrides :: "nat \<Rightarrow> flavor list \<Rightarrow> FlavorOverride list \<Rightarrow> override_error option" where
  "check_overrides i seen [] = None"
| "check_overrides i seen (ov # ovs) =
     (if ovName ov = '''' then Some (EmptyName i)
      else if \<not> flavorNameRegexp (ovName ov) then Some (BadName (ovName ov))
      else if ovName ov \<in> set seen then Some (DuplicateName (ovName ov))
      else if (case ovCPU ov of Some c \<Rightarrow> c \<le> 0 | None \<Rightarrow> False) then Some (BadCPU (ovName ov))
      else if (case ovMemoryKi ov of Some m \<Rightarrow> m \<le> 0 | None \<Rightarrow> False) then Some (BadMemory (ovName ov))
      else if SizingByName (ovName ov) = None \<and> (ovCPU ov = None \<or> ovMemoryKi ov = None) then
        Some (Unsized (ovName ov))
      else check_overrides (i + 1) (ovName ov # seen) ovs)"

definition ParseFlavorOverrides ::
  "('d \<Rightarrow> string + FlavorOverride list) \<Rightarrow> 'd \<Rightarrow> override_error + FlavorOverride list" where
  "ParseFlavorOverrides unmarshal data =
     (case unmarshal data of
        Inl e \<Rightarrow> Inl (Unmarshaling e)
      | Inr overrides \<Rightarrow>
          if length overrides = 0 then Inl EmptyList
          else case check_overrides 0 [] overrides of
                 Some e \<Rightarrow> Inl e
               | None \<Rightarrow> Inr overrides)"

definition LoadFlavorsFromFile ::
  "(string \<Rightarrow> string + 'd) \<Rightarrow> ('d \<Rightarrow> string + FlavorOverride list) \<Rightarrow> string \<Rightarrow> override_error + FlavorOverride list" where
  "LoadFlavorsFromFile readFile unmarshal path =
     (case readFile path of
        Inl e \<Rightarrow> Inl (ReadingFile e)
      | Inr data \<Rightarrow> ParseFlavorOverrides unmarshal data)"

definition LoadFlavorsOrDegrade ::
  "(string \<Rightarrow> string + 'd) \<Rightarrow> ('d \<Rightarrow> string + FlavorOverride list) \<Rightarrow> string \<Rightarrow> 'w sys \<Rightarrow>
   FlavorOverride list \<times> 'w sys" where
  "LoadFlavorsOrDegrade readFile unmarshal path s =
     (let s1 = emit (SetGauge FlavorsConfigInvalid 0) s in
      if path = '''' then ([], s1)
      else case LoadFlavorsFromFile readFile unmarshal path of
             Inl e \<Rightarrow> ([], emit (SetGauge FlavorsConfigInvalid 1) s1)
           | Inr overrides \<Rightarrow> (overrides, s1))"

section \<open>The merge\<close>

definition base_step :: "Flavor \<Rightarrow> (flavor \<rightharpoonup> Flavor) \<times> flavor list \<Rightarrow> (flavor \<rightharpoonup> Flavor) \<times> flavor list" where
  "base_step f acc =
     (let (byName, order) = acc
      in (byName(flName f \<mapsto> f), if byName (flName f) = None then order @ [flName f] else order))"

definition override_step ::
  "(flavor \<rightharpoonup> Flavor) \<Rightarrow> FlavorOverride \<Rightarrow> (flavor \<rightharpoonup> FlavorOverride) \<times> flavor list \<Rightarrow>
   (flavor \<rightharpoonup> FlavorOverride) \<times> flavor list" where
  "override_step byName ov acc =
     (let (overrideByName, order) = acc
      in (overrideByName(ovName ov \<mapsto> ov), if byName (ovName ov) = None then order @ [ovName ov] else order))"

text \<open>The size of a flavor: the base entry or the seed, with the override's fields on top.\<close>

definition seeded :: "(flavor \<rightharpoonup> Flavor) \<Rightarrow> flavor \<Rightarrow> Flavor" where
  "seeded byName n =
     (case byName n of
        Some f \<Rightarrow> f
      | None \<Rightarrow> (case SizingByName n of
                   Some s \<Rightarrow> \<lparr>flName = n, flCPU = CPU s, flMemoryKi = MemoryKi s, flPrice = 0\<rparr>
                 | None \<Rightarrow> \<lparr>flName = n, flCPU = 0, flMemoryKi = 0, flPrice = 0\<rparr>))"

definition overridden :: "(flavor \<rightharpoonup> FlavorOverride) \<Rightarrow> flavor \<Rightarrow> Flavor \<Rightarrow> Flavor" where
  "overridden overrideByName n f =
     (case overrideByName n of
        None \<Rightarrow> f
      | Some ov \<Rightarrow>
          let f1 = (case ovCPU ov of Some c \<Rightarrow> f\<lparr>flCPU := c\<rparr> | None \<Rightarrow> f)
          in (case ovMemoryKi ov of Some m \<Rightarrow> f1\<lparr>flMemoryKi := m\<rparr> | None \<Rightarrow> f1))"

definition merge_step ::
  "(flavor \<rightharpoonup> Flavor) \<Rightarrow> (flavor \<rightharpoonup> FlavorOverride) \<Rightarrow> flavor \<Rightarrow> Flavor list \<times> flavor list \<Rightarrow> Flavor list \<times> flavor list" where
  "merge_step byName overrideByName n acc =
     (let (result, skipped) = acc; f = overridden overrideByName n (seeded byName n) in
      if flCPU f \<le> 0 \<or> flMemoryKi f \<le> 0 then (result, skipped @ [n])
      else (result @ [f\<lparr>flPrice := RelativePrice (flCPU f) (flMemoryKi f)\<rparr>], skipped))"

definition ApplyOverrides :: "Flavor list \<Rightarrow> FlavorOverride list \<Rightarrow> Flavor list \<times> flavor list" where
  "ApplyOverrides base overrides =
     (let (byName, order1) = fold base_step base (Map.empty, []);
          (overrideByName, order) = fold (override_step byName) overrides (Map.empty, order1)
      in fold (merge_step byName overrideByName) order ([], []))"

text \<open>The flavors \<^verbatim>\<open>NewProvider\<close> serves; an empty base stands for the built-in one.\<close>

definition NewProvider :: "Flavor list \<Rightarrow> FlavorOverride list \<Rightarrow> Flavor list" where
  "NewProvider base overrides =
     (let base' = (if length base = 0 then DefaultFlavors else base) in fst (ApplyOverrides base' overrides))"

text \<open>\<open>served\<close>: the first entry of that name; \<open>SizingOf\<close>: the served size, else the seed's.\<close>

definition served :: "Flavor list \<Rightarrow> flavor \<Rightarrow> Flavor option" where
  "served flavors n = find (\<lambda>f. flName f = n) flavors"

definition SizingOf :: "Flavor list \<Rightarrow> flavor \<Rightarrow> sizing option" where
  "SizingOf flavors n =
     (case served flavors n of
        Some f \<Rightarrow> Some (Sizing (flCPU f) (flMemoryKi f))
      | None \<Rightarrow> SizingByName n)"


section \<open>Prices follow sizes\<close>

lemma RelativePrice_mono:
  assumes "c \<le> c'" "m \<le> m'"
  shows "RelativePrice c m \<le> RelativePrice c' m'"
proof -
  let ?w = "\<lambda>wt v ref. fl (fl (fl wt * fl (of_int v)) / fl (of_int ref))"
  have ref: "0 \<le> fl (of_int (CPU priceReference))" "0 \<le> fl (of_int (MemoryKi priceReference))"
    by (simp_all add: fl_nonneg priceReference_def FlavorSizing_def)
  have wt: "0 \<le> fl cpuPriceWeight" "0 \<le> fl memoryPriceWeight"
    by (simp_all add: fl_nonneg cpuPriceWeight_def memoryPriceWeight_def)
  have part: "?w wt v r \<le> ?w wt v' r" if "0 \<le> fl wt" "0 \<le> fl (of_int r)" "v \<le> v'" for wt v v' r
    using that by (intro fl_mono divide_right_mono mult_left_mono) auto
  show ?thesis
    unfolding RelativePrice_def Let_def using wt ref assms
    by (intro fl_mono divide_right_mono Round_mono mult_right_mono add_mono part) auto
qed

text \<open>One vCPU alone is worth at least a sixteenth, a power of two that no rounding moves.\<close>

lemma fl_fraction: "fl (1/4) = 1/4" "fl (1/16) = 1/16"
  using fl_pos_power [of "- 2"] fl_pos_power [of "- 4"] by (simp_all add: fl_def power_int_minus)

lemma RelativePrice_1_positive: "0 < RelativePrice 1 1"
proof -
  let ?cpu = "fl (fl (fl cpuPriceWeight * fl (of_int 1)) / fl (of_int (CPU priceReference)))"
  let ?mem = "fl (fl (fl memoryPriceWeight * fl (of_int 1)) / fl (of_int (MemoryKi priceReference)))"
  have int: "fl (of_int 1) = 1" "fl (of_int (CPU priceReference)) = 4" "fl (of_int 625) = 625"
    using fl_of_int [of 1] fl_of_int [of 4] fl_of_int [of 625]
    by (simp_all add: priceReference_def FlavorSizing_def)
  have "fl (1/4) \<le> fl cpuPriceWeight" by (rule fl_mono) (simp add: cpuPriceWeight_def)
  then have w: "1/4 \<le> fl cpuPriceWeight * fl (of_int 1)" using int fl_fraction by simp
  have "1/4 \<le> fl (fl cpuPriceWeight * fl (of_int 1))" using fl_mono [OF w] fl_fraction by simp
  then have q: "1/16 \<le> fl (fl cpuPriceWeight * fl (of_int 1)) / fl (of_int (CPU priceReference))" using int by simp
  have "1/16 \<le> ?cpu" using fl_mono [OF q] fl_fraction by simp
  moreover have "0 \<le> ?mem"
    by (intro fl_nonneg divide_nonneg_nonneg mult_nonneg_nonneg)
      (simp_all add: memoryPriceWeight_def priceReference_def FlavorSizing_def)
  ultimately have s: "1/16 \<le> ?cpu + ?mem" by simp
  have "1/16 \<le> fl (?cpu + ?mem)" using fl_mono [OF s] fl_fraction by simp
  then have p: "of_int 625 \<le> fl (?cpu + ?mem) * 10000" by simp
  have "of_int 625 \<le> fl (fl (?cpu + ?mem) * 10000)" using fl_mono [OF p] int by simp
  then have "Round (of_int 625) \<le> Round (fl (fl (?cpu + ?mem) * 10000))" by (rule Round_mono)
  moreover have "\<lfloor>1251 / 2 :: rat\<rfloor> = 625" by (rule floor_unique) simp_all
  then have "Round (of_int 625) = 625" by (simp add: Round_def)
  ultimately show ?thesis unfolding RelativePrice_def Let_def by (intro fl_positive) simp
qed

text \<open>
  C36. A larger flavor is never cheaper. Whatever sizes the operator pins, a flavor at least as large
  as another in both dimensions has at least its price, through every rounding of the
  floating-point computation; and the smallest price a served size can have is positive.
\<close>

theorem price_monotone:
  "(AtLeast s t \<longrightarrow> RelativePrice (CPU t) (MemoryKi t) \<le> RelativePrice (CPU s) (MemoryKi s)) \<and>
   (0 < CPU s \<and> 0 < MemoryKi s \<longrightarrow> 0 < RelativePrice (CPU s) (MemoryKi s))"
proof (intro conjI impI)
  assume "AtLeast s t"
  then show "RelativePrice (CPU t) (MemoryKi t) \<le> RelativePrice (CPU s) (MemoryKi s)"
    by (intro RelativePrice_mono) (simp_all add: AtLeast_def)
next
  assume "0 < CPU s \<and> 0 < MemoryKi s"
  then have "RelativePrice 1 1 \<le> RelativePrice (CPU s) (MemoryKi s)" by (intro RelativePrice_mono) auto
  then show "0 < RelativePrice (CPU s) (MemoryKi s)" using RelativePrice_1_positive by simp
qed

theorem price_monotone_witness:
  "RelativePrice 12 22896304 \<le> RelativePrice 16 30584176 \<and> 0 < RelativePrice 16 30584176"
  using price_monotone [of "Sizing 16 30584176" "Sizing 12 22896304"] by (simp add: AtLeast_def)

section \<open>The merge, for distinct names\<close>

lemma map_add_first: "k \<notin> fst ` set xs \<Longrightarrow> m(k \<mapsto> v) ++ map_of xs = m ++ map_of ((k, v) # xs)"
  by (simp add: map_add_upd_left dom_map_of_conv_image_fst)

lemma base_index:
  assumes "distinct (map flName fs)" and "\<forall>f \<in> set fs. m (flName f) = None"
  shows "fold base_step fs (m, ord) = (m ++ map_of (map (\<lambda>f. (flName f, f)) fs), ord @ map flName fs)"
  using assms
proof (induction fs arbitrary: m ord)
  case (Cons f fs)
  have n: "flName f \<notin> flName ` set fs" using Cons.prems(1) by simp
  then have e: "m(flName f \<mapsto> f) ++ map_of (map (\<lambda>f. (flName f, f)) fs) = m ++ map_of (map (\<lambda>f. (flName f, f)) (f # fs))"
    using map_add_first [of "flName f" "map (\<lambda>f. (flName f, f)) fs" m f] unfolding list.map by (simp add: image_image)
  have "\<forall>g \<in> set fs. (m(flName f \<mapsto> f)) (flName g) = None"
    using Cons.prems(2) n by (metis fun_upd_apply imageI list.set_intros(2))
  then have ih: "fold base_step fs (m(flName f \<mapsto> f), ord @ [flName f]) =
      (m(flName f \<mapsto> f) ++ map_of (map (\<lambda>f. (flName f, f)) fs), (ord @ [flName f]) @ map flName fs)"
    using Cons.prems(1) by (intro Cons.IH) simp_all
  have "base_step f (m, ord) = (m(flName f \<mapsto> f), ord @ [flName f])"
    using Cons.prems(2) by (simp add: base_step_def)
  then show ?case by (simp only: fold_Cons comp_apply ih e list.map append_assoc append_Cons append_Nil)
qed simp

lemma override_index:
  assumes "distinct (map ovName vs)"
  shows "fold (override_step byName) vs (m, ord) =
    (m ++ map_of (map (\<lambda>v. (ovName v, v)) vs), ord @ filter (\<lambda>n. byName n = None) (map ovName vs))"
  using assms
proof (induction vs arbitrary: m ord)
  case (Cons v vs)
  then have n: "ovName v \<notin> ovName ` set vs" "distinct (map ovName vs)" by simp_all
  then have e: "m(ovName v \<mapsto> v) ++ map_of (map (\<lambda>v. (ovName v, v)) vs) = m ++ map_of (map (\<lambda>v. (ovName v, v)) (v # vs))"
    using map_add_first [of "ovName v" "map (\<lambda>v. (ovName v, v)) vs" m v] unfolding list.map by (simp add: image_image)
  have s: "override_step byName v (m, ord) = (m(ovName v \<mapsto> v), ord @ filter (\<lambda>n. byName n = None) [ovName v])"
    by (simp add: override_step_def)
  show ?case by (simp only: fold_Cons comp_apply s Cons.IH [OF n(2)] e list.map append_assoc)
    (simp only: filter_append [symmetric] append_Cons append_Nil)
qed simp

lemma merge_all:
  assumes "\<forall>n \<in> set ns. 0 < flCPU (overridden ovm n (seeded byName n)) \<and> 0 < flMemoryKi (overridden ovm n (seeded byName n))"
  shows "fold (merge_step byName ovm) ns (r, k) =
    (r @ map (\<lambda>n. let f = overridden ovm n (seeded byName n)
       in f\<lparr>flPrice := RelativePrice (flCPU f) (flMemoryKi f)\<rparr>) ns, k)"
  using assms
proof (induction ns arbitrary: r)
  case (Cons n ns)
  then have "merge_step byName ovm n (r, k) = (r @ [let f = overridden ovm n (seeded byName n)
       in f\<lparr>flPrice := RelativePrice (flCPU f) (flMemoryKi f)\<rparr>], k)"
    by (simp add: merge_step_def Let_def not_le)
  with Cons show ?case by simp
qed simp

text \<open>What the checks of the parser leave.\<close>

definition sound_override :: "FlavorOverride \<Rightarrow> bool" where
  "sound_override v \<longleftrightarrow> flavorNameRegexp (ovName v) \<and>
     (\<forall>c. ovCPU v = Some c \<longrightarrow> 0 < c) \<and> (\<forall>m. ovMemoryKi v = Some m \<longrightarrow> 0 < m) \<and>
     (SizingByName (ovName v) = None \<longrightarrow> ovCPU v \<noteq> None \<and> ovMemoryKi v \<noteq> None)"

lemma check_overrides_None:
  "check_overrides i seen vs = None \<Longrightarrow>
   distinct (map ovName vs) \<and> set (map ovName vs) \<inter> set seen = {} \<and> (\<forall>v \<in> set vs. sound_override v)"
proof (induction i seen vs rule: check_overrides.induct)
  case (2 i seen v vs)
  have c: "flavorNameRegexp (ovName v)" "ovName v \<notin> set seen" "\<not> (case ovCPU v of Some c \<Rightarrow> c \<le> 0 | None \<Rightarrow> False)"
      "\<not> (case ovMemoryKi v of Some m \<Rightarrow> m \<le> 0 | None \<Rightarrow> False)"
      "\<not> (SizingByName (ovName v) = None \<and> (ovCPU v = None \<or> ovMemoryKi v = None))"
      "check_overrides (i + 1) (ovName v # seen) vs = None"
    using 2(2) by (simp_all split: if_splits)
  have "sound_override v" using c by (auto simp: sound_override_def)
  moreover have "distinct (map ovName vs) \<and> set (map ovName vs) \<inter> set (ovName v # seen) = {} \<and> (\<forall>v \<in> set vs. sound_override v)"
    using 2 c by (simp split: if_splits)
  ultimately show ?case using c(2) by auto
qed simp


lemma ParseFlavorOverrides_Inr:
  "ParseFlavorOverrides unmarshal data = Inr vs \<Longrightarrow>
   unmarshal data = Inr vs \<and> vs \<noteq> [] \<and> distinct (map ovName vs) \<and> (\<forall>v \<in> set vs. sound_override v)"
  by (auto simp: ParseFlavorOverrides_def split: sum.splits if_splits option.splits dest: check_overrides_None)

section \<open>An accepted file is served in full\<close>

lemma DefaultFlavors_names: "map flName DefaultFlavors = map fst FlavorSizing"
  by (simp add: DefaultFlavors_def case_prod_beta comp_def)

lemma builtin_index: "n \<in> set (map fst FlavorSizing) \<longleftrightarrow> SizingByName n \<noteq> None"
  by (simp add: SizingByName_def map_of_eq_None_iff)

lemma builtin_distinct: "distinct (map fst FlavorSizing)"
  by (simp add: FlavorSizing_def)

lemma builtin_seed:
  "seeded (map_of (map (\<lambda>f. (flName f, f)) DefaultFlavors)) n =
     (case SizingByName n of
        Some s \<Rightarrow> \<lparr>flName = n, flCPU = CPU s, flMemoryKi = MemoryKi s, flPrice = RelativePrice (CPU s) (MemoryKi s)\<rparr>
      | None \<Rightarrow> \<lparr>flName = n, flCPU = 0, flMemoryKi = 0, flPrice = 0\<rparr>)"
  by (simp add: seeded_def SizingByName_def DefaultFlavors_def FlavorSizing_def)

lemma builtin_sizes: "SizingByName n = Some s \<Longrightarrow> 0 < CPU s \<and> 0 < MemoryKi s"
  by (auto simp: SizingByName_def FlavorSizing_def split: if_splits)

text \<open>The size a flavor is to have: the override's fields on top of the built-in ones.\<close>

definition wanted_cpu :: "FlavorOverride list \<Rightarrow> flavor \<Rightarrow> int" where
  "wanted_cpu vs n =
     (case Option.bind (find (\<lambda>v. ovName v = n) vs) ovCPU of
        Some c \<Rightarrow> c | None \<Rightarrow> (case SizingByName n of Some s \<Rightarrow> CPU s | None \<Rightarrow> 0))"

definition wanted_memoryKi :: "FlavorOverride list \<Rightarrow> flavor \<Rightarrow> int" where
  "wanted_memoryKi vs n =
     (case Option.bind (find (\<lambda>v. ovName v = n) vs) ovMemoryKi of
        Some m \<Rightarrow> m | None \<Rightarrow> (case SizingByName n of Some s \<Rightarrow> MemoryKi s | None \<Rightarrow> 0))"

lemma find_map_of: "distinct (map ovName vs) \<Longrightarrow>
   map_of (map (\<lambda>v. (ovName v, v)) vs) n = find (\<lambda>v. ovName v = n) vs"
  by (induction vs) auto

lemma merged_size:
  assumes "distinct (map ovName vs)"
  defines "f \<equiv> \<lambda>n. overridden (map_of (map (\<lambda>v. (ovName v, v)) vs)) n
    (seeded (map_of (map (\<lambda>f. (flName f, f)) DefaultFlavors)) n)"
  shows "flName (f n) = n" "flCPU (f n) = wanted_cpu vs n" "flMemoryKi (f n) = wanted_memoryKi vs n"
  unfolding f_def overridden_def find_map_of [OF assms(1)] builtin_seed wanted_cpu_def wanted_memoryKi_def Let_def
  by (auto split: option.splits)

lemma wanted_positive:
  assumes "\<forall>v \<in> set vs. sound_override v" and "SizingByName n \<noteq> None \<or> n \<in> ovName ` set vs"
  shows "0 < wanted_cpu vs n" "0 < wanted_memoryKi vs n"
proof -
  have "0 < wanted_cpu vs n \<and> 0 < wanted_memoryKi vs n"
  proof (cases "find (\<lambda>v. ovName v = n) vs")
    case None
    then obtain s where "SizingByName n = Some s" using assms(2) by (auto simp: find_None_iff)
    with None show ?thesis using builtin_sizes by (simp add: wanted_cpu_def wanted_memoryKi_def)
  next
    case (Some v)
    then have v: "v \<in> set vs" "ovName v = n" by (auto simp: find_Some_iff)
    then have "sound_override v" using assms(1) by blast
    with Some v show ?thesis using builtin_sizes [of n]
      by (auto simp: sound_override_def wanted_cpu_def wanted_memoryKi_def split: option.splits)
  qed
  then show "0 < wanted_cpu vs n" "0 < wanted_memoryKi vs n" by simp_all
qed

lemma ApplyOverrides_builtin:
  assumes "distinct (map ovName vs)" and "\<forall>v \<in> set vs. sound_override v"
  defines "names \<equiv> map fst FlavorSizing @ filter (\<lambda>n. SizingByName n = None) (map ovName vs)"
  shows "ApplyOverrides DefaultFlavors vs =
    (map (\<lambda>n. \<lparr>flName = n, flCPU = wanted_cpu vs n, flMemoryKi = wanted_memoryKi vs n,
               flPrice = RelativePrice (wanted_cpu vs n) (wanted_memoryKi vs n)\<rparr>) names, [])"
proof -
  let ?base = "map_of (map (\<lambda>f. (flName f, f)) DefaultFlavors)"
  let ?ov = "map_of (map (\<lambda>v. (ovName v, v)) vs)"
  let ?f = "\<lambda>n. overridden ?ov n (seeded ?base n)"
  have b: "fold base_step DefaultFlavors (Map.empty, []) = (?base, map fst FlavorSizing)"
    using base_index [of DefaultFlavors Map.empty "[]"] builtin_distinct by (simp add: DefaultFlavors_names)
  have none: "?base n = None \<longleftrightarrow> SizingByName n = None" for n
    by (simp add: SizingByName_def DefaultFlavors_def FlavorSizing_def)
  have ov: "fold (override_step ?base) vs (Map.empty, map fst FlavorSizing) = (?ov, names)"
    using override_index [OF assms(1), of ?base Map.empty] by (simp add: names_def none)
  have "SizingByName n \<noteq> None \<or> n \<in> ovName ` set vs" if "n \<in> set names" for n
    using that builtin_index [of n] by (auto simp: names_def)
  then have pos: "\<forall>n \<in> set names. 0 < flCPU (?f n) \<and> 0 < flMemoryKi (?f n)"
    using wanted_positive [OF assms(2)] by (simp add: merged_size [OF assms(1)])
  have "ApplyOverrides DefaultFlavors vs = (map (\<lambda>n. let f = ?f n in f\<lparr>flPrice := RelativePrice (flCPU f) (flMemoryKi f)\<rparr>) names, [])"
    unfolding ApplyOverrides_def b ov Let_def prod.case using merge_all [OF pos, of "[]" "[]"] by (simp add: Let_def)
  also have "\<dots> = (map (\<lambda>n. \<lparr>flName = n, flCPU = wanted_cpu vs n, flMemoryKi = wanted_memoryKi vs n,
               flPrice = RelativePrice (wanted_cpu vs n) (wanted_memoryKi vs n)\<rparr>) names, [])"
    by (simp add: Let_def merged_size [OF assms(1)] Flavor.equality)
  finally show ?thesis .
qed

text \<open>
  C37. An overrides file that parses is served in full. Nothing is skipped; the catalogue is the
  built-in flavors in their order followed by the new names in the file's order, every name once and
  of a flavor's shape; each flavor has the override's cpu and memory where the file sets them and the
  built-in ones elsewhere, both positive; and its price is derived from exactly those.
\<close>

theorem accepted_overrides_are_served:
  assumes "ParseFlavorOverrides unmarshal data = Inr vs"
  shows "\<exists>fs. ApplyOverrides DefaultFlavors vs = (fs, []) \<and>
    map flName fs = map fst FlavorSizing @ filter (\<lambda>n. SizingByName n = None) (map ovName vs) \<and>
    distinct (map flName fs) \<and>
    (\<forall>f \<in> set fs. flavorNameRegexp (flName f) \<and> 0 < flCPU f \<and> 0 < flMemoryKi f \<and>
       flCPU f = wanted_cpu vs (flName f) \<and> flMemoryKi f = wanted_memoryKi vs (flName f) \<and>
       flPrice f = RelativePrice (flCPU f) (flMemoryKi f))"
proof -
  from ParseFlavorOverrides_Inr [OF assms] have d: "distinct (map ovName vs)" and sound: "\<forall>v \<in> set vs. sound_override v"
    by simp_all
  let ?names = "map fst FlavorSizing @ filter (\<lambda>n. SizingByName n = None) (map ovName vs)"
  have "set (map fst FlavorSizing) \<inter> set (filter (\<lambda>n. SizingByName n = None) (map ovName vs)) = {}"
    using builtin_index unfolding disjoint_iff set_filter by blast
  then have dist: "distinct ?names"
    using d builtin_distinct by (simp add: distinct_filter)
  have shape: "flavorNameRegexp n" if "n \<in> set ?names" for n
  proof -
    have "\<forall>n \<in> set (map fst FlavorSizing). flavorNameRegexp n"
      by (simp add: FlavorSizing_def flavorNameRegexp_def flavorPrefixes_def)
    then show ?thesis using that sound by (auto simp: sound_override_def)
  qed
  have known: "SizingByName n \<noteq> None \<or> n \<in> ovName ` set vs" if "n \<in> set ?names" for n
    using that builtin_index [of n] by auto
  obtain names where names: "names = ?names" by blast
  have "ApplyOverrides DefaultFlavors vs = (map (\<lambda>n. \<lparr>flName = n, flCPU = wanted_cpu vs n,
      flMemoryKi = wanted_memoryKi vs n, flPrice = RelativePrice (wanted_cpu vs n) (wanted_memoryKi vs n)\<rparr>) names, [])"
    unfolding names by (rule ApplyOverrides_builtin [OF d sound])
  with dist shape wanted_positive [OF sound known] show ?thesis
    unfolding names [symmetric] by (auto simp: comp_def)
qed

definition example_override :: FlavorOverride where
  "example_override = \<lparr>ovName = ''2XL'', ovCPU = Some 32, ovMemoryKi = Some 61000000\<rparr>"

theorem accepted_overrides_are_served_witness:
  "\<exists>fs f. ApplyOverrides DefaultFlavors [example_override] = (fs, []) \<and> f \<in> set fs \<and> flName f = ''2XL'' \<and>
     0 < flCPU f"
proof -
  have "ParseFlavorOverrides (\<lambda>_. Inr [example_override]) () = Inr [example_override]"
    by (simp add: ParseFlavorOverrides_def example_override_def flavorNameRegexp_def flavorPrefixes_def
        SizingByName_def FlavorSizing_def)
  from accepted_overrides_are_served [OF this] obtain fs where
    fs: "ApplyOverrides DefaultFlavors [example_override] = (fs, [])" "\<forall>f \<in> set fs. 0 < flCPU f"
      "map flName fs = map fst FlavorSizing @ filter (\<lambda>n. SizingByName n = None) (map ovName [example_override])"
    by auto
  have "SizingByName ''2XL'' = None" "ovName example_override = ''2XL''"
    by (simp_all add: SizingByName_def FlavorSizing_def example_override_def)
  then have "''2XL'' \<in> set (map flName fs)" unfolding fs(3) by simp
  then obtain f where "f \<in> set fs" "flName f = ''2XL''" by auto
  with fs(1,2) show ?thesis by blast
qed

text \<open>
  A broken overrides file never takes a flavor away. Whatever the path, the file system and the
  file's content, loading returns; the gauge ends at 1 exactly when a configured file was refused, in
  which case no override of it applies; and the catalogue built from what was loaded always serves
  every built-in flavor.
\<close>

theorem degraded_load_keeps_builtins:
  assumes "LoadFlavorsOrDegrade readFile unmarshal path s = (vs, s')"
  shows "(let refused = path \<noteq> '''' \<and> isl (LoadFlavorsFromFile readFile unmarshal path) in
      did s s' = SetGauge FlavorsConfigInvalid 0 # (if refused then [SetGauge FlavorsConfigInvalid 1] else []) \<and>
      (refused \<longrightarrow> vs = [])) \<and>
    (\<forall>n. SizingByName n \<noteq> None \<longrightarrow> served (NewProvider [] vs) n \<noteq> None)"
proof
  show "let refused = path \<noteq> '''' \<and> isl (LoadFlavorsFromFile readFile unmarshal path) in
      did s s' = SetGauge FlavorsConfigInvalid 0 # (if refused then [SetGauge FlavorsConfigInvalid 1] else []) \<and>
      (refused \<longrightarrow> vs = [])"
    using assms by (auto simp: LoadFlavorsOrDegrade_def Let_def did_def split: if_splits sum.splits)
  have "vs = [] \<or> (\<exists>d. ParseFlavorOverrides unmarshal d = Inr vs)"
    using assms by (auto simp: LoadFlavorsOrDegrade_def LoadFlavorsFromFile_def Let_def split: if_splits sum.splits)
  then have v: "distinct (map ovName vs) \<and> (\<forall>v \<in> set vs. sound_override v)"
    using ParseFlavorOverrides_Inr by fastforce
  have "map flName (NewProvider [] vs) =
      map fst FlavorSizing @ filter (\<lambda>n. SizingByName n = None) (map ovName vs)"
    using v by (simp add: NewProvider_def ApplyOverrides_builtin comp_def)
  then have "n \<in> set (map flName (NewProvider [] vs))" if "SizingByName n \<noteq> None" for n
    using that builtin_index [of n] by simp
  then show "\<forall>n. SizingByName n \<noteq> None \<longrightarrow> served (NewProvider [] vs) n \<noteq> None"
    by (auto simp: served_def find_None_iff)
qed

theorem degraded_load_keeps_builtins_witness:
  "served (NewProvider [] (fst (LoadFlavorsOrDegrade (\<lambda>p. Inr p) (\<lambda>d. Inl ''syntax'') ''flavors.yaml'' (start ())))) ''XL'' \<noteq> None"
proof -
  have "SizingByName ''XL'' \<noteq> None" by (simp add: SizingByName_def FlavorSizing_def)
  then show ?thesis
    using degraded_load_keeps_builtins [of "\<lambda>p. Inr p" "\<lambda>d. Inl ''syntax''" "''flavors.yaml''" "start ()"]
    by (metis prod.collapse)
qed

end
