(* ===== verification/InstanceTypes.thy ===== *)
theory InstanceTypes
  imports Flavors Labels
begin

text \<open>
  \<^verbatim>\<open>src/pkg/providers/instancetype/instancetype.go\<close>, the half that changes at run time: what running
  nodes report, the disk profile of the host node, and the instance types built from both. Every
  operation is one critical section of the provider's \<^verbatim>\<open>mu\<close>. Kubernetes' quantities are rationals;
  the helpers of other modules on resource lists are parameters (\<open>res_lib\<close>), with what is documented
  of them as \<open>lawful_res\<close>.
\<close>

section \<open>Resource lists\<close>

definition ResourceCPU :: string where "ResourceCPU = ''cpu''"
definition ResourceMemory :: string where "ResourceMemory = ''memory''"
definition ResourceEphemeralStorage :: string where "ResourceEphemeralStorage = ''ephemeral-storage''"
definition ResourcePods :: string where "ResourcePods = ''pods''"

lemmas resource_defs = ResourceCPU_def ResourceMemory_def ResourceEphemeralStorage_def ResourcePods_def

lemma resource_neqs [simp]:
  "ResourceCPU \<noteq> ResourceMemory" "ResourceCPU \<noteq> ResourceEphemeralStorage" "ResourceCPU \<noteq> ResourcePods"
  "ResourceMemory \<noteq> ResourceEphemeralStorage" "ResourceMemory \<noteq> ResourcePods"
  "ResourceEphemeralStorage \<noteq> ResourcePods" "ResourceMemory \<noteq> ResourceCPU"
  "ResourceEphemeralStorage \<noteq> ResourceCPU" "ResourcePods \<noteq> ResourceCPU"
  "ResourceEphemeralStorage \<noteq> ResourceMemory" "ResourcePods \<noteq> ResourceMemory"
  "ResourcePods \<noteq> ResourceEphemeralStorage"
  by (simp_all add: resource_defs)

definition generalizableResources :: "string list" where
  "generalizableResources = [ResourceCPU, ResourceMemory, ResourceEphemeralStorage, ResourcePods]"

text \<open>A Go read of a resource list: an absent key is the zero quantity.\<close>

definition q_at :: "resources \<Rightarrow> string \<Rightarrow> quantity" where
  "q_at l r = (case l r of None \<Rightarrow> 0 | Some q \<Rightarrow> q)"

text \<open>\<^verbatim>\<open>int64\<close> arithmetic wraps.\<close>

definition wrap64 :: "int \<Rightarrow> int" where
  "wrap64 z = sint (word_of_int z :: 64 word)"

record overhead =
  ohKubeReserved :: resources
  ohSystemReserved :: resources
  ohEvictionThreshold :: resources

definition no_overhead :: overhead where
  "no_overhead = \<lparr>ohKubeReserved = Map.empty, ohSystemReserved = Map.empty, ohEvictionThreshold = Map.empty\<rparr>"

text \<open>
  \<^verbatim>\<open>resources.Subtract\<close>, \<^verbatim>\<open>InstanceTypeOverhead.Total\<close>, \<^verbatim>\<open>InstanceType.Allocatable\<close> of a capacity and an
  overhead, \<^verbatim>\<open>lo.Assign\<close>, and a quantity's \<^verbatim>\<open>AsApproximateFloat64\<close> and \<^verbatim>\<open>Value\<close>.
\<close>

record res_lib =
  rlSubtract :: "resources \<Rightarrow> resources \<Rightarrow> resources"
  rlTotal :: "overhead \<Rightarrow> resources"
  rlAllocatable :: "resources \<Rightarrow> overhead \<Rightarrow> resources"
  rlAssign :: "resources \<Rightarrow> resources \<Rightarrow> resources"
  rlApprox :: "quantity \<Rightarrow> rat"
  rlValue :: "quantity \<Rightarrow> int"

text \<open>
  Subtraction goes by the keys of its left list, totals add up what any part of the overhead
  reserves, the right list of an assignment wins, and what a machine has to give is its capacity
  less its overhead (huge pages apart, which no capacity here has).
\<close>

definition lawful_res :: "res_lib \<Rightarrow> bool" where
  "lawful_res L \<longleftrightarrow>
     (\<forall>a b r. rlSubtract L a b r = map_option (\<lambda>q. q - q_at b r) (a r)) \<and>
     (\<forall>oh r. rlTotal L oh r =
        (if r \<in> dom (ohKubeReserved oh) \<union> dom (ohSystemReserved oh) \<union> dom (ohEvictionThreshold oh)
         then Some (q_at (ohKubeReserved oh) r + q_at (ohSystemReserved oh) r + q_at (ohEvictionThreshold oh) r)
         else None)) \<and>
     (\<forall>a b. rlAssign L a b = a ++ b) \<and>
     (\<forall>c oh. dom c \<subseteq> set generalizableResources \<longrightarrow> rlAllocatable L c oh = rlSubtract L c (rlTotal L oh))"

section \<open>State\<close>

record observedCapacity =
  ocCapacity :: resources
  ocAllocatable :: resources

record ephemeralStorageProfile =
  epCapacity :: quantity
  epAllocatable :: quantity

text \<open>What \<^verbatim>\<open>Provider\<close> is built with, and what its \<^verbatim>\<open>mu\<close> guards.\<close>

record inst_conf =
  icRegion :: string
  icFlavors :: "Flavor list"

record inst_state =
  isObserved :: "flavor \<rightharpoonup> observedCapacity"
  isRequired :: bool
  isReady :: bool
  isReference :: "ephemeralStorageProfile option"

definition inst0 :: inst_state where
  "inst0 = \<lparr>isObserved = Map.empty, isRequired = False, isReady = False, isReference = None\<rparr>"

definition ephemeralStorage :: quantity where "ephemeralStorage = 102624184 * 1024"
definition maxPods :: quantity where "maxPods = 110"
definition legacyEphemeralStorage :: quantity where "legacyEphemeralStorage = 40971488 * 1024"
definition legacyEphemeralAllocatable :: quantity where "legacyEphemeralAllocatable = 37759323279"
definition kubeReservedMemory :: quantity where "kubeReservedMemory = 100 * 1024 * 1024"
definition evictionEphemeralThreshold :: quantity where "evictionEphemeralThreshold = 10262419 * 1024"

definition observedTolerance :: rat where
  "observedTolerance = fl (1/10)"

section \<open>The disk profile of the host\<close>

definition drop_disk :: "observedCapacity \<Rightarrow> observedCapacity" where
  "drop_disk ob = \<lparr>ocCapacity = (ocCapacity ob)(ResourceEphemeralStorage := None),
                  ocAllocatable = (ocAllocatable ob)(ResourceEphemeralStorage := None)\<rparr>"

definition RequireEphemeralStorageReference :: "inst_state \<Rightarrow> inst_state" where
  "RequireEphemeralStorageReference st =
     (if isRequired st then st
      else st\<lparr>isRequired := True, isObserved := (\<lambda>f. map_option drop_disk (isObserved st f))\<rparr>)"

definition EphemeralStorageReady :: "inst_state \<Rightarrow> bool" where
  "EphemeralStorageReady st \<longleftrightarrow> \<not> isRequired st \<or> isReady st"

definition InvalidateEphemeralStorageReference :: "inst_state \<Rightarrow> inst_state" where
  "InvalidateEphemeralStorageReference st = st\<lparr>isReady := False\<rparr>"

datatype disk_error = NotWholeBytes string quantity | AllocatableExceeds quantity quantity | NotEnabled

definition bad_bytes :: "res_lib \<Rightarrow> quantity \<Rightarrow> bool" where
  "bad_bytes L q \<longleftrightarrow> rlValue L q \<le> 0 \<or> q \<noteq> of_int (rlValue L q)"

definition SetEphemeralStorageReference ::
  "res_lib \<Rightarrow> quantity \<Rightarrow> quantity \<Rightarrow> inst_state \<Rightarrow> (disk_error + bool) \<times> inst_state" where
  "SetEphemeralStorageReference L capacity allocatable st =
     (if bad_bytes L capacity then (Inl (NotWholeBytes ''capacity'' capacity), st)
      else if bad_bytes L allocatable then (Inl (NotWholeBytes ''allocatable'' allocatable), st)
      else if capacity < allocatable then (Inl (AllocatableExceeds allocatable capacity), st)
      else
        let c = of_int (rlValue L capacity); a = of_int (rlValue L allocatable) in
        if \<not> isRequired st then (Inl NotEnabled, st)
        else
          let changed = (\<not> isReady st \<or>
                (case isReference st of None \<Rightarrow> True | Some p \<Rightarrow> epCapacity p \<noteq> c \<or> epAllocatable p \<noteq> a))
          in (Inr changed, st\<lparr>isReference := Some \<lparr>epCapacity = c, epAllocatable = a\<rparr>, isReady := True\<rparr>))"

section \<open>What a catalogue entry advertises before any report\<close>

definition staticCapacity :: "Flavor \<Rightarrow> resources \<times> overhead" where
  "staticCapacity f =
     ([ResourceCPU \<mapsto> of_int (flCPU f), ResourceMemory \<mapsto> of_int (wrap64 (flMemoryKi f * 1024)),
       ResourceEphemeralStorage \<mapsto> ephemeralStorage, ResourcePods \<mapsto> maxPods],
      \<lparr>ohKubeReserved = [ResourceMemory \<mapsto> kubeReservedMemory], ohSystemReserved = Map.empty,
       ohEvictionThreshold = [ResourceEphemeralStorage \<mapsto> evictionEphemeralThreshold]\<rparr>)"

definition sized :: "flavor \<Rightarrow> sizing \<Rightarrow> Flavor" where
  "sized n s = \<lparr>flName = n, flCPU = CPU s, flMemoryKi = MemoryKi s, flPrice = 0\<rparr>"

definition reference_capacity :: "res_lib \<Rightarrow> inst_conf \<Rightarrow> flavor \<Rightarrow> observedCapacity option" where
  "reference_capacity L conf n =
     (case SizingOf (icFlavors conf) n of
        None \<Rightarrow> None
      | Some s \<Rightarrow>
          let (capacity, oh) = staticCapacity (sized n s)
          in Some \<lparr>ocCapacity = capacity, ocAllocatable = rlSubtract L capacity (rlTotal L oh)\<rparr>)"

section \<open>Checking a report\<close>

text \<open>A \<^verbatim>\<open>float64\<close> that may be \<^verbatim>\<open>+Inf\<close>.\<close>

datatype f64 = Finite rat | PosInf

definition off_by_more :: "f64 \<Rightarrow> rat \<Rightarrow> bool" where
  "off_by_more d tol = (case d of PosInf \<Rightarrow> True | Finite x \<Rightarrow> tol < \<bar>x\<bar>)"

definition deviation :: "res_lib \<Rightarrow> quantity \<Rightarrow> quantity \<Rightarrow> f64" where
  "deviation L got want =
     (let w = rlApprox L want in
      if w = 0 then PosInf else Finite (fl (fl (rlApprox L got / w) - 1)))"

datatype obs_error =
    OnlyOneSide string
  | AboveCapacity string
  | OtherCPU
  | CapacityOff string
  | AllocatableOff string
  | DiskRatioOff

fun first_error :: "('a \<Rightarrow> 'e option) \<Rightarrow> 'a list \<Rightarrow> 'e option" where
  "first_error chk [] = None"
| "first_error chk (x # xs) = (case chk x of Some e \<Rightarrow> Some e | None \<Rightarrow> first_error chk xs)"

definition consistent_at :: "observedCapacity \<Rightarrow> string \<Rightarrow> obs_error option" where
  "consistent_at obs r =
     (let c = ocCapacity obs r; a = ocAllocatable obs r in
      if (c \<noteq> None) \<noteq> (a \<noteq> None) then Some (OnlyOneSide r)
      else if c \<noteq> None \<and> q_at (ocCapacity obs) r < q_at (ocAllocatable obs) r then Some (AboveCapacity r)
      else None)"

definition checkConsistent :: "observedCapacity \<Rightarrow> obs_error option" where
  "checkConsistent obs = first_error (consistent_at obs) generalizableResources"

definition observed_at :: "res_lib \<Rightarrow> observedCapacity \<Rightarrow> observedCapacity \<Rightarrow> string \<Rightarrow> obs_error option" where
  "observed_at L ref obs r =
     (case ocCapacity obs r of
        None \<Rightarrow> None
      | Some got \<Rightarrow>
          let want = q_at (ocCapacity ref) r in
          if r = ResourceCPU \<and> got \<noteq> want then Some OtherCPU
          else if r \<noteq> ResourceCPU \<and> off_by_more (deviation L got want) observedTolerance then Some (CapacityOff r)
          else
            let gotA = q_at (ocAllocatable obs) r; wantA = q_at (ocAllocatable ref) r in
            if off_by_more (deviation L gotA wantA) observedTolerance then Some (AllocatableOff r)
            else if r = ResourceEphemeralStorage then
              let ratio = fl (rlApprox L gotA / rlApprox L (q_at (ocCapacity obs) r));
                  referenceRatio = fl (rlApprox L wantA / rlApprox L (q_at (ocCapacity ref) r))
              in if observedTolerance < \<bar>fl (fl (ratio / referenceRatio) - 1)\<bar> then Some DiskRatioOff else None
            else None)"

definition checkObservation :: "res_lib \<Rightarrow> observedCapacity \<Rightarrow> observedCapacity \<Rightarrow> obs_error option" where
  "checkObservation L ref obs =
     (case checkConsistent obs of
        Some e \<Rightarrow> Some e
      | None \<Rightarrow> first_error (observed_at L ref obs) generalizableResources)"

section \<open>Learning what the platform delivers\<close>

definition filterGeneralizable :: "resources \<Rightarrow> resources" where
  "filterGeneralizable l = l |` set generalizableResources"

text \<open>\<^verbatim>\<open>minMerge\<close>: first a copy of the left list, then the right one where it is new or smaller.\<close>

definition minMerge :: "resources \<Rightarrow> resources \<Rightarrow> resources" where
  "minMerge prev next' =
     (\<lambda>r. case next' r of
            None \<Rightarrow> prev r
          | Some q \<Rightarrow> (case prev r of None \<Rightarrow> Some q | Some cur \<Rightarrow> if q < cur then Some q else Some cur))"

datatype record_error = ErrImplausibleCapacity flavor obs_error

text \<open>
  The report as it will be remembered, and the deviation of its memory: filtered, without its disk
  where the disk says nothing of new machines, and checked against the catalogue entry.
\<close>

definition with_legacy_disk :: "observedCapacity \<Rightarrow> observedCapacity" where
  "with_legacy_disk ref =
     \<lparr>ocCapacity = (ocCapacity ref)(ResourceEphemeralStorage \<mapsto> legacyEphemeralStorage),
      ocAllocatable = (ocAllocatable ref)(ResourceEphemeralStorage \<mapsto> legacyEphemeralAllocatable)\<rparr>"

definition is_legacy_disk :: "res_lib \<Rightarrow> observedCapacity \<Rightarrow> bool" where
  "is_legacy_disk L ob \<longleftrightarrow>
     \<not> off_by_more (deviation L (q_at (ocCapacity ob) ResourceEphemeralStorage) legacyEphemeralStorage) observedTolerance"

definition judge_report ::
  "res_lib \<Rightarrow> inst_conf \<Rightarrow> flavor \<Rightarrow> observedCapacity \<Rightarrow> record_error + f64 \<times> observedCapacity" where
  "judge_report L conf f observed =
     (case reference_capacity L conf f of
        Some ref \<Rightarrow>
          let legacyDisk = is_legacy_disk L observed;
              ref1 = (if legacyDisk then with_legacy_disk ref else ref) in
          (case checkObservation L ref1 observed of
             Some e \<Rightarrow> Inl (ErrImplausibleCapacity f e)
           | None \<Rightarrow>
               let observed1 = (if legacyDisk then drop_disk observed else observed) in
               Inr (deviation L (q_at (ocCapacity observed1) ResourceMemory) (q_at (ocCapacity ref1) ResourceMemory),
                    observed1))
      | None \<Rightarrow>
          (case checkConsistent observed of
             Some e \<Rightarrow> Inl (ErrImplausibleCapacity f e)
           | None \<Rightarrow> Inr (Finite 0, observed)))"

definition accept_report ::
  "res_lib \<Rightarrow> inst_conf \<Rightarrow> bool \<Rightarrow> flavor \<Rightarrow> resources \<Rightarrow> resources \<Rightarrow> record_error + f64 \<times> observedCapacity" where
  "accept_report L conf required f capacity allocatable =
     (let observed = \<lparr>ocCapacity = filterGeneralizable capacity, ocAllocatable = filterGeneralizable allocatable\<rparr> in
      if required then
        (case checkConsistent observed of
           Some e \<Rightarrow> Inl (ErrImplausibleCapacity f e)
         | None \<Rightarrow> judge_report L conf f (drop_disk observed))
      else judge_report L conf f observed)"

definition no_observation :: observedCapacity where
  "no_observation = \<lparr>ocCapacity = Map.empty, ocAllocatable = Map.empty\<rparr>"

definition observed_of :: "inst_state \<Rightarrow> flavor \<Rightarrow> observedCapacity" where
  "observed_of st f = (case isObserved st f of None \<Rightarrow> no_observation | Some ob \<Rightarrow> ob)"

definition RecordObservedCapacity ::
  "res_lib \<Rightarrow> inst_conf \<Rightarrow> flavor \<Rightarrow> resources \<Rightarrow> resources \<Rightarrow> inst_state \<Rightarrow> (record_error + f64) \<times> inst_state" where
  "RecordObservedCapacity L conf f capacity allocatable st =
     (if q_at capacity ResourceCPU = 0 \<or> q_at capacity ResourceMemory = 0 then (Inr (Finite 0), st)
      else case accept_report L conf (isRequired st) f capacity allocatable of
             Inl e \<Rightarrow> (Inl e, st)
           | Inr (dev, obs) \<Rightarrow>
               let prev = observed_of st f
               in (Inr dev, st\<lparr>isObserved := (isObserved st)(f \<mapsto>
                     \<lparr>ocCapacity = minMerge (ocCapacity prev) (ocCapacity obs),
                      ocAllocatable = minMerge (ocAllocatable prev) (ocAllocatable obs)\<rparr>)\<rparr>))"

section \<open>Instance types\<close>

record offering =
  ofRequirements :: "requirement list"
  ofPrice :: rat
  ofAvailable :: bool

record instance_type =
  itName :: flavor
  itRequirements :: "requirement list"
  itOfferings :: "offering list"
  itCapacity :: resources
  itOverhead :: overhead

definition LabelInstanceTypeStable :: string where "LabelInstanceTypeStable = ''node.kubernetes.io/instance-type''"
definition LabelArchStable :: string where "LabelArchStable = ''kubernetes.io/arch''"
definition LabelOSStable :: string where "LabelOSStable = ''kubernetes.io/os''"
definition LabelTopologyRegion :: string where "LabelTopologyRegion = ''topology.kubernetes.io/region''"
definition LabelTopologyZone :: string where "LabelTopologyZone = ''topology.kubernetes.io/zone''"
definition CapacityTypeLabelKey :: string where "CapacityTypeLabelKey = ''karpenter.sh/capacity-type''"

definition oneOf :: "string \<Rightarrow> string \<Rightarrow> requirement" where
  "oneOf k v = \<lparr>rqKey = k, rqOperator = ''In'', rqValues = [v], rqMinValues = None\<rparr>"

definition offering_requirements :: "inst_conf \<Rightarrow> requirement list" where
  "offering_requirements conf =
     [oneOf CapacityTypeLabelKey ''on-demand'', oneOf LabelTopologyRegion (icRegion conf),
      oneOf LabelTopologyZone (icRegion conf)]"

definition type_requirements :: "inst_conf \<Rightarrow> Flavor \<Rightarrow> requirement list" where
  "type_requirements conf f =
     [oneOf LabelInstanceTypeStable (flName f), oneOf LabelArchStable ''amd64'', oneOf LabelOSStable ''linux'',
      oneOf LabelTopologyRegion (icRegion conf), oneOf LabelTopologyZone (icRegion conf),
      oneOf CapacityTypeLabelKey ''on-demand'', oneOf FlavorLabelKey (flName f),
      oneOf NodeRoleLabelKey NodeRoleWorker, oneOf InstanceCPULabelKey (dec_int (flCPU f)),
      oneOf InstanceMemoryLabelKey (dec_int (flMemoryKi f))]"

definition reserve :: "res_lib \<Rightarrow> resources \<Rightarrow> resources \<Rightarrow> overhead" where
  "reserve L capacity allocatable =
     \<lparr>ohKubeReserved = rlSubtract L capacity allocatable, ohSystemReserved = Map.empty, ohEvictionThreshold = Map.empty\<rparr>"

text \<open>The figures of \<^verbatim>\<open>newInstanceTypeLocked\<close>: the entry's, then what was observed, then the host's disk.\<close>

definition observed_figures ::
  "res_lib \<Rightarrow> inst_state \<Rightarrow> flavor \<Rightarrow> resources \<times> overhead \<Rightarrow> resources \<times> overhead" where
  "observed_figures L st f figures =
     (let (capacity, oh) = figures in
      case isObserved st f of
        None \<Rightarrow> (capacity, oh)
      | Some obs \<Rightarrow>
          let allocatable = rlAssign L (rlSubtract L capacity (rlTotal L oh)) (ocAllocatable obs);
              capacity1 = rlAssign L capacity (ocCapacity obs)
          in (capacity1, reserve L capacity1 allocatable))"

definition reference_figures :: "res_lib \<Rightarrow> inst_state \<Rightarrow> resources \<times> overhead \<Rightarrow> resources \<times> overhead" where
  "reference_figures L st figures =
     (let (capacity, oh) = figures in
      case isReference st of
        None \<Rightarrow> (capacity, oh)
      | Some reference \<Rightarrow>
          let allocatable = rlSubtract L capacity (rlTotal L oh);
              capacity1 = capacity(ResourceEphemeralStorage \<mapsto> epCapacity reference);
              allocatable1 = allocatable(ResourceEphemeralStorage \<mapsto> epAllocatable reference)
          in (capacity1, reserve L capacity1 allocatable1))"

definition newInstanceType :: "res_lib \<Rightarrow> inst_conf \<Rightarrow> inst_state \<Rightarrow> Flavor \<Rightarrow> instance_type" where
  "newInstanceType L conf st f =
     (let (capacity, oh) = reference_figures L st (observed_figures L st (flName f) (staticCapacity f))
      in \<lparr>itName = flName f, itRequirements = type_requirements conf f,
          itOfferings = [\<lparr>ofRequirements = offering_requirements conf, ofPrice = flPrice f, ofAvailable = True\<rparr>],
          itCapacity = capacity, itOverhead = oh\<rparr>)"

definition ListInstanceTypes :: "res_lib \<Rightarrow> inst_conf \<Rightarrow> inst_state \<Rightarrow> instance_type list" where
  "ListInstanceTypes L conf st = map (newInstanceType L conf st) (icFlavors conf)"

definition hide_disk :: "instance_type \<Rightarrow> instance_type" where
  "hide_disk it = it\<lparr>itCapacity := (itCapacity it)(ResourceEphemeralStorage \<mapsto> 0),
     itOverhead := \<lparr>ohKubeReserved = (ohKubeReserved (itOverhead it))(ResourceEphemeralStorage := None),
                    ohSystemReserved = (ohSystemReserved (itOverhead it))(ResourceEphemeralStorage := None),
                    ohEvictionThreshold = (ohEvictionThreshold (itOverhead it))(ResourceEphemeralStorage := None)\<rparr>\<rparr>"

definition ListForProvisioning :: "res_lib \<Rightarrow> inst_conf \<Rightarrow> inst_state \<Rightarrow> instance_type list \<times> bool" where
  "ListForProvisioning L conf st =
     (let ready = (\<not> isRequired st \<or> isReady st)
      in (map (\<lambda>f. let it = newInstanceType L conf st f in if \<not> ready then hide_disk it else it) (icFlavors conf),
          ready))"

datatype get_error = ErrUnknownFlavor flavor

definition GetInstanceType ::
  "res_lib \<Rightarrow> inst_conf \<Rightarrow> inst_state \<Rightarrow> flavor \<Rightarrow> 'w sys \<Rightarrow> (get_error + instance_type) \<times> 'w sys" where
  "GetInstanceType L conf st n s =
     (case served (icFlavors conf) n of
        Some f \<Rightarrow> (Inr (newInstanceType L conf st f), s)
      | None \<Rightarrow> (Inl (ErrUnknownFlavor n), emit (Count UnknownFlavorLookups) s))"

definition Synthesize :: "res_lib \<Rightarrow> inst_conf \<Rightarrow> inst_state \<Rightarrow> flavor \<Rightarrow> instance_type" where
  "Synthesize L conf st n =
     (let f = (case SizingByName n of
                 Some s \<Rightarrow> \<lparr>flName = n, flCPU = CPU s, flMemoryKi = MemoryKi s, flPrice = RelativePrice (CPU s) (MemoryKi s)\<rparr>
               | None \<Rightarrow> \<lparr>flName = n, flCPU = 0, flMemoryKi = 0, flPrice = 0\<rparr>);
          it = newInstanceType L conf st f
      in if q_at (itCapacity it) ResourceMemory = 0 then it\<lparr>itOverhead := no_overhead\<rparr> else it)"

end
