(* ===== verification/ObservedCatalogue.thy ===== *)
theory ObservedCatalogue
  imports InstanceTypes "HOL-Library.Multiset"
begin

text \<open>
  What the catalogue of \<^verbatim>\<open>src/pkg/providers/instancetype\<close> can and cannot learn from nodes. Any number of
  goroutines feed it: a history is a list of critical sections (\<open>inst_op\<close>). The aggregation is stated
  once, as the contract of a log that keeps minima (the locale \<open>minimum_log\<close>), and interpreted on the
  capacity and on the allocatable figures.
\<close>

section \<open>Logs that keep minima\<close>

definition min_opt :: "'v::linorder option \<Rightarrow> 'v option \<Rightarrow> 'v option" where
  "min_opt x y = (case x of None \<Rightarrow> y | Some a \<Rightarrow> (case y of None \<Rightarrow> Some a | Some b \<Rightarrow> Some (min a b)))"

text \<open>The specification: the least of the values that are there.\<close>

definition least :: "'v::linorder option list \<Rightarrow> 'v option" where
  "least vs = (let xs = List.map_filter id vs in if xs = [] then None else Some (Min (set xs)))"

lemma min_opt_None [simp]: "min_opt None y = y" "min_opt x None = x"
  by (simp_all add: min_opt_def split: option.split)

lemma min_opt_assoc: "min_opt (min_opt x y) z = min_opt x (min_opt y z)"
  by (simp add: min_opt_def min.assoc split: option.split)

lemma least_Nil [simp]: "least [] = None"
  by (simp add: least_def map_filter_simps)

lemma least_Cons [simp]: "least (v # vs) = min_opt v (least vs)"
  by (cases v) (auto simp: least_def min_opt_def map_filter_simps Let_def)

locale minimum_log =
  fixes figure :: "'m \<Rightarrow> 'k \<Rightarrow> 'v::linorder option"
    and report :: "'i \<Rightarrow> 'm \<Rightarrow> 'm"
    and contribution :: "'i \<Rightarrow> 'k \<Rightarrow> 'v option"
    and mode_ok :: "'m \<Rightarrow> bool"
  assumes figure_report: "mode_ok m \<Longrightarrow> figure (report i m) k = min_opt (figure m k) (contribution i k)"
    and mode_report: "mode_ok m \<Longrightarrow> mode_ok (report i m)"
begin

lemma mode_fold: "mode_ok m \<Longrightarrow> mode_ok (fold report is m)"
  by (induction "is" arbitrary: m) (simp_all add: mode_report)

lemma figure_fold:
  "mode_ok m \<Longrightarrow> figure (fold report is m) k = min_opt (figure m k) (least (map (\<lambda>i. contribution i k) is))"
  by (induction "is" arbitrary: m) (simp_all add: figure_report mode_report min_opt_assoc)

text \<open>From an empty log, the figures are the least contributions, so their order does not matter.\<close>

lemma refines_least:
  "mode_ok m \<Longrightarrow> figure m k = None \<Longrightarrow> figure (fold report is m) k = least (map (\<lambda>i. contribution i k) is)"
  by (simp add: figure_fold)

lemma order_irrelevant:
  assumes "mode_ok m" and "mset is = mset js"
  shows "figure (fold report is m) = figure (fold report js m)"
proof
  fix k
  have "set is = set js" using assms(2) by (rule mset_eq_setD)
  then have "set (List.map_filter id (map (\<lambda>i. contribution i k) is)) = set (List.map_filter id (map (\<lambda>i. contribution i k) js))"
    by (auto simp: map_filter_def)
  then have "least (map (\<lambda>i. contribution i k) is) = least (map (\<lambda>i. contribution i k) js)"
    unfolding least_def Let_def by (metis set_empty)
  then show "figure (fold report is m) k = figure (fold report js m) k"
    by (simp add: figure_fold [OF assms(1)])
qed

text \<open>No report raises a figure another one lowered.\<close>

lemma never_raised:
  assumes "mode_ok m" and "figure m k = Some v"
  shows "\<exists>v'. figure (fold report is m) k = Some v' \<and> v' \<le> v"
  using assms by (auto simp: figure_fold min_opt_def split: option.split)

end


section \<open>The catalogue keeps minima\<close>

type_synonym node_report = "flavor \<times> resources \<times> resources"

definition observe :: "res_lib \<Rightarrow> inst_conf \<Rightarrow> node_report \<Rightarrow> inst_state \<Rightarrow> inst_state" where
  "observe L conf rep st = (case rep of (f, c, a) \<Rightarrow> snd (RecordObservedCapacity L conf f c a st))"

text \<open>What a report adds, in the mode \<open>required\<close>: nothing when it is ignored or refused.\<close>

definition accepted :: "res_lib \<Rightarrow> inst_conf \<Rightarrow> bool \<Rightarrow> node_report \<Rightarrow> observedCapacity option" where
  "accepted L conf required rep =
     (case rep of (f, c, a) \<Rightarrow>
        if q_at c ResourceCPU = 0 \<or> q_at c ResourceMemory = 0 then None
        else case accept_report L conf required f c a of Inl _ \<Rightarrow> None | Inr (_, obs) \<Rightarrow> Some obs)"

definition adds ::
  "(observedCapacity \<Rightarrow> resources) \<Rightarrow> res_lib \<Rightarrow> inst_conf \<Rightarrow> bool \<Rightarrow> node_report \<Rightarrow> flavor \<times> string \<Rightarrow> quantity option" where
  "adds side L conf required rep k =
     (if fst rep = fst k then Option.bind (accepted L conf required rep) (\<lambda>obs. side obs (snd k)) else None)"

definition figure_of :: "(observedCapacity \<Rightarrow> resources) \<Rightarrow> inst_state \<Rightarrow> flavor \<times> string \<Rightarrow> quantity option" where
  "figure_of side st k = side (observed_of st (fst k)) (snd k)"

lemma minMerge_min_opt: "minMerge p n r = min_opt (p r) (n r)"
  by (auto simp: minMerge_def min_opt_def min_def split: option.split)

lemma observe_cases:
  obtains (ignored) "accepted L conf (isRequired st) (f, c, a) = None" "observe L conf (f, c, a) st = st"
  | (taken) obs where "accepted L conf (isRequired st) (f, c, a) = Some obs"
      "observe L conf (f, c, a) st = st\<lparr>isObserved := (isObserved st)(f \<mapsto>
         \<lparr>ocCapacity = minMerge (ocCapacity (observed_of st f)) (ocCapacity obs),
          ocAllocatable = minMerge (ocAllocatable (observed_of st f)) (ocAllocatable obs)\<rparr>)\<rparr>"
  by (cases "q_at c ResourceCPU = 0 \<or> q_at c ResourceMemory = 0";
      cases "accept_report L conf (isRequired st) f c a")
     (auto simp: observe_def RecordObservedCapacity_def accepted_def Let_def)

lemma observe_mode: "isRequired (observe L conf rep st) = isRequired st"
proof -
  obtain f c a where rep: "rep = (f, c, a)" by (cases rep)
  show ?thesis unfolding rep by (cases rule: observe_cases [of L conf st f c a]) simp_all
qed

lemma figure_observe:
  assumes "side = ocCapacity \<or> side = ocAllocatable" and "isRequired st = required"
  shows "figure_of side (observe L conf rep st) k = min_opt (figure_of side st k) (adds side L conf required rep k)"
proof -
  obtain f c a where rep: "rep = (f, c, a)" by (cases rep)
  show ?thesis
  proof (cases rule: observe_cases [of L conf st f c a])
    case ignored
    then have "adds side L conf required rep k = None" using assms(2) rep by (cases "f = fst k") (auto simp: adds_def)
    then show ?thesis using ignored(2) rep by simp
  next
    case (taken obs)
    then show ?thesis using assms rep
      by (cases "f = fst k") (auto simp: adds_def figure_of_def observed_of_def minMerge_min_opt)
  qed
qed

interpretation capacityLog: minimum_log "figure_of ocCapacity" "observe L conf" "adds ocCapacity L conf required"
  "\<lambda>st. isRequired st = required" for L conf required
  by unfold_locales (simp_all add: figure_observe observe_mode)

interpretation allocatableLog: minimum_log "figure_of ocAllocatable" "observe L conf" "adds ocAllocatable L conf required"
  "\<lambda>st. isRequired st = required" for L conf required
  by unfold_locales (simp_all add: figure_observe observe_mode)

text \<open>
  C22. The catalogue follows the smallest node. From an empty log, whatever the nodes report and in
  whatever order, each figure the provider remembers for a flavor is the least one among the reports
  it accepted for that flavor, and none if no accepted report has it.
\<close>

theorem catalogue_keeps_the_least_report:
  assumes "isObserved st f = None"
  shows "ocCapacity (observed_of (fold (observe L conf) reps st) f) r =
      least (map (\<lambda>rep. adds ocCapacity L conf (isRequired st) rep (f, r)) reps) \<and>
    ocAllocatable (observed_of (fold (observe L conf) reps st) f) r =
      least (map (\<lambda>rep. adds ocAllocatable L conf (isRequired st) rep (f, r)) reps)"
  using capacityLog.refines_least [of st "isRequired st" "(f, r)" L conf reps]
    allocatableLog.refines_least [of st "isRequired st" "(f, r)" L conf reps] assms
  by (simp add: figure_of_def observed_of_def no_observation_def)


section \<open>What a report can do to the catalogue\<close>

text \<open>Figures a machine of the flavor could have, as far as the catalogue entry tells.\<close>

definition plausible :: "res_lib \<Rightarrow> inst_conf \<Rightarrow> flavor \<Rightarrow> observedCapacity \<Rightarrow> bool" where
  "plausible L conf f ob \<longleftrightarrow>
     dom (ocCapacity ob) = dom (ocAllocatable ob) \<and> dom (ocCapacity ob) \<subseteq> set generalizableResources \<and>
     (\<forall>r c a. ocCapacity ob r = Some c \<longrightarrow> ocAllocatable ob r = Some a \<longrightarrow> a \<le> c \<and>
        (\<forall>ref. reference_capacity L conf f = Some ref \<longrightarrow>
           (if r = ResourceCPU then c = q_at (ocCapacity ref) r
            else \<not> off_by_more (deviation L c (q_at (ocCapacity ref) r)) observedTolerance) \<and>
           \<not> off_by_more (deviation L a (q_at (ocAllocatable ref) r)) observedTolerance))"

lemma first_error_None: "first_error chk xs = None \<longleftrightarrow> (\<forall>x \<in> set xs. chk x = None)"
  by (induction xs) (auto split: option.split)

lemma checkConsistent_None:
  assumes "checkConsistent ob = None" and "dom (ocCapacity ob) \<subseteq> set generalizableResources"
    and "dom (ocAllocatable ob) \<subseteq> set generalizableResources"
  shows "dom (ocCapacity ob) = dom (ocAllocatable ob) \<and>
    (\<forall>r c a. ocCapacity ob r = Some c \<longrightarrow> ocAllocatable ob r = Some a \<longrightarrow> a \<le> c)"
proof -
  have c: "consistent_at ob r = None" if "r \<in> dom (ocCapacity ob) \<union> dom (ocAllocatable ob)" for r
    using assms that unfolding checkConsistent_def first_error_None by blast
  have "r \<in> dom (ocCapacity ob) \<longleftrightarrow> r \<in> dom (ocAllocatable ob)" for r
    using c [of r] unfolding consistent_at_def Let_def domIff Un_iff by (auto split: if_splits)
  moreover have "a \<le> c" if ca: "ocCapacity ob r = Some c" "ocAllocatable ob r = Some a" for r c a
  proof -
    have "consistent_at ob r = None" using c ca by blast
    then show ?thesis using ca by (auto simp: consistent_at_def q_at_def Let_def split: if_splits)
  qed
  ultimately show ?thesis by blast
qed

lemma observed_at_None:
  assumes "observed_at L ref ob r = None" and "ocCapacity ob r = Some c" and "ocAllocatable ob r = Some a"
  shows "(if r = ResourceCPU then c = q_at (ocCapacity ref) r
      else \<not> off_by_more (deviation L c (q_at (ocCapacity ref) r)) observedTolerance) \<and>
    \<not> off_by_more (deviation L a (q_at (ocAllocatable ref) r)) observedTolerance"
  using assms by (auto simp: observed_at_def q_at_def Let_def split: if_splits)

lemma dom_drop_disk [simp]:
  "ocCapacity (drop_disk ob) r = (if r = ResourceEphemeralStorage then None else ocCapacity ob r)"
  "ocAllocatable (drop_disk ob) r = (if r = ResourceEphemeralStorage then None else ocAllocatable ob r)"
  by (simp_all add: drop_disk_def)

lemma q_at_legacy [simp]:
  "r \<noteq> ResourceEphemeralStorage \<Longrightarrow> q_at (ocCapacity (with_legacy_disk ref)) r = q_at (ocCapacity ref) r"
  "r \<noteq> ResourceEphemeralStorage \<Longrightarrow> q_at (ocAllocatable (with_legacy_disk ref)) r = q_at (ocAllocatable ref) r"
  by (simp_all add: with_legacy_disk_def q_at_def)

lemma plausible_drop:
  assumes "plausible L conf f ob"
  shows "plausible L conf f (drop_disk ob)"
proof -
  have "dom (ocCapacity (drop_disk ob)) = dom (ocAllocatable (drop_disk ob))"
    "dom (ocCapacity (drop_disk ob)) \<subseteq> set generalizableResources"
    using assms unfolding plausible_def by (auto simp: domIff set_eq_iff subset_iff split: if_splits)
  moreover have "ocCapacity ob r = Some c" if "ocCapacity (drop_disk ob) r = Some c" for r c
    using that by (simp split: if_splits)
  moreover have "ocAllocatable ob r = Some c" if "ocAllocatable (drop_disk ob) r = Some c" for r c
    using that by (simp split: if_splits)
  ultimately show ?thesis using assms unfolding plausible_def by meson
qed

text \<open>A report that passes the checks is plausible, and in the dynamic disk mode carries no disk.\<close>

lemma judge_report_plausible:
  assumes "judge_report L conf f ob = Inr (d, obs)"
    and dom: "dom (ocCapacity ob) \<subseteq> set generalizableResources" "dom (ocAllocatable ob) \<subseteq> set generalizableResources"
  shows "plausible L conf f obs \<and> (obs = ob \<or> obs = drop_disk ob)"
proof (cases "reference_capacity L conf f")
  case None
  then have "checkConsistent ob = None" "obs = ob" using assms(1) by (auto simp: judge_report_def split: option.splits)
  then show ?thesis using checkConsistent_None [OF _ dom] dom None by (simp add: plausible_def)
next
  case (Some ref)
  let ?legacy = "is_legacy_disk L ob"
  let ?ref1 = "if ?legacy then with_legacy_disk ref else ref"
  have ok: "checkObservation L ?ref1 ob = None" "obs = (if ?legacy then drop_disk ob else ob)"
    using assms(1) Some by (auto simp: judge_report_def Let_def split: option.splits)
  then have c: "checkConsistent ob = None" and at: "\<forall>r \<in> set generalizableResources. observed_at L ?ref1 ob r = None"
    by (auto simp: checkObservation_def first_error_None split: option.splits)
  note cons = checkConsistent_None [OF c dom]
  have fits: "(if r = ResourceCPU then x = q_at (ocCapacity ref) r
        else \<not> off_by_more (deviation L x (q_at (ocCapacity ref) r)) observedTolerance) \<and>
      \<not> off_by_more (deviation L y (q_at (ocAllocatable ref) r)) observedTolerance"
    if "ocCapacity obs r = Some x" "ocAllocatable obs r = Some y" for r x y
  proof -
    have r: "ocCapacity ob r = Some x" "ocAllocatable ob r = Some y" "?legacy \<longrightarrow> r \<noteq> ResourceEphemeralStorage"
      using that ok(2) by (auto split: if_splits)
    then have "r \<in> set generalizableResources" using dom(1) by blast
    then have "observed_at L ?ref1 ob r = None" using at by blast
    moreover have "q_at (ocCapacity ?ref1) r = q_at (ocCapacity ref) r"
      "q_at (ocAllocatable ?ref1) r = q_at (ocAllocatable ref) r" using r(3) by auto
    ultimately show ?thesis using observed_at_None [OF _ r(1,2), of L ?ref1] by metis
  qed
  have "dom (ocCapacity obs) = dom (ocAllocatable obs)" "dom (ocCapacity obs) \<subseteq> set generalizableResources"
    using cons dom ok(2) by (auto simp: domIff set_eq_iff subset_iff split: if_splits)
  moreover have "y \<le> x" if "ocCapacity obs r = Some x" "ocAllocatable obs r = Some y" for r x y
    using that cons ok(2) by (auto split: if_splits)
  moreover have "obs = ob \<or> obs = drop_disk ob" using ok(2) by simp
  ultimately show ?thesis using fits Some unfolding plausible_def by (metis option.inject)
qed

lemma accept_report_plausible:
  assumes "accept_report L conf required f c a = Inr (d, obs)"
  shows "plausible L conf f obs \<and> (required \<longrightarrow> ocCapacity obs ResourceEphemeralStorage = None)"
proof -
  let ?ob = "\<lparr>ocCapacity = filterGeneralizable c, ocAllocatable = filterGeneralizable a\<rparr>"
  let ?ob1 = "if required then drop_disk ?ob else ?ob"
  have "judge_report L conf f ?ob1 = Inr (d, obs)"
    using assms by (auto simp: accept_report_def Let_def split: if_splits option.splits)
  moreover have "dom (ocCapacity ?ob1) \<subseteq> set generalizableResources" "dom (ocAllocatable ?ob1) \<subseteq> set generalizableResources"
    by (auto simp: filterGeneralizable_def restrict_map_def split: if_splits)
  ultimately have "plausible L conf f obs" "obs = ?ob1 \<or> obs = drop_disk ?ob1"
    using judge_report_plausible by blast+
  then show ?thesis by auto
qed


section \<open>Invariants over any history\<close>

datatype inst_op =
    Observe flavor resources resources
  | Require
  | Invalidate
  | SetReference quantity quantity

fun inst_step :: "res_lib \<Rightarrow> inst_conf \<Rightarrow> inst_op \<Rightarrow> inst_state \<Rightarrow> inst_state" where
  "inst_step L conf (Observe f c a) st = snd (RecordObservedCapacity L conf f c a st)"
| "inst_step L conf Require st = RequireEphemeralStorageReference st"
| "inst_step L conf Invalidate st = InvalidateEphemeralStorageReference st"
| "inst_step L conf (SetReference c a) st = snd (SetEphemeralStorageReference L c a st)"

definition valid_profile :: "ephemeralStorageProfile \<Rightarrow> bool" where
  "valid_profile p \<longleftrightarrow> 0 < epAllocatable p \<and> epAllocatable p \<le> epCapacity p \<and>
     epCapacity p \<in> \<int> \<and> epAllocatable p \<in> \<int>"

definition inst_ok :: "res_lib \<Rightarrow> inst_conf \<Rightarrow> inst_state \<Rightarrow> bool" where
  "inst_ok L conf st \<longleftrightarrow>
     (\<forall>f ob. isObserved st f = Some ob \<longrightarrow> plausible L conf f ob \<and>
        (isRequired st \<longrightarrow> ResourceEphemeralStorage \<notin> dom (ocCapacity ob))) \<and>
     (\<forall>p. isReference st = Some p \<longrightarrow> valid_profile p \<and> isRequired st) \<and>
     (isReady st \<longrightarrow> isReference st \<noteq> None)"

lemma minMerge_Some:
  assumes "minMerge p n r = Some q"
  shows "p r = Some q \<or> n r = Some q"
  using assms by (auto simp: minMerge_def split: option.splits if_splits)

lemma dom_minMerge [simp]: "dom (minMerge p n) = dom p \<union> dom n"
  by (auto simp: minMerge_def dom_def split: option.splits)

lemma minMerge_None [simp]: "minMerge p n r = None \<longleftrightarrow> p r = None \<and> n r = None"
  by (auto simp: minMerge_def split: option.splits)

lemma minMerge_le:
  assumes "dom pc = dom pa" "dom nc = dom na" "minMerge pc nc r = Some c" "minMerge pa na r = Some a"
    and "\<And>x y. pc r = Some x \<Longrightarrow> pa r = Some y \<Longrightarrow> y \<le> x" "\<And>x y. nc r = Some x \<Longrightarrow> na r = Some y \<Longrightarrow> y \<le> x"
  shows "a \<le> c"
proof -
  have "pc r = None \<longleftrightarrow> pa r = None" "nc r = None \<longleftrightarrow> na r = None"
    using assms(1,2) by (metis domIff)+
  with assms(3-) show ?thesis
    by (cases "pc r"; cases "pa r"; cases "nc r"; cases "na r") (fastforce simp: minMerge_def split: if_splits)+
qed

lemma plausible_merge:
  assumes "plausible L conf f p" "plausible L conf f n"
  shows "plausible L conf f \<lparr>ocCapacity = minMerge (ocCapacity p) (ocCapacity n),
    ocAllocatable = minMerge (ocAllocatable p) (ocAllocatable n)\<rparr>"
proof -
  have doms: "dom (ocCapacity p) = dom (ocAllocatable p)" "dom (ocCapacity n) = dom (ocAllocatable n)"
    using assms by (simp_all add: plausible_def)
  have le: "a \<le> c" if "minMerge (ocCapacity p) (ocCapacity n) r = Some c" "minMerge (ocAllocatable p) (ocAllocatable n) r = Some a"
    for r c a
    by (rule minMerge_le [OF doms that]) (use assms in \<open>auto simp: plausible_def\<close>)
  have capacity: "if r = ResourceCPU then c = q_at (ocCapacity ref) r
      else \<not> off_by_more (deviation L c (q_at (ocCapacity ref) r)) observedTolerance"
    if "minMerge (ocCapacity p) (ocCapacity n) r = Some c" "reference_capacity L conf f = Some ref" for r c ref
    using minMerge_Some [OF that(1)] assms doms that(2) unfolding plausible_def by (metis domD domI)
  have allocatable: "\<not> off_by_more (deviation L a (q_at (ocAllocatable ref) r)) observedTolerance"
    if "minMerge (ocAllocatable p) (ocAllocatable n) r = Some a" "reference_capacity L conf f = Some ref" for r a ref
    using minMerge_Some [OF that(1)] assms doms that(2) unfolding plausible_def by (metis domD domI)
  show ?thesis
    using assms doms le capacity allocatable unfolding plausible_def by (simp add: plausible_def)
qed

lemma plausible_nothing: "plausible L conf f no_observation"
  by (simp add: plausible_def no_observation_def)

lemma SetReference_cases:
  assumes "SetEphemeralStorageReference L c a st = (r, st')"
  obtains (refused) e where "r = Inl e" "st' = st"
  | (taken) p changed where "r = Inr changed" "isRequired st" "valid_profile p" "epCapacity p = c" "epAllocatable p = a"
      "st' = st\<lparr>isReference := Some p, isReady := True\<rparr>"
proof (cases "bad_bytes L c \<or> bad_bytes L a \<or> c < a \<or> \<not> isRequired st")
  case True
  then show thesis using assms refused by (auto simp: SetEphemeralStorageReference_def Let_def split: if_splits)
next
  case False
  then have whole: "of_int (rlValue L c) = c" "of_int (rlValue L a) = a" "0 < rlValue L a" "a \<le> c"
    by (auto simp: bad_bytes_def)
  have "c \<in> \<int>" "a \<in> \<int>" "0 < a"
    using Ints_of_int [of "rlValue L c", where 'a = rat] Ints_of_int [of "rlValue L a", where 'a = rat] whole
    by (simp_all add: whole(1,2)) (metis of_int_0_less_iff whole(2,3))
  then have "valid_profile \<lparr>epCapacity = c, epAllocatable = a\<rparr>" using whole(4) by (simp add: valid_profile_def)
  moreover have "\<exists>changed. (r, st') = (Inr changed, st\<lparr>isReference := Some \<lparr>epCapacity = c, epAllocatable = a\<rparr>, isReady := True\<rparr>)"
    unfolding assms [symmetric] SetEphemeralStorageReference_def Let_def using False whole(1,2) by simp
  ultimately show thesis using False taken by auto
qed

lemma inst_step_ok:
  assumes "inst_ok L conf st"
  shows "inst_ok L conf (inst_step L conf x st)"
proof (cases x)
  case (Observe f c a)
  have prev: "plausible L conf f (observed_of st f)" "isRequired st \<longrightarrow> ResourceEphemeralStorage \<notin> dom (ocCapacity (observed_of st f))"
    using assms plausible_nothing by (auto simp: inst_ok_def observed_of_def no_observation_def split: option.split)
  show ?thesis
  proof (cases rule: observe_cases [of L conf st f c a])
    case ignored
    then show ?thesis using assms Observe by (simp add: observe_def)
  next
    case (taken obs)
    then obtain d where "accept_report L conf (isRequired st) f c a = Inr (d, obs)"
      by (auto simp: accepted_def split: if_splits sum.splits)
    from accept_report_plausible [OF this] plausible_merge [OF prev(1)] prev(2) assms taken(2) Observe
    show ?thesis by (auto simp: inst_ok_def observe_def domIff)
  qed
next
  case Require
  have drop: "plausible L conf f ob \<Longrightarrow> ResourceEphemeralStorage \<notin> dom (ocCapacity (drop_disk ob)) \<and> plausible L conf f (drop_disk ob)" for f ob
    by (simp add: plausible_drop domIff)
  show ?thesis using assms drop unfolding Require
    by (auto simp: inst_ok_def RequireEphemeralStorageReference_def)
next
  case Invalidate
  then show ?thesis using assms by (simp add: inst_ok_def InvalidateEphemeralStorageReference_def)
next
  case (SetReference c a)
  obtain r st' where run: "SetEphemeralStorageReference L c a st = (r, st')" by (meson surj_pair)
  then have step: "inst_step L conf x st = st'" using SetReference by simp
  show ?thesis unfolding step using run by (cases rule: SetReference_cases) (use assms in \<open>auto simp: inst_ok_def\<close>)
qed

lemma inst_run_ok: "inst_ok L conf st \<Longrightarrow> inst_ok L conf (fold (inst_step L conf) ops st)"
  by (induction ops arbitrary: st) (simp_all add: inst_step_ok)

lemma inst0_ok: "inst_ok L conf inst0"
  by (simp add: inst_ok_def inst0_def)

text \<open>
  C23. No node can talk the catalogue into something else. In every state the provider can reach,
  through whatever nodes report and whatever happens to the host's disk, what is remembered of a
  flavor has capacity and allocatable of the same resources, the latter never above the former, only
  resources that hold for every machine of the flavor, and, when the catalogue knows the flavor, its
  exact cpu count and no figure further than the tolerance from the entry's; in the dynamic disk mode
  no node's disk is remembered at all; and a disk profile in force is one of whole positive bytes.
\<close>

theorem observations_stay_plausible:
  "inst_ok L conf (fold (inst_step L conf) ops inst0)"
  by (rule inst_run_ok [OF inst0_ok])


section \<open>What is served\<close>

text \<open>
  The specification of an instance type's figures: the catalogue entry, overlaid by what was observed,
  overlaid by the host's disk, on both sides.
\<close>

definition disk_of :: "(ephemeralStorageProfile \<Rightarrow> quantity) \<Rightarrow> inst_state \<Rightarrow> resources" where
  "disk_of side st = (case isReference st of None \<Rightarrow> Map.empty | Some p \<Rightarrow> [ResourceEphemeralStorage \<mapsto> side p])"

definition static_allocatable :: "Flavor \<Rightarrow> resources" where
  "static_allocatable f = [ResourceCPU \<mapsto> of_int (flCPU f),
     ResourceMemory \<mapsto> of_int (wrap64 (flMemoryKi f * 1024)) - kubeReservedMemory,
     ResourceEphemeralStorage \<mapsto> ephemeralStorage - evictionEphemeralThreshold, ResourcePods \<mapsto> maxPods]"

definition expected_capacity :: "inst_state \<Rightarrow> Flavor \<Rightarrow> resources" where
  "expected_capacity st f =
     fst (staticCapacity f) ++ ocCapacity (observed_of st (flName f)) ++ disk_of epCapacity st"

definition expected_allocatable :: "inst_state \<Rightarrow> Flavor \<Rightarrow> resources" where
  "expected_allocatable st f =
     static_allocatable f ++ ocAllocatable (observed_of st (flName f)) ++ disk_of epAllocatable st"

lemma rl_reserve:
  assumes "lawful_res L" and "dom c = dom a"
  shows "rlSubtract L c (rlTotal L (reserve L c a)) = a"
proof
  fix r
  have "c r = None \<longleftrightarrow> a r = None" using assms(2) by (metis domIff)
  then show "rlSubtract L c (rlTotal L (reserve L c a)) r = a r"
    using assms(1) by (cases "c r"; cases "a r") (auto simp: lawful_res_def reserve_def q_at_def dom_def)
qed

lemma rl_static:
  assumes "lawful_res L"
  shows "rlSubtract L (fst (staticCapacity f)) (rlTotal L (snd (staticCapacity f))) = static_allocatable f"
  using assms by (auto simp: lawful_res_def staticCapacity_def static_allocatable_def q_at_def fun_eq_iff)

lemma dom_static [simp]:
  "dom (fst (staticCapacity f)) = set generalizableResources" "dom (static_allocatable f) = set generalizableResources"
  by (auto simp: staticCapacity_def static_allocatable_def generalizableResources_def)

lemma observed_figures_spec:
  assumes "lawful_res L" and obs: "dom (ocCapacity (observed_of st n)) = dom (ocAllocatable (observed_of st n))"
    and "observed_figures L st n (staticCapacity f) = (c, oh)"
  shows "c = fst (staticCapacity f) ++ ocCapacity (observed_of st n)"
    "rlSubtract L c (rlTotal L oh) = static_allocatable f ++ ocAllocatable (observed_of st n)"
proof -
  have assign: "rlAssign L a b = a ++ b" for a b using assms(1) by (simp add: lawful_res_def)
  have "c = fst (staticCapacity f) ++ ocCapacity (observed_of st n) \<and>
      rlSubtract L c (rlTotal L oh) = static_allocatable f ++ ocAllocatable (observed_of st n)"
  proof (cases "isObserved st n")
    case None
    then show ?thesis using assms(3) rl_static [OF assms(1), of f]
      by (simp add: observed_figures_def observed_of_def no_observation_def split: prod.splits)
  next
    case (Some ob)
    then have c: "c = fst (staticCapacity f) ++ ocCapacity ob"
      and oh: "oh = reserve L c (static_allocatable f ++ ocAllocatable ob)"
      using assms(3) rl_static [OF assms(1), of f]
      by (simp_all add: observed_figures_def assign Let_def split: prod.splits) auto
    have "dom c = dom (static_allocatable f ++ ocAllocatable ob)" using Some obs c by (simp add: observed_of_def)
    then show ?thesis using c oh Some rl_reserve [OF assms(1)] by (simp add: observed_of_def)
  qed
  then show "c = fst (staticCapacity f) ++ ocCapacity (observed_of st n)"
    "rlSubtract L c (rlTotal L oh) = static_allocatable f ++ ocAllocatable (observed_of st n)" by blast+
qed

lemma newInstanceType_figures:
  fixes conf :: inst_conf and f :: Flavor
  assumes "lawful_res L" and obs: "dom (ocCapacity (observed_of st (flName f))) = dom (ocAllocatable (observed_of st (flName f)))"
  defines "it \<equiv> newInstanceType L conf st f"
  shows "itCapacity it = expected_capacity st f"
    "rlSubtract L (itCapacity it) (rlTotal L (itOverhead it)) = expected_allocatable st f"
proof -
  obtain c oh where o: "observed_figures L st (flName f) (staticCapacity f) = (c, oh)" by (meson surj_pair)
  note spec = observed_figures_spec [OF assms(1) obs o]
  have "itCapacity it = expected_capacity st f \<and>
      rlSubtract L (itCapacity it) (rlTotal L (itOverhead it)) = expected_allocatable st f"
  proof (cases "isReference st")
    case None
    then show ?thesis using o spec
      by (simp add: it_def newInstanceType_def reference_figures_def expected_capacity_def expected_allocatable_def disk_of_def)
  next
    case (Some p)
    let ?a = "(static_allocatable f ++ ocAllocatable (observed_of st (flName f)))(ResourceEphemeralStorage \<mapsto> epAllocatable p)"
    have "dom (c(ResourceEphemeralStorage \<mapsto> epCapacity p)) = dom ?a" using spec(1) obs by simp
    from rl_reserve [OF assms(1) this] show ?thesis using Some o spec
      by (simp add: it_def newInstanceType_def reference_figures_def expected_capacity_def expected_allocatable_def
          disk_of_def Let_def)
  qed
  then show "itCapacity it = expected_capacity st f"
    "rlSubtract L (itCapacity it) (rlTotal L (itOverhead it)) = expected_allocatable st f" by blast+
qed


lemma inst_ok_observed:
  assumes "inst_ok L conf st"
  shows "plausible L conf f (observed_of st f)"
  using assms plausible_nothing by (simp add: inst_ok_def observed_of_def split: option.split)

lemma expected_le:
  assumes "inst_ok L conf st"
  shows "q_at (expected_allocatable st f) r \<le> q_at (expected_capacity st f) r"
proof -
  let ?ob = "observed_of st (flName f)"
  note p = inst_ok_observed [OF assms, of "flName f"]
  have dom: "ocCapacity ?ob r = None \<longleftrightarrow> ocAllocatable ?ob r = None" using p unfolding plausible_def by (metis domIff)
  have obs: "\<And>c a. ocCapacity ?ob r = Some c \<Longrightarrow> ocAllocatable ?ob r = Some a \<Longrightarrow> a \<le> c"
    using p unfolding plausible_def by blast
  have disk: "\<And>p. isReference st = Some p \<Longrightarrow> epAllocatable p \<le> epCapacity p"
    using assms by (simp add: inst_ok_def valid_profile_def)
  have static: "q_at (static_allocatable f) r \<le> q_at (fst (staticCapacity f)) r"
    by (simp add: static_allocatable_def staticCapacity_def q_at_def kubeReservedMemory_def evictionEphemeralThreshold_def)
  show ?thesis
    using dom obs disk static
    by (cases "ocCapacity ?ob r"; cases "ocAllocatable ?ob r"; cases "isReference st")
      (auto simp: expected_allocatable_def expected_capacity_def q_at_def disk_of_def map_add_def split: option.splits if_splits)
qed

lemma reachable_figures:
  fixes conf :: inst_conf and f :: Flavor
  assumes "lawful_res L" and "inst_ok L conf st"
  defines "it \<equiv> newInstanceType L conf st f"
  shows "itCapacity it = expected_capacity st f"
    "rlAllocatable L (itCapacity it) (itOverhead it) = expected_allocatable st f"
proof -
  have p: "dom (ocCapacity (observed_of st (flName f))) = dom (ocAllocatable (observed_of st (flName f)))"
    "dom (ocCapacity (observed_of st (flName f))) \<subseteq> set generalizableResources"
    using inst_ok_observed [OF assms(2)] unfolding plausible_def by blast+
  note fig = newInstanceType_figures [OF assms(1) p(1), of conf]
  have "dom (itCapacity it) \<subseteq> set generalizableResources"
    using p(2) unfolding it_def fig(1) expected_capacity_def disk_of_def
    by (auto simp: generalizableResources_def split: option.splits if_splits)
  with fig assms(1) show "itCapacity it = expected_capacity st f"
    "rlAllocatable L (itCapacity it) (itOverhead it) = expected_allocatable st f"
    unfolding it_def lawful_res_def by auto
qed

text \<open>
  C25. The served figures are exactly the known ones. Although an instance type only carries a capacity and
  an overhead, what karpenter computes back from them is, for every resource, the host's disk where
  it is in force, else the least observed figure, else the catalogue entry's; it never offers pods
  more than the machine has.
\<close>

theorem served_figures_are_exact:
  assumes "lawful_res L" and "st = fold (inst_step L conf) ops inst0" and "it = newInstanceType L conf st f"
  shows "itCapacity it = expected_capacity st f \<and>
    rlAllocatable L (itCapacity it) (itOverhead it) = expected_allocatable st f \<and>
    (\<forall>r. q_at (rlAllocatable L (itCapacity it) (itOverhead it)) r \<le> q_at (itCapacity it) r)"
proof -
  have ok: "inst_ok L conf st" unfolding assms(2) by (rule inst_run_ok [OF inst0_ok])
  show ?thesis unfolding assms(3) using reachable_figures [OF assms(1) ok, of f] expected_le [OF ok] by simp
qed

section \<open>An unknown disk\<close>

lemma hide_disk_figures:
  assumes "lawful_res L" and "dom (itCapacity it) \<subseteq> set generalizableResources"
  shows "itCapacity (hide_disk it) = (itCapacity it)(ResourceEphemeralStorage \<mapsto> 0)"
    "rlAllocatable L (itCapacity (hide_disk it)) (itOverhead (hide_disk it)) =
      (rlAllocatable L (itCapacity it) (itOverhead it))(ResourceEphemeralStorage \<mapsto> 0)"
proof -
  show c: "itCapacity (hide_disk it) = (itCapacity it)(ResourceEphemeralStorage \<mapsto> 0)" by (simp add: hide_disk_def)
  have "dom (itCapacity (hide_disk it)) \<subseteq> set generalizableResources"
    using assms(2) c by (simp add: generalizableResources_def)
  with assms have "rlAllocatable L (itCapacity (hide_disk it)) (itOverhead (hide_disk it)) =
      rlSubtract L (itCapacity (hide_disk it)) (rlTotal L (itOverhead (hide_disk it)))"
    "rlAllocatable L (itCapacity it) (itOverhead it) = rlSubtract L (itCapacity it) (rlTotal L (itOverhead it))"
    by (simp_all add: lawful_res_def)
  moreover have "rlSubtract L (itCapacity (hide_disk it)) (rlTotal L (itOverhead (hide_disk it))) r =
      ((rlSubtract L (itCapacity it) (rlTotal L (itOverhead it)))(ResourceEphemeralStorage \<mapsto> 0)) r" for r
    using assms(1) by (auto simp: lawful_res_def hide_disk_def q_at_def dom_def)
  ultimately show "rlAllocatable L (itCapacity (hide_disk it)) (itOverhead (hide_disk it)) =
      (rlAllocatable L (itCapacity it) (itOverhead it))(ResourceEphemeralStorage \<mapsto> 0)" by auto
qed

text \<open>
  C33. An unmeasured disk is never promised. While the dynamic disk mode has no valid reference, every
  flavor is still listed, in the same order, with the same price and cpu and memory, but with no disk
  at all, neither capacity nor allocatable; as soon as a reference is in force, or without the mode,
  new machines get exactly the catalogue.
\<close>

theorem unmeasured_disk_is_not_promised:
  assumes "lawful_res L" and "st = fold (inst_step L conf) ops inst0"
    and "ListForProvisioning L conf st = (its, ready)"
  shows "ready = EphemeralStorageReady st \<and> map itName its = map flName (icFlavors conf) \<and>
    (if ready then its = ListInstanceTypes L conf st
     else (\<forall>i < length its. let it = its ! i; full = ListInstanceTypes L conf st ! i in
       itOfferings it = itOfferings full \<and> itRequirements it = itRequirements full \<and>
       itCapacity it = (itCapacity full)(ResourceEphemeralStorage \<mapsto> 0) \<and>
       rlAllocatable L (itCapacity it) (itOverhead it) =
         (rlAllocatable L (itCapacity full) (itOverhead full))(ResourceEphemeralStorage \<mapsto> 0)))"
proof -
  have ok: "inst_ok L conf st" unfolding assms(2) by (rule inst_run_ok [OF inst0_ok])
  have dom: "dom (itCapacity (newInstanceType L conf st f)) \<subseteq> set generalizableResources" for f
    using inst_ok_observed [OF ok, of "flName f"] unfolding reachable_figures(1) [OF assms(1) ok]
    by (auto simp: plausible_def expected_capacity_def disk_of_def generalizableResources_def split: option.splits if_splits)
  have ready: "ready = EphemeralStorageReady st"
    "its = map (\<lambda>f. if \<not> ready then hide_disk (newInstanceType L conf st f) else newInstanceType L conf st f) (icFlavors conf)"
    using assms(3) by (auto simp: ListForProvisioning_def EphemeralStorageReady_def Let_def)
  have names: "itName (hide_disk (newInstanceType L conf st f)) = flName f" "itName (newInstanceType L conf st f) = flName f" for f
    by (simp_all add: hide_disk_def newInstanceType_def split: prod.split)
  have same: "itOfferings (hide_disk it) = itOfferings it" "itRequirements (hide_disk it) = itRequirements it" for it
    by (simp_all add: hide_disk_def)
  show ?thesis
    using ready names hide_disk_figures [OF assms(1) dom] same
    by (cases ready) (simp_all add: ListInstanceTypes_def comp_def Let_def)
qed


section \<open>Examples\<close>

definition exact_lib :: res_lib where
  "exact_lib = (let sub = (\<lambda>a b r. map_option (\<lambda>q. q - q_at b r) (a r));
      tot = (\<lambda>oh r. if ohKubeReserved oh r = None \<and> ohSystemReserved oh r = None \<and> ohEvictionThreshold oh r = None then None
              else Some (q_at (ohKubeReserved oh) r + q_at (ohSystemReserved oh) r + q_at (ohEvictionThreshold oh) r))
    in \<lparr>rlSubtract = sub, rlTotal = tot, rlAllocatable = (\<lambda>c oh. sub c (tot oh)), rlAssign = (++),
        rlApprox = fl, rlValue = floor\<rparr>)"

lemma exact_lib_lawful: "lawful_res exact_lib"
  by (auto simp: lawful_res_def exact_lib_def Let_def)

definition example_conf :: inst_conf where
  "example_conf = \<lparr>icRegion = ''par'', icFlavors = DefaultFlavors\<rparr>"

definition report_of :: "int \<Rightarrow> node_report" where
  "report_of m = (''GPU'', [ResourceCPU \<mapsto> 4, ResourceMemory \<mapsto> of_int m], [ResourceCPU \<mapsto> 4, ResourceMemory \<mapsto> of_int m - 1])"

lemma report_accepted:
  assumes "0 < m"
  shows "adds ocCapacity exact_lib example_conf False (report_of m) (''GPU'', ResourceMemory) = Some (of_int m)"
proof -
  have entry: "reference_capacity exact_lib example_conf ''GPU'' = None"
    by (simp add: reference_capacity_def SizingOf_def served_def example_conf_def DefaultFlavors_def FlavorSizing_def SizingByName_def)
  show ?thesis using assms entry
    by (simp add: adds_def accepted_def report_of_def accept_report_def judge_report_def checkConsistent_def consistent_at_def
        generalizableResources_def filterGeneralizable_def restrict_map_def q_at_def Let_def)
qed

theorem catalogue_keeps_the_least_report_witness:
  "ocCapacity (observed_of (fold (observe exact_lib example_conf) [report_of 9, report_of 7, report_of 8] inst0) ''GPU'')
     ResourceMemory = Some 7"
  using catalogue_keeps_the_least_report [of inst0 "''GPU''" exact_lib example_conf "[report_of 9, report_of 7, report_of 8]" ResourceMemory]
  by (simp add: inst0_def report_accepted min_opt_def)

definition flavor_M :: Flavor where
  "flavor_M = \<lparr>flName = ''M'', flCPU = 10, flMemoryKi = 15229256, flPrice = 0\<rparr>"

theorem served_figures_are_exact_witness:
  "(let it = newInstanceType exact_lib example_conf inst0 flavor_M
    in rlAllocatable exact_lib (itCapacity it) (itOverhead it) ResourceEphemeralStorage =
       Some (ephemeralStorage - evictionEphemeralThreshold))"
proof -
  let ?it = "newInstanceType exact_lib example_conf inst0 flavor_M"
  have "rlAllocatable exact_lib (itCapacity ?it) (itOverhead ?it) = expected_allocatable inst0 flavor_M"
    using served_figures_are_exact [OF exact_lib_lawful, of inst0 example_conf "[]" ?it flavor_M] by (metis fold_simps(1))
  then show ?thesis unfolding Let_def
    by (simp only: expected_allocatable_def static_allocatable_def observed_of_def no_observation_def inst0_def disk_of_def)
      simp
qed

theorem unmeasured_disk_is_not_promised_witness:
  "map itName (fst (ListForProvisioning exact_lib example_conf (RequireEphemeralStorageReference inst0))) =
     map fst FlavorSizing \<and>
   itCapacity (fst (ListForProvisioning exact_lib example_conf (RequireEphemeralStorageReference inst0)) ! 0)
     ResourceEphemeralStorage = Some 0"
proof -
  let ?st = "RequireEphemeralStorageReference inst0"
  let ?full = "ListInstanceTypes exact_lib example_conf ?st"
  obtain its ready where l: "ListForProvisioning exact_lib example_conf ?st = (its, ready)" by (meson surj_pair)
  have concl: "ready = EphemeralStorageReady ?st \<and> map itName its = map flName (icFlavors example_conf) \<and>
    (if ready then its = ?full
     else (\<forall>i < length its. let it = its ! i; full = ?full ! i in
       itOfferings it = itOfferings full \<and> itRequirements it = itRequirements full \<and>
       itCapacity it = (itCapacity full)(ResourceEphemeralStorage \<mapsto> 0) \<and>
       rlAllocatable exact_lib (itCapacity it) (itOverhead it) =
         (rlAllocatable exact_lib (itCapacity full) (itOverhead full))(ResourceEphemeralStorage \<mapsto> 0)))"
    by (rule unmeasured_disk_is_not_promised [OF exact_lib_lawful _ l, of "[Require]"]) simp
  have hidden: "\<not> EphemeralStorageReady ?st"
    by (simp add: EphemeralStorageReady_def RequireEphemeralStorageReference_def inst0_def)
  have names: "map itName its = map fst FlavorSizing"
    using concl by (simp add: example_conf_def DefaultFlavors_names)
  then have "length its = length FlavorSizing" by (metis length_map)
  then have "0 < length its" by (simp add: FlavorSizing_def)
  moreover have "\<forall>i < length its. itCapacity (its ! i) = (itCapacity (?full ! i))(ResourceEphemeralStorage \<mapsto> 0)"
  proof -
    have "ready \<longleftrightarrow> False" using concl hidden by blast
    with concl show ?thesis by (simp add: Let_def)
  qed
  ultimately have "itCapacity (its ! 0) ResourceEphemeralStorage = Some 0" by (metis fun_upd_same)
  then show ?thesis using names l by simp
qed

end
