(* ===== verification/CatalogueFeeds.thy ===== *)
theory CatalogueFeeds
  imports ObservedCatalogue NodeGroupIdentity
begin

text \<open>
  The two controllers that feed the catalogue: \<^verbatim>\<open>src/pkg/controllers/ephemeralstorage/controller.go\<close>,
  which takes the disk of new machines from the one node it is configured with, and
  \<^verbatim>\<open>src/pkg/controllers/instancetypecapacity/controller.go\<close>, which takes the capacity of a flavor
  from the running nodes of its groups. Each runs on its own goroutine: while one waits for an API
  call, the other changes the catalogue (\<open>feReports\<close>, \<open>feHost\<close>: arbitrary functions of the world the call
  returns to). The wording of log lines is not modelled, only that there is one.
\<close>

section \<open>What else happens to the catalogue\<close>

datatype host_op = HostRequire | HostInvalidate | HostSet quantity quantity

fun host_inst_op :: "host_op \<Rightarrow> inst_op" where
  "host_inst_op HostRequire = Require"
| "host_inst_op HostInvalidate = Invalidate"
| "host_inst_op (HostSet c a) = SetReference c a"

record 'w feed =
  feLib :: res_lib
  feConf :: inst_conf
  feCatalogue :: catalogue
  feReports :: "'w \<Rightarrow> node_report list"
  feHost :: "'w \<Rightarrow> host_op list"

definition reported_meanwhile :: "'w feed \<Rightarrow> 'w \<Rightarrow> inst_state \<Rightarrow> inst_state" where
  "reported_meanwhile F w st = fold (observe (feLib F) (feConf F)) (feReports F w) st"

definition host_meanwhile :: "'w feed \<Rightarrow> 'w \<Rightarrow> inst_state \<Rightarrow> inst_state" where
  "host_meanwhile F w st = fold (inst_step (feLib F) (feConf F)) (map host_inst_op (feHost F w)) st"

section \<open>The host storage controller\<close>

datatype host_error = ReadingReference api_error | ReferenceTerminating name | InvalidReference disk_error

definition NewHostController :: "inst_state \<Rightarrow> 'w sys \<Rightarrow> inst_state \<times> 'w sys" where
  "NewHostController st s =
     (RequireEphemeralStorageReference st,
      emit (SetGauge HostEphemeralStorageAllocatable 0)
        (emit (SetGauge HostEphemeralStorageCapacity 0) (emit (SetGauge HostEphemeralStorageReady 0) s)))"

definition invalidate_host :: "inst_state \<Rightarrow> 'w sys \<Rightarrow> inst_state \<times> 'w sys" where
  "invalidate_host st s = (InvalidateEphemeralStorageReference st, emit (SetGauge HostEphemeralStorageReady 0) s)"

definition ReconcileHostStorage ::
  "'w feed \<Rightarrow> 'w kube \<Rightarrow> name \<Rightarrow> name \<Rightarrow> inst_state \<Rightarrow> 'w sys \<Rightarrow>
   (host_error + duration option) \<times> inst_state \<times> 'w sys" where
  "ReconcileHostStorage F K nodeName req st s =
     (if req \<noteq> '''' \<and> req \<noteq> nodeName then (Inr None, st, s)
      else case getNode K (feCatalogue F) Uncached nodeName s of
        (Inl e, s1) \<Rightarrow>
          let st1 = reported_meanwhile F (world s1) st
          in (Inl (ReadingReference e), if e = NotFound then invalidate_host st1 s1 else (st1, s1))
      | (Inr nd, s1) \<Rightarrow>
          let st1 = reported_meanwhile F (world s1) st in
          if omDeleted (noMeta nd) \<noteq> None then (Inl (ReferenceTerminating nodeName), invalidate_host st1 s1)
          else
            let capacity = q_at (noCapacity nd) ResourceEphemeralStorage;
                allocatable = q_at (noAllocatable nd) ResourceEphemeralStorage in
            case SetEphemeralStorageReference (feLib F) capacity allocatable st1 of
              (Inl e, st2) \<Rightarrow> (Inl (InvalidReference e), invalidate_host st2 s1)
            | (Inr changed, st2) \<Rightarrow>
                let s2 = emit (SetGauge HostEphemeralStorageReady 1)
                      (emit (SetGauge HostEphemeralStorageAllocatable (rlApprox (feLib F) allocatable))
                        (emit (SetGauge HostEphemeralStorageCapacity (rlApprox (feLib F) capacity)) s1))
                in (Inr (Some minute), st2, if changed then emit (Logged ''host storage'' (noName nd)) s2 else s2))"

text \<open>What \<^verbatim>\<open>Register\<close> queues for an event on a node: the one key everything shares, or nothing.\<close>

definition host_requests :: "name \<Rightarrow> name \<Rightarrow> name list" where
  "host_requests nodeName object = (if object \<noteq> nodeName then [] else [''''])"

section \<open>The capacity controller\<close>

definition rejectionLogInterval :: duration where "rejectionLogInterval = hour"
definition driftLogThreshold :: rat where "driftLogThreshold = fl (1/100)"

record cap_state =
  ccRejectionLogged :: "name \<rightharpoonup> time"
  ccDriftLogged :: "flavor list"

definition isWorkerWithCapacity :: "node \<Rightarrow> bool" where
  "isWorkerWithCapacity nd \<longleftrightarrow>
     FlavorLabelKey \<in> dom (noLabels nd) \<and> valOf (noLabels nd) NodeGroupNodeLabelKey \<noteq> '''' \<and>
     valOf (noLabels nd) NodeRoleLabelKey = NodeRoleWorker \<and> q_at (noCapacity nd) ResourceCPU \<noteq> 0"

datatype node_event = NodeCreated node | NodeUpdated node node | NodeDeleted node

definition capacity_event :: "node_event \<Rightarrow> bool" where
  "capacity_event ev \<longleftrightarrow>
     (case ev of
        NodeCreated nd \<Rightarrow> isWorkerWithCapacity nd
      | NodeUpdated old new \<Rightarrow> isWorkerWithCapacity new
      | NodeDeleted nd \<Rightarrow> False)"

definition reject_report :: "'w kube \<Rightarrow> node \<Rightarrow> string \<Rightarrow> cap_state \<Rightarrow> 'w sys \<Rightarrow> cap_state \<times> 'w sys" where
  "reject_report K nd reason c s =
     (let s1 = emit (Count ObservedCapacityRejections) s; clock = now K s1 in
      if (case ccRejectionLogged c (noName nd) of
            Some logged \<Rightarrow> clock - logged < rejectionLogInterval | None \<Rightarrow> False)
      then (c, s1)
      else (c\<lparr>ccRejectionLogged := (ccRejectionLogged c)(noName nd \<mapsto> clock)\<rparr>, emit (Logged reason (noName nd)) s1))"

definition note_drift :: "node \<Rightarrow> flavor \<Rightarrow> f64 \<Rightarrow> cap_state \<Rightarrow> 'w sys \<Rightarrow> cap_state \<times> 'w sys" where
  "note_drift nd f dev c s =
     (if off_by_more dev driftLogThreshold then
        if f \<in> set (ccDriftLogged c) then (c, s)
        else (c\<lparr>ccDriftLogged := f # ccDriftLogged c\<rparr>, emit (Logged ''drift'' (noName nd)) s)
      else (c, s))"

definition ReconcileCapacity ::
  "'w feed \<Rightarrow> 'w kube \<Rightarrow> name \<Rightarrow> inst_state \<Rightarrow> cap_state \<Rightarrow> 'w sys \<Rightarrow>
   api_error option \<times> inst_state \<times> cap_state \<times> 'w sys" where
  "ReconcileCapacity F K req st c s =
     (case getNode K (feCatalogue F) Cached req s of
        (Inl e, s1) \<Rightarrow> (IgnoreNotFound e, host_meanwhile F (world s1) st, c, s1)
      | (Inr nd, s1) \<Rightarrow>
          let st1 = host_meanwhile F (world s1) st in
          if \<not> isWorkerWithCapacity nd then (None, st1, c, s1)
          else
            let f = valOf (noLabels nd) FlavorLabelKey in
            case getNG K (feCatalogue F) Cached (valOf (noLabels nd) NodeGroupNodeLabelKey) s1 of
              (Inl e, s2) \<Rightarrow> (IgnoreNotFound e, host_meanwhile F (world s2) st1, c, s2)
            | (Inr ng, s2) \<Rightarrow>
                let st2 = host_meanwhile F (world s2) st1 in
                if \<not> IsManaged ng then (None, st2, c, s2)
                else if NodeGroupOfNode (noName nd) \<noteq> Some (ngName ng) then (None, st2, reject_report K nd ''name'' c s2)
                else if ngFlavor ng \<noteq> f then (None, st2, reject_report K nd ''flavor'' c s2)
                else
                  case RecordObservedCapacity (feLib F) (feConf F) (ngFlavor ng) (noCapacity nd) (noAllocatable nd) st2 of
                    (Inl e, st3) \<Rightarrow> (None, st3, reject_report K nd ''capacity'' c s2)
                  | (Inr dev, st3) \<Rightarrow>
                      (None, st3, note_drift nd (ngFlavor ng) dev
                         (c\<lparr>ccRejectionLogged := (ccRejectionLogged c)(noName nd := None)\<rparr>) s2))"

section \<open>The disk of new machines is the last word on the host\<close>

text \<open>What a definite answer about the host node says of its disk; a failed read says nothing.\<close>

definition disk_reported :: "res_lib \<Rightarrow> node \<Rightarrow> ephemeralStorageProfile option" where
  "disk_reported L nd =
     (let c = q_at (noCapacity nd) ResourceEphemeralStorage; a = q_at (noAllocatable nd) ResourceEphemeralStorage in
      if omDeleted (noMeta nd) \<noteq> None \<or> bad_bytes L c \<or> bad_bytes L a \<or> c < a then None
      else Some \<lparr>epCapacity = c, epAllocatable = a\<rparr>)"

definition hear :: "res_lib \<Rightarrow> name \<Rightarrow> effect \<Rightarrow> ephemeralStorageProfile option \<Rightarrow> ephemeralStorageProfile option" where
  "hear L nodeName e known =
     (case e of
        ReadNode Uncached n (Inr nd) \<Rightarrow> if n = nodeName then disk_reported L nd else known
      | ReadNode Uncached n (Inl err) \<Rightarrow> if n = nodeName \<and> err = NotFound then None else known
      | _ \<Rightarrow> known)"

definition host_disk :: "res_lib \<Rightarrow> name \<Rightarrow> effect list \<Rightarrow> ephemeralStorageProfile option" where
  "host_disk L nodeName es = fold (hear L nodeName) es None"

text \<open>The last disk the host node reported, whatever it answered since.\<close>

definition hear_valid :: "res_lib \<Rightarrow> name \<Rightarrow> effect \<Rightarrow> ephemeralStorageProfile option \<Rightarrow> ephemeralStorageProfile option" where
  "hear_valid L nodeName e known =
     (case hear L nodeName e None of None \<Rightarrow> known | Some p \<Rightarrow> Some p)"

definition last_valid_disk :: "res_lib \<Rightarrow> name \<Rightarrow> effect list \<Rightarrow> ephemeralStorageProfile option" where
  "last_valid_disk L nodeName es = fold (hear_valid L nodeName) es None"

definition gauge_value :: "gauge \<Rightarrow> effect list \<Rightarrow> rat option" where
  "gauge_value g es = fold (\<lambda>e v. case e of SetGauge g' x \<Rightarrow> if g' = g then Some x else v | _ \<Rightarrow> v) es None"

text \<open>
  A run of the process: the controller is wired at start-up, then reconciles whatever it is asked to,
  while reports of other nodes come in; between two reconciles the world and the memory of refusals
  become whatever the rest of the process and of the cluster makes of them.
\<close>

inductive host_run :: "'w feed \<Rightarrow> 'w kube \<Rightarrow> name \<Rightarrow> 'w sys \<Rightarrow> inst_state \<Rightarrow> 'w sys \<Rightarrow> bool"
  for F :: "'w feed" and K :: "'w kube" and nodeName :: name and s0 :: "'w sys" where
  host_wired: "NewHostController inst0 s0 = (st, s) \<Longrightarrow> host_run F K nodeName s0 st s"
| host_reported: "host_run F K nodeName s0 st s \<Longrightarrow> host_run F K nodeName s0 (observe (feLib F) (feConf F) rep st) s"
| host_reconciled: "host_run F K nodeName s0 st s \<Longrightarrow> ReconcileHostStorage F K nodeName req st s = (r, st', s') \<Longrightarrow>
    host_run F K nodeName s0 st' s'"
| host_idle: "host_run F K nodeName s0 st s \<Longrightarrow> host_run F K nodeName s0 st (s\<lparr>world := w, refs := m\<rparr>)"

lemma host_disk_simps [simp]:
  "host_disk L n [] = None" "host_disk L n (es @ [e]) = hear L n e (host_disk L n es)"
  by (simp_all add: host_disk_def)

lemma last_valid_disk_simps [simp]:
  "last_valid_disk L n [] = None" "last_valid_disk L n (es @ [e]) = hear_valid L n e (last_valid_disk L n es)"
  by (simp_all add: last_valid_disk_def)

lemma hear_simps [simp]:
  "hear L n (SetGauge g x) known = known" "hear L n (Logged m k) known = known"
  "hear L n (ReadNode Uncached n (Inr nd)) known = disk_reported L nd"
  "hear L n (ReadNode Uncached n (Inl err)) known = (if err = NotFound then None else known)"
  by (simp_all add: hear_def)

lemma hear_valid_simps [simp]:
  "hear_valid L n (SetGauge g x) known = known" "hear_valid L n (Logged m k) known = known"
  "hear_valid L n (ReadNode Uncached n (Inr nd)) known = (case disk_reported L nd of None \<Rightarrow> known | Some p \<Rightarrow> Some p)"
  "hear_valid L n (ReadNode Uncached n (Inl err)) known = known"
  by (simp_all add: hear_valid_def)

lemma gauge_value_simps [simp]:
  "gauge_value g (es @ [SetGauge g' x]) = (if g' = g then Some x else gauge_value g es)"
  "gauge_value g (es @ [Logged m k]) = gauge_value g es"
  "gauge_value g (es @ [ReadNode rd n r]) = gauge_value g es"
  by (simp_all add: gauge_value_def)

lemma observe_disk [simp]:
  "isRequired (observe L conf rep st) = isRequired st" "isReady (observe L conf rep st) = isReady st"
  "isReference (observe L conf rep st) = isReference st"
  by (cases rep; auto simp: observe_def RecordObservedCapacity_def Let_def split: sum.splits prod.splits)+

lemma observes_disk:
  "isRequired (fold (observe L conf) reps st) = isRequired st \<and> isReady (fold (observe L conf) reps st) = isReady st \<and>
   isReference (fold (observe L conf) reps st) = isReference st"
  by (induction reps arbitrary: st) simp_all

lemma reported_meanwhile_disk [simp]:
  "isRequired (reported_meanwhile F w st) = isRequired st" "isReady (reported_meanwhile F w st) = isReady st"
  "isReference (reported_meanwhile F w st) = isReference st"
  by (simp_all add: reported_meanwhile_def observes_disk)


definition disk_gauge :: "res_lib \<Rightarrow> (ephemeralStorageProfile \<Rightarrow> quantity) \<Rightarrow> ephemeralStorageProfile option \<Rightarrow> rat" where
  "disk_gauge L figure disk = (case disk of None \<Rightarrow> 0 | Some p \<Rightarrow> rlApprox L (figure p))"

lemma disk_gauge_simps [simp]: "disk_gauge L figure None = 0" "disk_gauge L figure (Some p) = rlApprox L (figure p)"
  by (simp_all add: disk_gauge_def)

definition host_ok :: "res_lib \<Rightarrow> name \<Rightarrow> effect list \<Rightarrow> inst_state \<Rightarrow> effect list \<Rightarrow> bool" where
  "host_ok L nodeName before st es \<longleftrightarrow>
     isRequired st \<and> gauge_value HostEphemeralStorageReady (before @ es) = Some (if isReady st then 1 else 0) \<and>
     gauge_value HostEphemeralStorageCapacity (before @ es) = Some (disk_gauge L epCapacity (last_valid_disk L nodeName es)) \<and>
     gauge_value HostEphemeralStorageAllocatable (before @ es) = Some (disk_gauge L epAllocatable (last_valid_disk L nodeName es)) \<and>
     (case host_disk L nodeName es of
        None \<Rightarrow> \<not> isReady st
      | Some p \<Rightarrow> isReady st \<and> isReference st = Some p \<and> valid_profile p \<and> last_valid_disk L nodeName es = Some p)"

lemma host_ok_frame:
  "host_ok L n before st es \<Longrightarrow> isRequired st' = isRequired st \<Longrightarrow> isReady st' = isReady st \<Longrightarrow>
   isReference st' = isReference st \<Longrightarrow> host_ok L n before st' es"
  by (cases "host_disk L n es") (simp_all add: host_ok_def)

lemma host_ok_failed_read:
  "host_ok L n before st es \<Longrightarrow> e \<noteq> NotFound \<Longrightarrow> host_ok L n before st (es @ [ReadNode Uncached n (Inl e)])"
  by (cases "host_disk L n es") (simp_all add: host_ok_def append_assoc [symmetric] del: append_assoc)

lemma host_ok_invalidated:
  assumes "host_ok L n before st es" and "hear L n e (host_disk L n es) = None"
    and "e = ReadNode Uncached n r"
  shows "host_ok L n before (InvalidateEphemeralStorageReference st) (es @ [e, SetGauge HostEphemeralStorageReady 0])"
proof -
  have cat: "before @ (xs @ [x]) = (before @ xs) @ [x]" for xs and x :: effect by simp
  have "hear_valid L n e (last_valid_disk L n es) = last_valid_disk L n es"
    using assms(2,3) by (cases r) simp_all
  then have "host_ok L n before (InvalidateEphemeralStorageReference st) ((es @ [e]) @ [SetGauge HostEphemeralStorageReady 0])"
    using assms unfolding host_ok_def by (simp add: cat InvalidateEphemeralStorageReference_def del: append_assoc)
  then show ?thesis by simp
qed

lemma disk_reported_set:
  assumes "SetEphemeralStorageReference L (q_at (noCapacity nd) ResourceEphemeralStorage)
      (q_at (noAllocatable nd) ResourceEphemeralStorage) st = (r, st')" and "isRequired st" and "omDeleted (noMeta nd) = None"
  shows "case disk_reported L nd of
      None \<Rightarrow> isl r \<and> st' = st
    | Some p \<Rightarrow> (\<exists>changed. r = Inr changed) \<and> st' = st\<lparr>isReference := Some p, isReady := True\<rparr> \<and> valid_profile p \<and>
        epCapacity p = q_at (noCapacity nd) ResourceEphemeralStorage \<and>
        epAllocatable p = q_at (noAllocatable nd) ResourceEphemeralStorage"
proof -
  let ?c = "q_at (noCapacity nd) ResourceEphemeralStorage" and ?a = "q_at (noAllocatable nd) ResourceEphemeralStorage"
  show ?thesis
  proof (cases "bad_bytes L ?c \<or> bad_bytes L ?a \<or> ?c < ?a")
    case True
    then show ?thesis using assms by (auto simp: disk_reported_def SetEphemeralStorageReference_def Let_def split: if_splits)
  next
    case False
    then have d: "disk_reported L nd = Some \<lparr>epCapacity = ?c, epAllocatable = ?a\<rparr>"
      using assms(3) by (simp add: disk_reported_def Let_def)
    from assms(1) show ?thesis
    proof (cases rule: SetReference_cases)
      case (refused err)
      then show ?thesis using False assms(1,2) by (auto simp: SetEphemeralStorageReference_def Let_def)
    next
      case (taken p changed)
      then have "p = \<lparr>epCapacity = ?c, epAllocatable = ?a\<rparr>" by (cases p) simp
      with d have "disk_reported L nd = Some p" by simp
      then show ?thesis using taken by simp
    qed
  qed
qed


lemma host_ok_taken:
  assumes "isRequired st" and "disk_reported L nd = Some p" and "valid_profile p"
    and "noted = [] \<or> (\<exists>m k. noted = [Logged m k])"
  shows "host_ok L n before (st\<lparr>isReference := Some p, isReady := True\<rparr>)
    (es @ [ReadNode Uncached n (Inr nd), SetGauge HostEphemeralStorageCapacity (rlApprox L (epCapacity p)),
       SetGauge HostEphemeralStorageAllocatable (rlApprox L (epAllocatable p)), SetGauge HostEphemeralStorageReady 1] @ noted)"
proof -
  let ?read = "es @ [ReadNode Uncached n (Inr nd)]"
  let ?cap = "?read @ [SetGauge HostEphemeralStorageCapacity (rlApprox L (epCapacity p))]"
  let ?alloc = "?cap @ [SetGauge HostEphemeralStorageAllocatable (rlApprox L (epAllocatable p))]"
  let ?done = "?alloc @ [SetGauge HostEphemeralStorageReady 1]"
  have cat: "before @ (xs @ [e]) = (before @ xs) @ [e]" for xs and e :: effect by simp
  have "host_ok L n before (st\<lparr>isReference := Some p, isReady := True\<rparr>) (?done @ noted)"
    using assms(4)
  proof (elim disjE exE)
    assume "noted = []"
    then show ?thesis using assms(1-3) unfolding host_ok_def by (simp add: cat del: append_assoc)
  next
    fix m k assume "noted = [Logged m k]"
    then show ?thesis using assms(1-3) unfolding host_ok_def by (simp add: cat del: append_assoc)
  qed
  then show ?thesis by simp
qed

lemma host_reconcile_ok:
  assumes "trace s = before @ es" and "host_ok (feLib F) n before st es" and "ReconcileHostStorage F K n req st s = (r, st', s')"
  shows "\<exists>es'. trace s' = before @ es' \<and> host_ok (feLib F) n before st' es'"
proof (cases "req \<noteq> '''' \<and> req \<noteq> n")
  case True
  then show ?thesis using assms by (auto simp: ReconcileHostStorage_def)
next
  case False
  obtain r0 s1 where read: "getNode K (feCatalogue F) Uncached n s = (r0, s1)" by (meson surj_pair)
  have tr: "trace s1 = before @ es @ [ReadNode Uncached n r0]"
    using trace_call [OF read [unfolded getNode_def]] assms(1) by simp
  let ?st1 = "reported_meanwhile F (world s1) st"
  have ok1: "host_ok (feLib F) n before ?st1 es" by (rule host_ok_frame [OF assms(2)]) simp_all
  then have req: "isRequired ?st1" by (simp add: host_ok_def)
  have lost: ?thesis if "hear (feLib F) n (ReadNode Uncached n r0) (host_disk (feLib F) n es) = None"
      "(st', s') = invalidate_host st2 s1" "st2 = ?st1" for st2
  proof -
    have "trace s' = before @ es @ [ReadNode Uncached n r0, SetGauge HostEphemeralStorageReady 0]"
      "st' = InvalidateEphemeralStorageReference ?st1"
      using that(2,3) tr by (simp_all add: invalidate_host_def)
    then show ?thesis using host_ok_invalidated [OF ok1 that(1) refl] by metis
  qed
  show ?thesis
  proof (cases r0)
    case (Inl e)
    show ?thesis
    proof (cases "e = NotFound")
      case True
      then show ?thesis using assms(3) False read Inl by (intro lost) (auto simp: ReconcileHostStorage_def Let_def)
    next
      case transient: False
      then have "st' = ?st1" "s' = s1" using assms(3) False read Inl by (auto simp: ReconcileHostStorage_def Let_def)
      then show ?thesis using tr Inl host_ok_failed_read [OF ok1 transient] by metis
    qed
  next
    case (Inr nd)
    show ?thesis
    proof (cases "omDeleted (noMeta nd) = None")
      case False
      then show ?thesis using assms(3) \<open>\<not> (req \<noteq> '''' \<and> req \<noteq> n)\<close> read Inr
        by (intro lost) (auto simp: ReconcileHostStorage_def disk_reported_def Let_def)
    next
      case True
      obtain r1 st2 where set: "SetEphemeralStorageReference (feLib F) (q_at (noCapacity nd) ResourceEphemeralStorage)
          (q_at (noAllocatable nd) ResourceEphemeralStorage) ?st1 = (r1, st2)" by (meson surj_pair)
      note said = disk_reported_set [OF set req True]
      show ?thesis
      proof (cases "disk_reported (feLib F) nd")
        case None
        then obtain err where "r1 = Inl err" "st2 = ?st1" using said by (cases r1) auto
        then show ?thesis using assms(3) False read Inr True set None
          by (intro lost) (auto simp: ReconcileHostStorage_def Let_def)
      next
        case (Some p)
        then obtain changed where changed: "r1 = Inr changed" "st2 = ?st1\<lparr>isReference := Some p, isReady := True\<rparr>"
            "valid_profile p" "epCapacity p = q_at (noCapacity nd) ResourceEphemeralStorage"
            "epAllocatable p = q_at (noAllocatable nd) ResourceEphemeralStorage"
          using said by auto
        let ?noted = "if changed then [Logged ''host storage'' (noName nd)] else []"
        let ?es = "es @ [ReadNode Uncached n (Inr nd), SetGauge HostEphemeralStorageCapacity (rlApprox (feLib F) (epCapacity p)),
            SetGauge HostEphemeralStorageAllocatable (rlApprox (feLib F) (epAllocatable p)), SetGauge HostEphemeralStorageReady 1] @ ?noted"
        have "st' = st2" "trace s' = before @ ?es"
          using assms(3) False read Inr True set changed tr by (auto simp: ReconcileHostStorage_def Let_def)
        moreover have "host_ok (feLib F) n before st2 ?es"
          unfolding changed(2) by (rule host_ok_taken [OF req Some changed(3)]) simp
        ultimately show ?thesis by metis
      qed
    qed
  qed
qed

lemma host_run_ok: "host_run F K n s0 st s \<Longrightarrow> \<exists>es. trace s = trace s0 @ es \<and> host_ok (feLib F) n (trace s0) st es"
proof (induction rule: host_run.induct)
  case (host_wired st s)
  let ?es = "[SetGauge HostEphemeralStorageReady 0, SetGauge HostEphemeralStorageCapacity 0, SetGauge HostEphemeralStorageAllocatable 0]"
  have cat: "b @ [x, y, z] = ((b @ [x]) @ [y]) @ [z]" for b and x y z :: effect by simp
  have "host_disk (feLib F) n ?es = None" by (simp add: host_disk_def)
  moreover have "last_valid_disk (feLib F) n ?es = None" by (simp add: last_valid_disk_def)
  moreover have "gauge_value HostEphemeralStorageReady (trace s0 @ ?es) = Some 0"
    "gauge_value HostEphemeralStorageCapacity (trace s0 @ ?es) = Some 0"
    "gauge_value HostEphemeralStorageAllocatable (trace s0 @ ?es) = Some 0"
    by (simp_all add: cat del: append_assoc)
  moreover have "trace s = trace s0 @ ?es" "isRequired st" "\<not> isReady st"
    using host_wired by (auto simp: NewHostController_def RequireEphemeralStorageReference_def inst0_def)
  ultimately show ?case by (simp add: host_ok_def)
next
  case (host_reported st s rep)
  then show ?case using host_ok_frame by (metis observe_disk)
next
  case (host_reconciled st s req r st' s')
  then show ?case using host_reconcile_ok by blast
next
  case (host_idle st s w m)
  then show ?case by simp
qed

lemma host_run_starts: "host_run F K n s0 (fst (NewHostController inst0 s0)) (snd (NewHostController inst0 s0))"
  by (rule host_wired) simp


text \<open>
  C11. The disk promised to new machines is the last word on the host node, and its gauges say so. At any
  time after start-up, whatever was reconciled, read and reported meanwhile: if the last definite
  answer about the configured node (not a failed read, and no other node) was the node itself, alive,
  with a disk of whole bytes and no more allocatable than capacity, then that disk is in force and the
  readiness gauge is 1; after any other answer, or none, no disk is in force and the readiness gauge is
  0. The capacity and allocatable gauges keep the last such disk whatever was answered since, and are 0
  before the first; a disk in force is the one they show.
\<close>

theorem host_disk_is_the_last_word:
  assumes "host_run F K nodeName s0 st s"
  shows "(case host_disk (feLib F) nodeName (did s0 s) of
        None \<Rightarrow> \<not> EphemeralStorageReady st \<and> gauge_value HostEphemeralStorageReady (trace s) = Some 0
      | Some p \<Rightarrow> EphemeralStorageReady st \<and> isReference st = Some p \<and> valid_profile p \<and>
          gauge_value HostEphemeralStorageReady (trace s) = Some 1 \<and> last_valid_disk (feLib F) nodeName (did s0 s) = Some p) \<and>
    (case last_valid_disk (feLib F) nodeName (did s0 s) of
        None \<Rightarrow> gauge_value HostEphemeralStorageCapacity (trace s) = Some 0 \<and>
          gauge_value HostEphemeralStorageAllocatable (trace s) = Some 0
      | Some p \<Rightarrow> gauge_value HostEphemeralStorageCapacity (trace s) = Some (rlApprox (feLib F) (epCapacity p)) \<and>
          gauge_value HostEphemeralStorageAllocatable (trace s) = Some (rlApprox (feLib F) (epAllocatable p)))"
proof -
  obtain es where es: "trace s = trace s0 @ es" and ok: "host_ok (feLib F) nodeName (trace s0) st es"
    using host_run_ok [OF assms] by blast
  have "did s0 s = es" using es by (simp add: did_def)
  then show ?thesis using ok es
    by (cases "host_disk (feLib F) nodeName es"; cases "last_valid_disk (feLib F) nodeName es")
      (simp_all add: host_ok_def EphemeralStorageReady_def)
qed

section \<open>Only vouched nodes feed the catalogue\<close>

lemma host_steps_observed:
  "isObserved (fold (inst_step L conf) (map host_inst_op ops) st) f = Some ob \<Longrightarrow>
   \<exists>ob'. isObserved st f = Some ob' \<and> ocCapacity ob \<subseteq>\<^sub>m ocCapacity ob' \<and> ocAllocatable ob \<subseteq>\<^sub>m ocAllocatable ob'"
proof (induction ops arbitrary: st)
  case (Cons x ops)
  then obtain ob1 where ob1: "isObserved (inst_step L conf (host_inst_op x) st) f = Some ob1"
      "ocCapacity ob \<subseteq>\<^sub>m ocCapacity ob1" "ocAllocatable ob \<subseteq>\<^sub>m ocAllocatable ob1"
    by auto
  have "\<exists>ob'. isObserved st f = Some ob' \<and> (ob1 = ob' \<or> ob1 = drop_disk ob')"
  proof (cases x)
    case HostRequire
    then show ?thesis using ob1(1) by (auto simp: RequireEphemeralStorageReference_def split: if_splits)
  next
    case HostInvalidate
    then show ?thesis using ob1(1) by (auto simp: InvalidateEphemeralStorageReference_def)
  next
    case (HostSet c a)
    obtain r st' where run: "SetEphemeralStorageReference L c a st = (r, st')" by (meson surj_pair)
    then have "isObserved st' = isObserved st" by (cases rule: SetReference_cases) simp_all
    then show ?thesis using ob1(1) HostSet run by simp
  qed
  then obtain ob' where "isObserved st f = Some ob'" "ob1 = ob' \<or> ob1 = drop_disk ob'" by blast
  moreover have "ocCapacity (drop_disk ob') \<subseteq>\<^sub>m ocCapacity ob'" "ocAllocatable (drop_disk ob') \<subseteq>\<^sub>m ocAllocatable ob'"
    by (auto simp: drop_disk_def map_le_def dom_def split: if_splits)
  ultimately show ?case using ob1(2,3) map_le_trans by blast
qed (auto simp: map_le_def)

text \<open>A node the platform put into a managed group of the flavor, read from the API with that group.\<close>

definition vouched :: "effect list \<Rightarrow> flavor \<Rightarrow> node \<Rightarrow> bool" where
  "vouched es f nd \<longleftrightarrow>
     (\<exists>req ng. ReadNode Cached req (Inr nd) \<in> set es \<and>
        ReadNG Cached (valOf (noLabels nd) NodeGroupNodeLabelKey) (Inr ng) \<in> set es \<and>
        IsManaged ng \<and> NodeGroupOfNode (noName nd) = Some (ngName ng) \<and> ngFlavor ng = f)"

lemma vouched_mono: "vouched es f nd \<Longrightarrow> set es \<subseteq> set es' \<Longrightarrow> vouched es' f nd"
  unfolding vouched_def by blast

definition sourced :: "effect list \<Rightarrow> inst_state \<Rightarrow> bool" where
  "sourced es st \<longleftrightarrow>
     (\<forall>f ob r q. isObserved st f = Some ob \<longrightarrow>
        (ocCapacity ob r = Some q \<longrightarrow> (\<exists>nd. vouched es f nd \<and> noCapacity nd r = Some q)) \<and>
        (ocAllocatable ob r = Some q \<longrightarrow> (\<exists>nd. vouched es f nd \<and> noAllocatable nd r = Some q)))"

inductive cap_run :: "'w feed \<Rightarrow> 'w kube \<Rightarrow> 'w sys \<Rightarrow> inst_state \<Rightarrow> cap_state \<Rightarrow> 'w sys \<Rightarrow> bool"
  for F :: "'w feed" and K :: "'w kube" and s0 :: "'w sys" where
  cap_start: "cap_run F K s0 inst0 \<lparr>ccRejectionLogged = Map.empty, ccDriftLogged = []\<rparr> s0"
| cap_host: "cap_run F K s0 st c s \<Longrightarrow> cap_run F K s0 (inst_step (feLib F) (feConf F) (host_inst_op x) st) c s"
| cap_reconciled: "cap_run F K s0 st c s \<Longrightarrow> ReconcileCapacity F K req st c s = (e, st', c', s') \<Longrightarrow> cap_run F K s0 st' c' s'"

lemma sourced_host:
  assumes "sourced es st"
  shows "sourced es (fold (inst_step L conf) (map host_inst_op ops) st)"
  unfolding sourced_def
proof (intro allI impI)
  fix f ob r q
  assume "isObserved (fold (inst_step L conf) (map host_inst_op ops) st) f = Some ob"
  then obtain ob' where ob': "isObserved st f = Some ob'" "ocCapacity ob \<subseteq>\<^sub>m ocCapacity ob'" "ocAllocatable ob \<subseteq>\<^sub>m ocAllocatable ob'"
    using host_steps_observed by blast
  have "ocCapacity ob r = Some q \<Longrightarrow> ocCapacity ob' r = Some q" "ocAllocatable ob r = Some q \<Longrightarrow> ocAllocatable ob' r = Some q"
    using ob'(2,3) unfolding map_le_def by (metis domI)+
  then show "(ocCapacity ob r = Some q \<longrightarrow> (\<exists>nd. vouched es f nd \<and> noCapacity nd r = Some q)) \<and>
      (ocAllocatable ob r = Some q \<longrightarrow> (\<exists>nd. vouched es f nd \<and> noAllocatable nd r = Some q))"
    using assms ob'(1) unfolding sourced_def by blast
qed

lemma sourced_mono: "sourced es st \<Longrightarrow> set es \<subseteq> set es' \<Longrightarrow> sourced es' st"
  unfolding sourced_def using vouched_mono by blast


lemma accepted_from_report:
  assumes "accepted L conf required (f, c, a) = Some obs"
  shows "ocCapacity obs \<subseteq>\<^sub>m c \<and> ocAllocatable obs \<subseteq>\<^sub>m a"
proof -
  let ?ob = "\<lparr>ocCapacity = filterGeneralizable c, ocAllocatable = filterGeneralizable a\<rparr>"
  let ?ob1 = "if required then drop_disk ?ob else ?ob"
  obtain d where "judge_report L conf f ?ob1 = Inr (d, obs)"
    using assms by (auto simp: accepted_def accept_report_def Let_def split: if_splits sum.splits option.splits)
  then have "obs = ?ob1 \<or> obs = drop_disk ?ob1"
    by (auto simp: judge_report_def Let_def split: if_splits option.splits)
  then show ?thesis
    by (auto simp: map_le_def filterGeneralizable_def restrict_map_def split: if_splits)
qed

lemma sourced_observe:
  assumes "sourced es st" and "vouched es f nd"
  shows "sourced es (observe L conf (f, noCapacity nd, noAllocatable nd) st)"
proof (cases rule: observe_cases [of L conf st f "noCapacity nd" "noAllocatable nd"])
  case ignored
  then show ?thesis using assms(1) by simp
next
  case (taken obs)
  note from_report = accepted_from_report [OF taken(1)]
  have prev: "\<exists>nd. vouched es f nd \<and> noCapacity nd r = Some q" if "ocCapacity (observed_of st f) r = Some q" for r q
    using that assms(1) by (auto simp: sourced_def observed_of_def no_observation_def split: option.splits)
  have prev': "\<exists>nd. vouched es f nd \<and> noAllocatable nd r = Some q" if "ocAllocatable (observed_of st f) r = Some q" for r q
    using that assms(1) by (auto simp: sourced_def observed_of_def no_observation_def split: option.splits)
  have new: "ocCapacity obs r = Some q \<Longrightarrow> noCapacity nd r = Some q" "ocAllocatable obs r = Some q \<Longrightarrow> noAllocatable nd r = Some q" for r q
    using from_report unfolding map_le_def by (metis domI)+
  have "\<exists>nd. vouched es f nd \<and> noCapacity nd r = Some q"
    if "minMerge (ocCapacity (observed_of st f)) (ocCapacity obs) r = Some q" for r q
    using minMerge_Some [OF that] prev new(1) assms(2) by blast
  moreover have "\<exists>nd. vouched es f nd \<and> noAllocatable nd r = Some q"
    if "minMerge (ocAllocatable (observed_of st f)) (ocAllocatable obs) r = Some q" for r q
    using minMerge_Some [OF that] prev' new(2) assms(2) by blast
  ultimately show ?thesis using assms(1) unfolding taken(2) sourced_def by auto
qed

text \<open>The ways a reconciliation can end, with the catalogue it leaves.\<close>

lemma ReconcileCapacity_cases:
  assumes "ReconcileCapacity F K req st c s = (e, st', c', s')"
  obtains (unread) x where "st' = host_meanwhile F (world s') st" "c' = c" "trace s' = trace s @ [x]"
      "x \<noteq> Count ObservedCapacityRejections"
  | (ignored) st1 x y where "st1 = host_meanwhile F x st" "st' = host_meanwhile F (world s') st1" "c' = c"
      "trace s' = trace s @ y" "Count ObservedCapacityRejections \<notin> set y"
  | (refused) nd ng st1 x s2 reason where "st1 = host_meanwhile F x st" "st' = host_meanwhile F (world s2) st1"
      "trace s2 = trace s @ [ReadNode Cached req (Inr nd), ReadNG Cached (valOf (noLabels nd) NodeGroupNodeLabelKey) (Inr ng)]"
      "(c', s') = reject_report K nd reason c s2"
      "IsManaged ng" "isWorkerWithCapacity nd" "e = None"
  | (recorded) nd ng st1 st2 x s2 dev where "st1 = host_meanwhile F x st" "st2 = host_meanwhile F (world s2) st1"
      "trace s2 = trace s @ [ReadNode Cached req (Inr nd), ReadNG Cached (valOf (noLabels nd) NodeGroupNodeLabelKey) (Inr ng)]"
      "IsManaged ng" "NodeGroupOfNode (noName nd) = Some (ngName ng)" "isWorkerWithCapacity nd"
      "valOf (noLabels nd) FlavorLabelKey = ngFlavor ng"
      "RecordObservedCapacity (feLib F) (feConf F) (ngFlavor ng) (noCapacity nd) (noAllocatable nd) st2 = (Inr dev, st')"
      "(c', s') = note_drift nd (ngFlavor ng) dev (c\<lparr>ccRejectionLogged := (ccRejectionLogged c)(noName nd := None)\<rparr>) s2"
      "e = None"
proof -
  obtain r0 s1 where read: "getNode K (feCatalogue F) Cached req s = (r0, s1)" by (meson surj_pair)
  have t1: "trace s1 = trace s @ [ReadNode Cached req r0]" using trace_call [OF read [unfolded getNode_def]] .
  show thesis
  proof (cases r0)
    case (Inl err)
    then show thesis using assms read t1 by (intro unread) (auto simp: ReconcileCapacity_def)
  next
    case (Inr nd)
    let ?st1 = "host_meanwhile F (world s1) st"
    show thesis
    proof (cases "isWorkerWithCapacity nd")
      case False
      then show thesis using assms read Inr t1 by (intro unread) (auto simp: ReconcileCapacity_def)
    next
      case worker: True
      obtain r1 s2 where group: "getNG K (feCatalogue F) Cached (valOf (noLabels nd) NodeGroupNodeLabelKey) s1 = (r1, s2)"
        by (meson surj_pair)
      have t2: "trace s2 = trace s @ [ReadNode Cached req (Inr nd), ReadNG Cached (valOf (noLabels nd) NodeGroupNodeLabelKey) r1]"
        using trace_call [OF group [unfolded getNG_def]] t1 Inr by simp
      let ?st2 = "host_meanwhile F (world s2) ?st1"
      have quiet: thesis if "s' = s2" "st' = ?st2" "c' = c"
        by (rule ignored [where y = "[ReadNode Cached req (Inr nd), ReadNG Cached (valOf (noLabels nd) NodeGroupNodeLabelKey) r1]", OF refl])
           (use that t2 in simp_all)
      show thesis
      proof (cases r1)
        case (Inl err)
        then show thesis using assms read Inr worker group by (intro quiet) (auto simp: ReconcileCapacity_def Let_def)
      next
        case ng: (Inr ng)
        show thesis
        proof (cases "IsManaged ng")
          case False
          then show thesis using assms read Inr worker group ng by (intro quiet) (auto simp: ReconcileCapacity_def Let_def)
        next
          case managed: True
          note run = assms read Inr worker group ng managed
          obtain res st3 where rec: "RecordObservedCapacity (feLib F) (feConf F) (ngFlavor ng) (noCapacity nd) (noAllocatable nd) ?st2 = (res, st3)"
            by (meson surj_pair)
          have kept: "isl res \<Longrightarrow> st3 = ?st2"
            using rec by (auto simp: RecordObservedCapacity_def Let_def split: if_splits sum.splits)
          have bad: thesis if "st' = ?st2" "e = None" "(c', s') = reject_report K nd reason c s2" for reason
            using refused [OF refl that(1) t2 [unfolded ng] that(3) managed worker that(2)] .
          show thesis
          proof (cases "NodeGroupOfNode (noName nd) = Some (ngName ng)")
            case False
            then show thesis using run by (intro bad [of "''name''"]) (auto simp: ReconcileCapacity_def Let_def)
          next
            case name: True
            show thesis
            proof (cases "ngFlavor ng = valOf (noLabels nd) FlavorLabelKey")
              case False
              then show thesis using run name by (intro bad [of "''flavor''"]) (auto simp: ReconcileCapacity_def Let_def)
            next
              case flavor: True
              show thesis
              proof (cases res)
                case (Inl err)
                then show thesis using run name flavor rec kept
                  by (intro bad [of "''capacity''"]) (auto simp: ReconcileCapacity_def Let_def)
              next
                case (Inr dev)
                have "e = None" "st' = st3" "(c', s') = note_drift nd (ngFlavor ng) dev
                    (c\<lparr>ccRejectionLogged := (ccRejectionLogged c)(noName nd := None)\<rparr>) s2"
                  using run name flavor rec Inr by (auto simp: ReconcileCapacity_def Let_def)
                then show thesis
                  using recorded [OF refl refl t2 [unfolded ng] managed name worker flavor [symmetric]] rec Inr by blast
              qed
            qed
          qed
        qed
      qed
    qed
  qed
qed


lemma trace_reject: "(c', s') = reject_report K nd reason c s \<Longrightarrow> \<exists>es. trace s' = trace s @ es"
  by (auto simp: reject_report_def Let_def split: if_splits)

lemma trace_drift: "(c', s') = note_drift nd f dev c s \<Longrightarrow> \<exists>es. trace s' = trace s @ es \<and> Count ObservedCapacityRejections \<notin> set es"
  by (auto simp: note_drift_def split: if_splits)

lemma sourced_host_meanwhile: "sourced es st \<Longrightarrow> sourced es (host_meanwhile F w st)"
  unfolding host_meanwhile_def by (rule sourced_host)

lemma ReconcileCapacity_extends: "ReconcileCapacity F K req st c s = (e, st', c', s') \<Longrightarrow> \<exists>es. trace s' = trace s @ es"
  by (cases rule: ReconcileCapacity_cases, assumption) (auto dest!: trace_reject trace_drift)

lemma sourced_reconcile:
  assumes "ReconcileCapacity F K req st c s = (e, st', c', s')" and "trace s = before @ es" and "sourced es st"
  shows "\<exists>es'. trace s' = before @ es' \<and> sourced es' st'"
proof -
  obtain new where new: "trace s' = trace s @ new" using ReconcileCapacity_extends [OF assms(1)] by blast
  have keep: "sourced (es @ new) (host_meanwhile F w st)" for w
    by (rule sourced_host_meanwhile, rule sourced_mono [OF assms(3)]) simp
  from assms(1) have "sourced (es @ new) st'"
  proof (cases rule: ReconcileCapacity_cases)
    case (recorded nd ng st1 st2 x s2 dev)
    have st': "st' = observe (feLib F) (feConf F) (ngFlavor ng, noCapacity nd, noAllocatable nd) st2"
      using recorded(8) by (simp add: observe_def)
    have "\<exists>later. new = [ReadNode Cached req (Inr nd), ReadNG Cached (valOf (noLabels nd) NodeGroupNodeLabelKey) (Inr ng)] @ later"
      using trace_drift [OF recorded(9)] recorded(3) new by auto
    then have "vouched (es @ new) (ngFlavor ng) nd"
      using recorded(4,5) unfolding vouched_def by auto
    then show ?thesis
      unfolding st' using keep recorded(1,2) by (intro sourced_observe) (simp_all add: sourced_host_meanwhile)
  qed (simp_all add: keep sourced_host_meanwhile)
  then show ?thesis using new assms(2) by auto
qed

lemma cap_run_sourced: "cap_run F K s0 st c s \<Longrightarrow> \<exists>es. trace s = trace s0 @ es \<and> sourced es st"
proof (induction rule: cap_run.induct)
  case cap_start
  then show ?case by (simp add: sourced_def inst0_def)
next
  case (cap_host st c s x)
  then show ?case using sourced_host [where ops = "[x]"] by auto
next
  case (cap_reconciled st c s req e st' c' s')
  then show ?case using sourced_reconcile by blast
qed

text \<open>
  C8. A kubelet cannot speak for a flavor it does not run. In every state the capacity controller can
  bring the catalogue to, whatever labels and figures nodes claim and whatever the host controller
  does, each figure remembered of a flavor was reported by a node, read from the API, whose own name
  ends in \<^verbatim>\<open>-node<N>\<close> after the name of a NodeGroup this provider manages and whose immutable flavor is
  that flavor.
\<close>

theorem only_vouched_nodes_feed_the_catalogue:
  assumes "cap_run F K s0 st c s" and "isObserved st f = Some ob"
  shows "(ocCapacity ob r = Some q \<longrightarrow> (\<exists>nd. vouched (did s0 s) f nd \<and> noCapacity nd r = Some q)) \<and>
    (ocAllocatable ob r = Some q \<longrightarrow> (\<exists>nd. vouched (did s0 s) f nd \<and> noAllocatable nd r = Some q))"
proof -
  obtain es where "trace s = trace s0 @ es" "sourced es st" using cap_run_sourced [OF assms(1)] by blast
  then show ?thesis using assms(2) by (simp add: did_def sourced_def)
qed

text \<open>
  A refused report changes nothing and never passes silently. A reconciliation that counts a
  rejection counts one, for a worker of a managed group; the catalogue is as the host controller left
  it, the reconciliation does not fail, and a line is logged unless one was logged for that node less
  than an hour ago, which is then still on record.
\<close>

theorem refused_reports_are_counted:
  assumes "ReconcileCapacity F K req st c s = (e, st', c', s')" and "Count ObservedCapacityRejections \<in> set (did s s')"
  shows "e = None \<and> (\<exists>ws. st' = fold (host_meanwhile F) ws st) \<and>
    count_list (did s s') (Count ObservedCapacityRejections) = 1 \<and>
    (\<exists>nd ng. ReadNode Cached req (Inr nd) \<in> set (did s s') \<and> isWorkerWithCapacity nd \<and>
       ReadNG Cached (valOf (noLabels nd) NodeGroupNodeLabelKey) (Inr ng) \<in> set (did s s') \<and> IsManaged ng \<and>
       ((\<exists>reason. Logged reason (noName nd) \<in> set (did s s')) \<longleftrightarrow>
          (\<forall>logged. ccRejectionLogged c (noName nd) = Some logged \<longrightarrow> rejectionLogInterval \<le> now K s' - logged)) \<and>
       (\<exists>logged. ccRejectionLogged c' (noName nd) = Some logged \<and> now K s' - logged \<le> rejectionLogInterval))"
  using assms(1)
proof (cases rule: ReconcileCapacity_cases)
  case (refused nd ng st1 x s2 reason)
  have "st' = fold (host_meanwhile F) [x, world s2] st" using refused(1,2) by simp
  moreover have "now K s' = now K s2" using refused(4) by (auto simp: reject_report_def now_def Let_def split: if_splits)
  moreover have "did s s' = did s s2 @ Count ObservedCapacityRejections #
      (if \<forall>logged. ccRejectionLogged c (noName nd) = Some logged \<longrightarrow> rejectionLogInterval \<le> now K s2 - logged
       then [Logged reason (noName nd)] else [])"
    using refused(3,4) by (auto simp: reject_report_def did_def now_def Let_def split: if_splits option.splits)
  moreover have "\<exists>logged. ccRejectionLogged c' (noName nd) = Some logged \<and> now K s2 - logged \<le> rejectionLogInterval"
    using refused(4) by (auto simp: reject_report_def now_def Let_def rejectionLogInterval_def dur_defs split: if_splits option.splits)
  moreover have "did s s2 = [ReadNode Cached req (Inr nd), ReadNG Cached (valOf (noLabels nd) NodeGroupNodeLabelKey) (Inr ng)]"
    using refused(3) by (simp add: did_def)
  ultimately show ?thesis using refused(5-7) by (intro conjI exI [of _ nd] exI [of _ ng] exI [of _ "[x, world s2]"]) auto
qed (use assms(2) in \<open>auto simp: did_def dest!: trace_drift\<close>)


section \<open>Examples\<close>

definition example_feed :: "unit feed" where
  "example_feed = \<lparr>feLib = exact_lib, feConf = example_conf, feCatalogue = Some SizingByName,
     feReports = (\<lambda>w. []), feHost = (\<lambda>w. [])\<rparr>"

definition worker_named :: "name \<Rightarrow> node" where
  "worker_named n =
     \<lparr>noMeta = meta0\<lparr>omName := n, omLabels := [FlavorLabelKey \<mapsto> ''GPU'', NodeGroupNodeLabelKey \<mapsto> ''c1'',
        NodeRoleLabelKey \<mapsto> NodeRoleWorker]\<rparr>,
      noProviderID = '''',
      noCapacity = [ResourceCPU \<mapsto> 4, ResourceMemory \<mapsto> 9, ResourceEphemeralStorage \<mapsto> 20],
      noAllocatable = [ResourceCPU \<mapsto> 4, ResourceMemory \<mapsto> 8, ResourceEphemeralStorage \<mapsto> 10]\<rparr>"

definition gpu_group :: nodegroup where
  "gpu_group = \<lparr>ngMeta = meta0\<lparr>omName := ''c1'', omLabels := [ManagedLabelKey \<mapsto> ''true'']\<rparr>,
     ngSpec = \<lparr>nsFlavor = ''GPU'', nsNodeCount = 1, nsLabels = Map.empty, nsTaints = []\<rparr>, ngStatus = status0\<rparr>"

definition reporting_world :: "name \<Rightarrow> unit kube" where
  "reporting_world n = silent\<lparr>kGetNode := (\<lambda>rd m w. (Inr (worker_named n), w)), kGetNG := (\<lambda>rd m w. (Inr gpu_group, w))\<rparr>"

lemma reporting_world_simps [simp]:
  "kGetNode (reporting_world n) rd m w = (Inr (worker_named n), w)" "kGetNG (reporting_world n) rd m w = (Inr gpu_group, w)"
  "kNow (reporting_world n) w = 0" "kOthers (reporting_world n) w = []"
  by (simp_all add: reporting_world_def silent_def)

lemma example_feed_simps [simp]:
  "feLib example_feed = exact_lib" "feConf example_feed = example_conf" "reported_meanwhile example_feed w st = st"
  "host_meanwhile example_feed w st = st"
  by (simp_all add: example_feed_def reported_meanwhile_def host_meanwhile_def)

lemma worker_is_worker: "isWorkerWithCapacity (worker_named n)"
  by (simp add: isWorkerWithCapacity_def worker_named_def valOf_def q_at_def key_defs resource_defs)

lemma worker_labels [simp]:
  "valOf (noLabels (worker_named n)) NodeGroupNodeLabelKey = ''c1''" "valOf (noLabels (worker_named n)) FlavorLabelKey = ''GPU''"
  "noName (worker_named n) = n" "omDeleted (noMeta (worker_named n)) = None"
  by (simp_all add: worker_named_def valOf_def key_defs meta0_def)

lemma gpu_group_simps [simp]: "IsManaged gpu_group" "ngName gpu_group = ''c1''" "ngFlavor gpu_group = ''GPU''"
  by (simp_all add: gpu_group_def IsManaged_def meta0_def)

definition host_example :: "(host_error + duration option) \<times> inst_state \<times> unit sys" where
  "host_example = (let (st, s) = NewHostController inst0 (start ())
     in ReconcileHostStorage example_feed (reporting_world ''ref'') ''ref'' '''' st s)"

theorem host_disk_is_the_last_word_witness:
  "isReference (fst (snd host_example)) = Some \<lparr>epCapacity = 20, epAllocatable = 10\<rparr> \<and>
   gauge_value HostEphemeralStorageCapacity (trace (snd (snd host_example))) = Some (fl 20)"
proof -
  obtain r st s where ex: "host_example = (r, st, s)" by (metis surj_pair)
  have run: "host_run example_feed (reporting_world ''ref'') ''ref'' (start ()) st s"
    by (rule host_reconciled [OF host_run_starts, where req = "''''" and r = r])
      (use ex in \<open>simp add: host_example_def split: prod.splits\<close>)
  have hear: "disk_reported exact_lib (worker_named ''ref'') = Some \<lparr>epCapacity = 20, epAllocatable = 10\<rparr>"
    by (simp add: disk_reported_def worker_named_def meta0_def q_at_def bad_bytes_def exact_lib_def Let_def)
  have "did (start ()) s = [SetGauge HostEphemeralStorageReady 0, SetGauge HostEphemeralStorageCapacity 0,
      SetGauge HostEphemeralStorageAllocatable 0, ReadNode Uncached ''ref'' (Inr (worker_named ''ref'')),
      SetGauge HostEphemeralStorageCapacity (fl 20), SetGauge HostEphemeralStorageAllocatable (fl 10),
      SetGauge HostEphemeralStorageReady 1, Logged ''host storage'' ''ref'']"
    using ex by (auto simp: host_example_def NewHostController_def ReconcileHostStorage_def run_defs did_def start_def
        RequireEphemeralStorageReference_def inst0_def worker_named_def meta0_def q_at_def bad_bytes_def exact_lib_def
        SetEphemeralStorageReference_def Let_def)
  then have "host_disk exact_lib ''ref'' (did (start ()) s) = Some \<lparr>epCapacity = 20, epAllocatable = 10\<rparr>"
    using hear by (simp add: host_disk_def hear_def)
  moreover have "rlApprox exact_lib = fl" by (simp add: exact_lib_def Let_def)
  ultimately have "isReference st = Some \<lparr>epCapacity = 20, epAllocatable = 10\<rparr>"
    "gauge_value HostEphemeralStorageCapacity (trace s) = Some (fl 20)"
    using host_disk_is_the_last_word [OF run] by auto
  then show ?thesis unfolding ex fst_conv snd_conv by blast
qed

definition cap0 :: cap_state where
  "cap0 = \<lparr>ccRejectionLogged = Map.empty, ccDriftLogged = []\<rparr>"

definition report_example :: "name \<Rightarrow> api_error option \<times> inst_state \<times> cap_state \<times> unit sys" where
  "report_example n = ReconcileCapacity example_feed (reporting_world n) n inst0 cap0 (start ())"

lemma cap_run_starts: "cap_run F K s0 inst0 cap0 s0"
  unfolding cap0_def by (rule cap_start)

theorem only_vouched_nodes_feed_the_catalogue_witness:
  "\<exists>ob nd. isObserved (fst (snd (report_example ''c1-node0''))) ''GPU'' = Some ob \<and> ocCapacity ob ResourceMemory = Some 9 \<and>
     NodeGroupOfNode (noName nd) = Some ''c1'' \<and> noCapacity nd ResourceMemory = Some 9"
proof -
  obtain e st c s where ex: "report_example ''c1-node0'' = (e, st, c, s)" by (metis surj_pair)
  have named: "NodeGroupOfNode ''c1-node0'' = Some ''c1''" by code_simp
  have entry: "reference_capacity exact_lib example_conf ''GPU'' = None"
    by (simp add: reference_capacity_def SizingOf_def served_def example_conf_def DefaultFlavors_def FlavorSizing_def SizingByName_def)
  have accepted: "\<exists>obs. accept_report exact_lib example_conf False ''GPU'' (noCapacity (worker_named n)) (noAllocatable (worker_named n)) = Inr (Finite 0, obs) \<and>
      ocCapacity obs ResourceMemory = Some 9" for n
    using entry by (simp add: accept_report_def judge_report_def checkConsistent_def consistent_at_def worker_named_def
        generalizableResources_def filterGeneralizable_def restrict_map_def q_at_def Let_def)
  have figures: "q_at (noCapacity (worker_named n)) ResourceCPU \<noteq> 0" "q_at (noCapacity (worker_named n)) ResourceMemory \<noteq> 0"
    "isRequired inst0 = False" for n
    by (simp_all add: worker_named_def q_at_def inst0_def)
  have recorded: "\<exists>st' ob. RecordObservedCapacity exact_lib example_conf ''GPU'' (noCapacity (worker_named n)) (noAllocatable (worker_named n)) inst0 =
      (Inr (Finite 0), st') \<and> isObserved st' ''GPU'' = Some ob \<and> ocCapacity ob ResourceMemory = Some 9" for n
    using accepted [of n] figures
    by (auto simp: RecordObservedCapacity_def observed_of_def no_observation_def minMerge_def inst0_def Let_def)
  have "\<exists>ob. isObserved st ''GPU'' = Some ob \<and> ocCapacity ob ResourceMemory = Some 9"
    using ex named recorded [of "''c1-node0''"]
    by (auto simp: report_example_def ReconcileCapacity_def worker_is_worker run_defs Let_def)
  then obtain ob where ob: "isObserved st ''GPU'' = Some ob" "ocCapacity ob ResourceMemory = Some 9" by blast
  have run: "cap_run example_feed (reporting_world ''c1-node0'') (start ()) st c s"
    by (rule cap_reconciled [OF cap_run_starts ex [unfolded report_example_def]])
  obtain nd where nd: "vouched (did (start ()) s) ''GPU'' nd" "noCapacity nd ResourceMemory = Some 9"
    using only_vouched_nodes_feed_the_catalogue [OF run ob(1), of ResourceMemory 9] ob(2) by blast
  have "\<And>rd n x. ReadNG rd n (Inr x) \<in> set (did (start ()) s) \<Longrightarrow> x = gpu_group"
    using ex by (auto simp: report_example_def ReconcileCapacity_def worker_is_worker named run_defs did_def start_def Let_def
        note_drift_def reject_report_def split: sum.splits prod.splits if_splits)
  then have "NodeGroupOfNode (noName nd) = Some ''c1''" using nd(1) unfolding vouched_def by fastforce
  then show ?thesis using ob nd(2) ex by auto
qed

theorem refused_reports_are_counted_witness:
  "\<exists>e st c s. report_example ''intruder'' = (e, st, c, s) \<and> st = inst0 \<and>
     count_list (trace s) (Count ObservedCapacityRejections) = 1"
proof -
  obtain e st c s where ex: "report_example ''intruder'' = (e, st, c, s)" by (metis surj_pair)
  have named: "NodeGroupOfNode ''intruder'' = None" by code_simp
  have did: "did (start ()) s = [ReadNode Cached ''intruder'' (Inr (worker_named ''intruder'')), ReadNG Cached ''c1'' (Inr gpu_group),
      Count ObservedCapacityRejections, Logged ''name'' ''intruder'']"
    using ex named by (auto simp: report_example_def ReconcileCapacity_def worker_is_worker run_defs did_def start_def Let_def
        reject_report_def cap0_def)
  have "fold (host_meanwhile example_feed) ws st0 = st0" for ws st0
    by (induction ws) simp_all
  then have "st = inst0" "count_list (did (start ()) s) (Count ObservedCapacityRejections) = 1"
    using refused_reports_are_counted [OF ex [unfolded report_example_def]] did by auto
  then show ?thesis using ex by (auto simp: did_def start_def)
qed

end
