(* ===== verification/DiskSnapshot.thy ===== *)
theory DiskSnapshot
  imports ObservedCatalogue NodeGroupProvider
begin

text \<open>
  \<^verbatim>\<open>src/pkg/cloudprovider/storage_snapshot.go\<close>: the disk a machine was launched with, written on its
  NodeGroup and read back for as long as the group lives. The parser and the printer of Kubernetes'
  quantities are parameters; what is relied on is that a whole number of bytes survives the round trip.
\<close>

section \<open>Quantities as text\<close>

record quantity_lib =
  qlString :: "quantity \<Rightarrow> string"
  qlParse :: "string \<Rightarrow> quantity option"

definition lawful_quantities :: "res_lib \<Rightarrow> quantity_lib \<Rightarrow> bool" where
  "lawful_quantities L Q \<longleftrightarrow>
     (\<forall>n::int. 0 \<le> n \<longrightarrow> n < 2 ^ 63 \<longrightarrow> qlParse Q (qlString Q (of_int n)) = Some (of_int n) \<and> rlValue L (of_int n) = n)"

section \<open>Writing the snapshot\<close>

definition diskCapacityAnnotation :: string where
  "diskCapacityAnnotation = ''karpenter.clever-cloud.com/ephemeral-storage-capacity''"
definition diskAllocatableAnnotation :: string where
  "diskAllocatableAnnotation = ''karpenter.clever-cloud.com/ephemeral-storage-allocatable''"

record diskSnapshot =
  dsCapacity :: quantity
  dsAllocatable :: quantity

definition it_allocatable :: "res_lib \<Rightarrow> instance_type \<Rightarrow> resources" where
  "it_allocatable L it = rlAllocatable L (itCapacity it) (itOverhead it)"

definition diskSnapshotAnnotations :: "res_lib \<Rightarrow> quantity_lib \<Rightarrow> instance_type \<Rightarrow> strmap" where
  "diskSnapshotAnnotations L Q it =
     (let capacity = q_at (itCapacity it) ResourceEphemeralStorage;
          allocatable = q_at (it_allocatable L it) ResourceEphemeralStorage
      in [diskCapacityAnnotation \<mapsto> qlString Q capacity, diskAllocatableAnnotation \<mapsto> qlString Q allocatable])"

section \<open>Reading it back\<close>

datatype snapshot_error =
    UnparsableFigure name string string
  | NotWholeFigure name string string
  | HalfUnknown name
  | SnapshotExceeds name

definition read_figure ::
  "res_lib \<Rightarrow> quantity_lib \<Rightarrow> name \<Rightarrow> string \<Rightarrow> string \<Rightarrow> snapshot_error + quantity" where
  "read_figure L Q n field text =
     (case qlParse Q text of
        None \<Rightarrow> Inl (UnparsableFigure n field text)
      | Some q \<Rightarrow>
          let bytes = rlValue L q in
          if bytes < 0 \<or> q \<noteq> of_int bytes then Inl (NotWholeFigure n field text) else Inr (of_int bytes))"

definition readDiskSnapshot ::
  "res_lib \<Rightarrow> quantity_lib \<Rightarrow> nodegroup \<Rightarrow> snapshot_error + diskSnapshot option" where
  "readDiskSnapshot L Q ng =
     (let annotations = omAnnotations (ngMeta ng) in
      if annotations diskCapacityAnnotation = None \<and> annotations diskAllocatableAnnotation = None then Inr None
      else case read_figure L Q (ngName ng) diskCapacityAnnotation (valOf annotations diskCapacityAnnotation) of
          Inl e \<Rightarrow> Inl e
        | Inr c \<Rightarrow>
            (case read_figure L Q (ngName ng) diskAllocatableAnnotation (valOf annotations diskAllocatableAnnotation) of
               Inl e \<Rightarrow> Inl e
             | Inr a \<Rightarrow>
                 if (c = 0) \<noteq> (a = 0) then Inl (HalfUnknown (ngName ng))
                 else if c < a then Inl (SnapshotExceeds (ngName ng))
                 else Inr (Some \<lparr>dsCapacity = c, dsAllocatable = a\<rparr>)))"

section \<open>A launch that already has its group\<close>

datatype existing_error = CheckingExisting api_error | ExistingNotOwned name | ExistingSnapshot snapshot_error

definition existingDiskLaunch ::
  "res_lib \<Rightarrow> quantity_lib \<Rightarrow> 'w kube \<Rightarrow> catalogue \<Rightarrow> nodeclaim \<Rightarrow> 'w sys \<Rightarrow>
   (existing_error + nodegroup option) \<times> 'w sys" where
  "existingDiskLaunch L Q K cat claim s =
     (case getNG K cat Uncached (ncName claim) s of
        (Inl e, s1) \<Rightarrow> if e = NotFound then (Inr None, s1) else (Inl (CheckingExisting e), s1)
      | (Inr existing, s1) \<Rightarrow>
          if \<not> OwnedByNodeClaim existing claim then (Inl (ExistingNotOwned (ngName existing)), s1)
          else case readDiskSnapshot L Q existing of
                 Inl e \<Rightarrow> (Inl (ExistingSnapshot e), s1)
               | Inr _ \<Rightarrow> (Inr (Some existing), s1))"

section \<open>The round trip\<close>

text \<open>A disk a snapshot can hold: whole bytes, no more allocatable than capacity, and known or not.\<close>

definition storable :: "quantity \<Rightarrow> quantity \<Rightarrow> bool" where
  "storable c a \<longleftrightarrow>
     c \<in> \<int> \<and> a \<in> \<int> \<and> 0 \<le> a \<and> a \<le> c \<and> c < 2 ^ 63 \<and> (c = 0 \<longleftrightarrow> a = 0)"

lemma annotation_neqs [simp]:
  "diskCapacityAnnotation \<noteq> diskAllocatableAnnotation" "diskAllocatableAnnotation \<noteq> diskCapacityAnnotation"
  "diskCapacityAnnotation \<noteq> NodeClassHashLabelKey" "diskAllocatableAnnotation \<noteq> NodeClassHashLabelKey"
  "diskCapacityAnnotation \<noteq> NodeClassHashVersionAnnotationKey" "diskAllocatableAnnotation \<noteq> NodeClassHashVersionAnnotationKey"
  by (simp_all add: diskCapacityAnnotation_def diskAllocatableAnnotation_def key_defs)

lemma read_figure_written:
  assumes "lawful_quantities L Q" and "q \<in> \<int>" "0 \<le> q" "q < 2 ^ 63"
  shows "read_figure L Q n field (qlString Q q) = Inr q"
proof -
  obtain z where z: "q = of_int z" using assms(2) by (auto elim: Ints_cases)
  then have "0 \<le> z" "z < 2 ^ 63" using assms(3,4) by simp_all
  then have "qlParse Q (qlString Q q) = Some q" "rlValue L q = z"
    using assms(1) unfolding z lawful_quantities_def by blast+
  then show ?thesis using \<open>0 \<le> z\<close> z by (simp add: read_figure_def)
qed

lemma readDiskSnapshot_written:
  assumes "lawful_quantities L Q"
    and "storable (q_at (itCapacity it) ResourceEphemeralStorage) (q_at (it_allocatable L it) ResourceEphemeralStorage)"
    and "omAnnotations (ngMeta ng) diskCapacityAnnotation = diskSnapshotAnnotations L Q it diskCapacityAnnotation"
    and "omAnnotations (ngMeta ng) diskAllocatableAnnotation = diskSnapshotAnnotations L Q it diskAllocatableAnnotation"
  shows "readDiskSnapshot L Q ng = Inr (Some
    \<lparr>dsCapacity = q_at (itCapacity it) ResourceEphemeralStorage, dsAllocatable = q_at (it_allocatable L it) ResourceEphemeralStorage\<rparr>)"
proof -
  let ?c = "q_at (itCapacity it) ResourceEphemeralStorage" and ?a = "q_at (it_allocatable L it) ResourceEphemeralStorage"
  have "read_figure L Q n field (qlString Q ?c) = Inr ?c" "read_figure L Q n field (qlString Q ?a) = Inr ?a" for n field
    using assms(2) by (auto intro!: read_figure_written [OF assms(1)] simp: storable_def)
  moreover have "omAnnotations (ngMeta ng) diskCapacityAnnotation = Some (qlString Q ?c)"
    "omAnnotations (ngMeta ng) diskAllocatableAnnotation = Some (qlString Q ?a)"
    using assms(3,4) by (simp_all add: diskSnapshotAnnotations_def Let_def)
  ultimately show ?thesis using assms(2) by (auto simp: readDiskSnapshot_def storable_def Let_def)
qed

lemma payload_annotations:
  assumes "k \<notin> {NodeClassHashLabelKey, NodeClassHashVersionAnnotationKey}"
  shows "omAnnotations (ngMeta (newNodeGroup E claim l)) k = laAnnotations l k"
  using assms by (simp add: newNodeGroup_def stampedAnnotations_def)

end
