(* ===== verification/CloudProvider.thy ===== *)
theory CloudProvider
  imports DiskSnapshot NodeClassHash
begin

text \<open>
  \<^verbatim>\<open>src/pkg/cloudprovider/cloudprovider.go\<close>: karpenter's view of the provider. The catalogue belongs to
  other goroutines, so its state is a view of the world (\<open>cvInst\<close>); what karpenter-core's scheduling
  library decides about requirements, requests and offerings is a parameter (\<open>sched\<close>). The one state of
  its own, the flavors already named in a log line, is passed along.
\<close>

section \<open>What it is made from\<close>

text \<open>
  \<^verbatim>\<open>Requirements.Intersects\<close> (true for its nil error), \<^verbatim>\<open>resources.Fits\<close>, and \<^verbatim>\<open>Compatible\<close>, \<^verbatim>\<open>Available\<close>
  and \<^verbatim>\<open>Cheapest\<close> of a list of offerings.
\<close>

record sched =
  scIntersects :: "requirement list \<Rightarrow> requirement list \<Rightarrow> bool"
  scFits :: "resources \<Rightarrow> resources \<Rightarrow> bool"
  scCompatible :: "offering list \<Rightarrow> requirement list \<Rightarrow> offering list"
  scAvailable :: "offering list \<Rightarrow> offering list"
  scCheapest :: "offering list \<Rightarrow> offering"

definition lawful_sched :: "sched \<Rightarrow> bool" where
  "lawful_sched S \<longleftrightarrow>
     (\<forall>os rq. set (scCompatible S os rq) \<subseteq> set os) \<and> (\<forall>os. scAvailable S os = filter ofAvailable os) \<and>
     (\<forall>os. os \<noteq> [] \<longrightarrow> scCheapest S os \<in> set os \<and> (\<forall>p \<in> set os. ofPrice (scCheapest S os) \<le> ofPrice p))"

record 'w provider_conf =
  cvEnv :: provider_env
  cvLib :: res_lib
  cvQuantities :: quantity_lib
  cvSched :: sched
  cvConf :: inst_conf
  cvInst :: "'w \<Rightarrow> inst_state"

abbreviation cvCat :: "'w provider_conf \<Rightarrow> catalogue" where "cvCat C \<equiv> peCatalogue (cvEnv C)"

text \<open>\<^verbatim>\<open>nodeClaim.Spec.NodeClassRef.Name\<close>: without a reference Go panics.\<close>

definition class_name :: "nodeclaim \<Rightarrow> name option" where
  "class_name claim = map_option crName (ncClassRef claim)"

section \<open>Describing a running group\<close>

definition resolveNodeGroupInstanceType ::
  "'w provider_conf \<Rightarrow> nodegroup \<Rightarrow> flavor list \<Rightarrow> 'w sys \<Rightarrow> instance_type \<times> flavor list \<times> 'w sys" where
  "resolveNodeGroupInstanceType C ng warned s =
     (case GetInstanceType (cvLib C) (cvConf C) (cvInst C (world s)) (ngFlavor ng) s of
        (Inr it, s1) \<Rightarrow> (it, removeAll (ngFlavor ng) warned, s1)
      | (Inl (ErrUnknownFlavor f), s1) \<Rightarrow>
          let it = Synthesize (cvLib C) (cvConf C) (cvInst C (world s1)) (ngFlavor ng) in
          if ngFlavor ng \<in> set warned then (it, warned, s1)
          else (it, ngFlavor ng # warned, emit (Logged ''synthesized'' (ngFlavor ng)) s1))"

text \<open>What the provider says of a machine: the fields of a NodeClaim it fills in.\<close>

record described =
  dcName :: name
  dcLabels :: strmap
  dcCreated :: time
  dcProviderID :: string
  dcCapacity :: resources
  dcAllocatable :: resources

definition single_valued :: "requirement \<Rightarrow> string option" where
  "single_valued r = (if rqOperator r = ''In'' then (case rqValues r of [v] \<Rightarrow> Some v | _ \<Rightarrow> None) else None)"

definition label_step :: "requirement \<Rightarrow> strmap \<Rightarrow> strmap" where
  "label_step r m = (case single_valued r of Some v \<Rightarrow> m(rqKey r \<mapsto> v) | None \<Rightarrow> m)"

definition claim_labels :: "nodegroup \<Rightarrow> instance_type \<Rightarrow> strmap" where
  "claim_labels ng it =
     (let from_type = fold label_step (itRequirements it) Map.empty;
          from_offering = (case find ofAvailable (itOfferings it) of
              Some off \<Rightarrow> fold label_step (ofRequirements off) from_type | None \<Rightarrow> from_type)
      in case omLabels (ngMeta ng) NodePoolLabelKey of
           Some pool \<Rightarrow> from_offering(CoreNodePoolLabelKey \<mapsto> pool)
         | None \<Rightarrow> from_offering)"

definition buildNodeClaim :: "'w provider_conf \<Rightarrow> nodegroup \<Rightarrow> instance_type \<Rightarrow> 'w sys \<Rightarrow> described \<times> 'w sys" where
  "buildNodeClaim C ng it s =
     (let claim = \<lparr>dcName = ngName ng, dcLabels = claim_labels ng it, dcCreated = omCreated (ngMeta ng),
             dcProviderID = ProviderID (ngName ng), dcCapacity = itCapacity it, dcAllocatable = it_allocatable (cvLib C) it\<rparr> in
      case readDiskSnapshot (cvLib C) (cvQuantities C) ng of
        Inl e \<Rightarrow> (claim, emit (Logged ''disk snapshot'' (ngName ng)) s)
      | Inr None \<Rightarrow> (claim, s)
      | Inr (Some snapshot) \<Rightarrow>
          (claim\<lparr>dcCapacity := (dcCapacity claim)(ResourceEphemeralStorage \<mapsto> dsCapacity snapshot),
                 dcAllocatable := (dcAllocatable claim)(ResourceEphemeralStorage \<mapsto> dsAllocatable snapshot)\<rparr>, s))"

section \<open>The catalogue as the scheduler sees it\<close>

definition close_offerings :: "instance_type \<Rightarrow> instance_type" where
  "close_offerings it = it\<lparr>itOfferings := map (\<lambda>off. off\<lparr>ofAvailable := False\<rparr>) (itOfferings it)\<rparr>"

definition instanceTypes :: "'w provider_conf \<Rightarrow> 'w kube \<Rightarrow> 'w sys \<Rightarrow> instance_type list \<times> bool" where
  "instanceTypes C K s =
     (let (its, diskReady) = ListForProvisioning (cvLib C) (cvConf C) (cvInst C (world s))
      in (map (\<lambda>it. if \<not> Unavailable (cvCat C) (now K s) (itName it) (refs s) then it else close_offerings it) its,
          diskReady))"

definition hasDiskLimit :: "nodepool option \<Rightarrow> bool" where
  "hasDiskLimit pool = (case pool of None \<Rightarrow> False | Some p \<Rightarrow> npLimits p ResourceEphemeralStorage \<noteq> None)"

definition GetInstanceTypes :: "'w provider_conf \<Rightarrow> 'w kube \<Rightarrow> nodepool option \<Rightarrow> 'w sys \<Rightarrow> instance_type list" where
  "GetInstanceTypes C K pool s =
     (let (its, diskReady) = instanceTypes C K s
      in if \<not> diskReady \<and> hasDiskLimit pool then map close_offerings its else its)"

section \<open>Choosing a flavor\<close>

datatype no_capacity = ClassGone | DiskNotReady | PoolDiskLimit name | FlavorsUnavailable nat | NoFlavorFits

datatype pick_error = PoolUnread name api_error | NoCapacity no_capacity

record picked =
  pkBest :: "(instance_type \<times> rat) option"
  pkUnavailable :: nat

definition pick_step :: "'w provider_conf \<Rightarrow> nodeclaim \<Rightarrow> instance_type \<Rightarrow> picked \<Rightarrow> picked" where
  "pick_step C claim it p =
     (let S = cvSched C; rq = ncRequirements claim in
      if \<not> scIntersects S (itRequirements it) rq then p
      else if \<not> scFits S (ncRequests claim) (it_allocatable (cvLib C) it) then p
      else
        let compatible = scCompatible S (itOfferings it) rq; offerings = scAvailable S compatible in
        if offerings = [] then (if compatible \<noteq> [] then p\<lparr>pkUnavailable := pkUnavailable p + 1\<rparr> else p)
        else
          let price = ofPrice (scCheapest S offerings) in
          (case pkBest p of
             None \<Rightarrow> p\<lparr>pkBest := Some (it, price)\<rparr>
           | Some (cur, bestPrice) \<Rightarrow> if price < bestPrice then p\<lparr>pkBest := Some (it, price)\<rparr> else p))"

definition pick_cheapest :: "'w provider_conf \<Rightarrow> nodeclaim \<Rightarrow> instance_type list \<Rightarrow> pick_error + instance_type" where
  "pick_cheapest C claim its =
     (let p = fold (pick_step C claim) its \<lparr>pkBest = None, pkUnavailable = 0\<rparr> in
      case pkBest p of
        None \<Rightarrow> Inl (NoCapacity (if 0 < pkUnavailable p then FlavorsUnavailable (pkUnavailable p) else NoFlavorFits))
      | Some (cur, price) \<Rightarrow> Inr cur)"

definition resolveInstanceType ::
  "'w provider_conf \<Rightarrow> 'w kube \<Rightarrow> nodeclaim \<Rightarrow> 'w sys \<Rightarrow> (pick_error + instance_type) \<times> 'w sys" where
  "resolveInstanceType C K claim s =
     (let (its, diskReady) = instanceTypes C K s in
      if diskReady then (pick_cheapest C claim its, s)
      else if 0 < q_at (ncRequests claim) ResourceEphemeralStorage then (Inl (NoCapacity DiskNotReady), s)
      else
        let pool = valOf (omLabels (ncMeta claim)) CoreNodePoolLabelKey in
        if pool = '''' then (pick_cheapest C claim its, s)
        else case getPool K (cvCat C) pool s of
          (Inl e, s1) \<Rightarrow> (Inl (PoolUnread pool e), s1)
        | (Inr np, s1) \<Rightarrow>
            if hasDiskLimit (Some np) then (Inl (NoCapacity (PoolDiskLimit pool)), s1)
            else (pick_cheapest C claim its, s1))"

section \<open>Resolving a launch\<close>

datatype unwanted = ClaimGone name | ClaimUnread api_error | ClaimReplaced name string string | ClaimDeleting name

definition checkNodeClaimWanted ::
  "'w provider_conf \<Rightarrow> 'w kube \<Rightarrow> nodeclaim \<Rightarrow> 'w sys \<Rightarrow> unwanted option \<times> 'w sys" where
  "checkNodeClaimWanted C K claim s =
     (case getClaim K (cvCat C) Uncached (ncName claim) s of
        (Inl e, s1) \<Rightarrow> (Some (if e = NotFound then ClaimGone (ncName claim) else ClaimUnread e), s1)
      | (Inr live, s1) \<Rightarrow>
          (if ncUID live \<noteq> ncUID claim then Some (ClaimReplaced (ncName claim) (ncUID live) (ncUID claim))
           else if ncTerminating live then Some (ClaimDeleting (ncName claim))
           else None, s1))"

datatype not_ready = ReadinessMessage string | ClassTerminating name

text \<open>The errors of the resolver. \<open>Insufficient\<close>, \<open>NotReady\<close> and \<open>CannotCreate\<close> are karpenter-core's typed errors, the rest plain.\<close>

datatype resolve_error =
    Existing existing_error
  | Unwanted unwanted
  | NilClassRef
  | ClassUnread api_error
  | NotReady not_ready
  | CannotCreate name api_error
  | Insufficient no_capacity

text \<open>The error \<open>None\<close> is the panic of a claim without a class reference.\<close>

definition resolveNodeClassFromNodeClaim ::
  "'w provider_conf \<Rightarrow> 'w kube \<Rightarrow> nodeclaim \<Rightarrow> 'w sys \<Rightarrow> (api_error option + nodeclass) \<times> 'w sys" where
  "resolveNodeClassFromNodeClaim C K claim s =
     (case class_name claim of
        None \<Rightarrow> (Inl None, s)
      | Some n \<Rightarrow>
          (case getClass K (cvCat C) Uncached n s of
             (Inl e, s1) \<Rightarrow> (Inl (Some e), s1)
           | (Inr class, s1) \<Rightarrow> (Inr class, s1)))"

definition class_error :: "api_error option \<Rightarrow> resolve_error" where
  "class_error e =
     (case e of
        None \<Rightarrow> NilClassRef
      | Some err \<Rightarrow> if err = NotFound then Insufficient ClassGone else ClassUnread err)"

definition ConditionReady :: string where "ConditionReady = ''Ready''"

definition readiness_message :: "nodeclass \<Rightarrow> string" where
  "readiness_message class = (case clConditions class ConditionReady of Some c \<Rightarrow> cdMessage c | None \<Rightarrow> '''')"

definition resolveLaunch ::
  "'w provider_conf \<Rightarrow> 'w kube \<Rightarrow> nodeclaim \<Rightarrow> nodegroup option \<Rightarrow> flavor list \<Rightarrow> 'w sys \<Rightarrow>
   (resolve_error + nodeclass \<times> instance_type) \<times> flavor list \<times> 'w sys" where
  "resolveLaunch C K claim existing warned s =
     (case checkNodeClaimWanted C K claim s of
        (Some e, s1) \<Rightarrow> (Inl (Unwanted e), warned, s1)
      | (None, s1) \<Rightarrow>
          (case resolveNodeClassFromNodeClaim C K claim s1 of
             (Inl e, s2) \<Rightarrow> (Inl (class_error e), warned, s2)
           | (Inr class, s2) \<Rightarrow>
               if \<not> IsTrue (clConditions class) ConditionReady then
                 (Inl (NotReady (ReadinessMessage (readiness_message class))), warned, s2)
               else if clTerminating class then (Inl (NotReady (ClassTerminating (clName class))), warned, s2)
               else case existing of
                 Some ng \<Rightarrow>
                   let (it, warned1, s3) = resolveNodeGroupInstanceType C ng warned s2
                   in (Inr (class, it), warned1, s3)
               | None \<Rightarrow>
                   (case resolveInstanceType C K claim s2 of
                      (Inl (PoolUnread pool e), s3) \<Rightarrow> (Inl (CannotCreate pool e), warned, s3)
                    | (Inl (NoCapacity why), s3) \<Rightarrow> (Inl (Insufficient why), warned, s3)
                    | (Inr it, s3) \<Rightarrow> (Inr (class, it), warned, s3))))"


section \<open>The operations\<close>

definition launch_of ::
  "'w provider_conf \<Rightarrow> nodegroup option \<Rightarrow> nodeclass \<Rightarrow> instance_type \<Rightarrow> launch" where
  "launch_of C existing class it =
     \<lparr>laClass = class, laFlavor = itName it,
      laAnnotations = diskSnapshotAnnotations (cvLib C) (cvQuantities C) it, laExisting = existing,
      laExistingReader = Some Uncached\<rparr>"

text \<open>
  The closure \<open>Create\<close> hands to \<open>ResolveAndCreate\<close>. Besides the launch it leaves the instance type in a
  variable of \<open>Create\<close>; here that is part of its result.
\<close>

definition resolve_create ::
  "'w provider_conf \<Rightarrow> 'w kube \<Rightarrow> nodeclaim \<Rightarrow> flavor list \<Rightarrow> 'w sys \<Rightarrow>
   (resolve_error + launch \<times> instance_type) \<times> flavor list \<times> 'w sys" where
  "resolve_create C K claim warned s =
     (case existingDiskLaunch (cvLib C) (cvQuantities C) K (cvCat C) claim s of
        (Inl e, s1) \<Rightarrow> (Inl (Existing e), warned, s1)
      | (Inr existing, s1) \<Rightarrow>
          (case resolveLaunch C K claim existing warned s1 of
             (Inl e, warned1, s2) \<Rightarrow> (Inl e, warned1, s2)
           | (Inr (class, it), warned1, s2) \<Rightarrow> (Inr (launch_of C existing class it, it), warned1, s2)))"

text \<open>What \<open>Create\<close> returns of a failed launch: a capacity error by its own decision, or the error as it is.\<close>

datatype create_error =
    LaunchInsufficient "resolve_error launch_error"
  | LaunchFailed "resolve_error launch_error"
  | CreatedSnapshot snapshot_error

definition launch_verdict :: "resolve_error launch_error \<Rightarrow> create_error" where
  "launch_verdict e =
     (if asQuota e \<noteq> None \<or> asRejected e \<noteq> None \<or> isVanished e then LaunchInsufficient e else LaunchFailed e)"

text \<open>
  \<open>ResolveAndCreate\<close> calls its resolver once, first; its result is passed to it as a resolver that has
  already run. When the resolver fails, \<open>ResolveAndCreate\<close> returns that error unchanged.
\<close>

definition CreateClaim ::
  "'w provider_conf \<Rightarrow> 'w kube \<Rightarrow> nodeclaim \<Rightarrow> flavor list \<Rightarrow> 'w sys \<Rightarrow>
   (create_error + described) \<times> flavor list \<times> 'w sys" where
  "CreateClaim C K claim warned s =
     (case resolve_create C K claim warned s of
        (Inl e, warned1, s1) \<Rightarrow> (Inl (launch_verdict (LResolve e)), warned1, s1)
      | (Inr (l, it), warned1, s1) \<Rightarrow>
          (case ResolveAndCreate (cvEnv C) K claim (\<lambda>_. (Inr l, s1)) s of
             (Inl e, s2) \<Rightarrow> (Inl (launch_verdict e), warned1, s2)
           | (Inr ng, s2) \<Rightarrow>
               let (it1, warned2, s3) =
                 (if ngFlavor ng \<noteq> itName it
                  then resolveNodeGroupInstanceType C ng warned1 (emit (Logged ''adopted'' (ngName ng)) s2)
                  else (it, warned1, s2)) in
               case readDiskSnapshot (cvLib C) (cvQuantities C) ng of
                 Inl e \<Rightarrow> (Inl (CreatedSnapshot e), warned2, s3)
               | Inr _ \<Rightarrow> let (claim', s4) = buildNodeClaim C ng it1 s3 in (Inr claim', warned2, s4)))"

datatype claim_error =
    NodeClaimNotFound
  | BadProviderID string
  | GettingGroup api_error
  | NotManaged name
  | DeletingGroup api_error

definition DeleteClaim ::
  "'w provider_conf \<Rightarrow> 'w kube \<Rightarrow> nodeclaim \<Rightarrow> 'w sys \<Rightarrow> claim_error option \<times> 'w sys" where
  "DeleteClaim C K claim s =
     (let n = (case ParseProviderID (ncProviderID claim) of Some n \<Rightarrow> n | None \<Rightarrow> ncName claim) in
      case GetNodeGroup (cvEnv C) K n s of
        (Inl e, s1) \<Rightarrow> (Some (if e = NotFound then NodeClaimNotFound else GettingGroup e), s1)
      | (Inr ng, s1) \<Rightarrow>
          if \<not> IsManaged ng then (Some (NotManaged n), s1)
          else if ngTerminating ng then (None, s1)
          else case DeleteNodeGroup (cvEnv C) K ng s1 of
            (Some e, s2) \<Rightarrow> (Some (if e = NotFound then NodeClaimNotFound else DeletingGroup e), s2)
          | (None, s2) \<Rightarrow> (None, s2))"

definition GetClaim ::
  "'w provider_conf \<Rightarrow> 'w kube \<Rightarrow> string \<Rightarrow> flavor list \<Rightarrow> 'w sys \<Rightarrow>
   (claim_error + described) \<times> flavor list \<times> 'w sys" where
  "GetClaim C K providerID warned s =
     (case ParseProviderID providerID of
        None \<Rightarrow> (Inl (BadProviderID providerID), warned, s)
      | Some n \<Rightarrow>
          (case GetNodeGroup (cvEnv C) K n s of
             (Inl e, s1) \<Rightarrow> (Inl (if e = NotFound then NodeClaimNotFound else GettingGroup e), warned, s1)
           | (Inr ng, s1) \<Rightarrow>
               if \<not> IsManaged ng then (Inl NodeClaimNotFound, warned, s1)
               else if ngTerminating ng then (Inl NodeClaimNotFound, warned, s1)
               else
                 let (it, warned1, s2) = resolveNodeGroupInstanceType C ng warned s1;
                     (claim, s3) = buildNodeClaim C ng it s2
                 in (Inr claim, warned1, s3)))"

definition describe_step ::
  "'w provider_conf \<Rightarrow> nodegroup \<Rightarrow> described list \<times> flavor list \<times> 'w sys \<Rightarrow> described list \<times> flavor list \<times> 'w sys" where
  "describe_step C ng acc =
     (case acc of (claims, warned, s) \<Rightarrow>
        let (it, warned1, s1) = resolveNodeGroupInstanceType C ng warned s;
            (claim, s2) = buildNodeClaim C ng it s1
        in (claims @ [claim], warned1, s2))"

definition ListNodeClaims ::
  "'w provider_conf \<Rightarrow> 'w kube \<Rightarrow> flavor list \<Rightarrow> 'w sys \<Rightarrow>
   (api_error + described list) \<times> flavor list \<times> 'w sys" where
  "ListNodeClaims C K warned s =
     (case ListNodeGroups (cvEnv C) K s of
        (Inl e, s1) \<Rightarrow> (Inl e, warned, s1)
      | (Inr groups, s1) \<Rightarrow>
          let (claims, warned1, s2) = fold (describe_step C) groups ([], warned, s1)
          in (Inr claims, warned1, s2))"

definition NodeClassDrifted :: string where "NodeClassDrifted = ''NodeClassDrifted''"

datatype drift_error = ReadingDrift api_error | DriftNilClassRef

text \<open>The empty reason is no drift.\<close>

definition ignoring :: "api_error \<Rightarrow> drift_error + string" where
  "ignoring e = (case IgnoreNotFound e of None \<Rightarrow> Inr '''' | Some e \<Rightarrow> Inl (ReadingDrift e))"

definition IsDrifted ::
  "'w provider_conf \<Rightarrow> 'w kube \<Rightarrow> nodeclaim \<Rightarrow> 'w sys \<Rightarrow> (drift_error + string) \<times> 'w sys" where
  "IsDrifted C K claim s =
     (case ParseProviderID (ncProviderID claim) of
        None \<Rightarrow> (Inr '''', s)
      | Some n \<Rightarrow>
          (case GetNodeGroup (cvEnv C) K n s of
             (Inl e, s1) \<Rightarrow> (ignoring e, s1)
           | (Inr ng, s1) \<Rightarrow>
               (case class_name claim of
                  None \<Rightarrow> (Inl DriftNilClassRef, s1)
                | Some cn \<Rightarrow>
                    (case getClass K (cvCat C) Cached cn s1 of
                       (Inl e, s2) \<Rightarrow> (ignoring e, s2)
                     | (Inr class, s2) \<Rightarrow>
                         (case omAnnotations (ngMeta ng) NodeClassHashLabelKey of
                            None \<Rightarrow> (Inr '''', s2)
                          | Some hash \<Rightarrow>
                              let (match, known) = HashMatches (peRules (cvEnv C)) (peHash (cvEnv C)) (clLabels class)
                                    (valOf (omAnnotations (ngMeta ng)) NodeClassHashVersionAnnotationKey) hash
                              in (Inr (if known \<and> \<not> match then NodeClassDrifted else ''''), s2))))))"

section \<open>Repair policies\<close>

record repair_policy =
  rpConditionType :: string
  rpConditionStatus :: string
  rpReasonRegex :: string
  rpToleration :: duration
  rpGracePeriod :: "duration option"
  rpAction :: string

definition RepairPolicies :: "repair_policy list" where
  "RepairPolicies =
     [\<lparr>rpConditionType = ''Ready'', rpConditionStatus = ''False'', rpReasonRegex = '''', rpToleration = 10 * minute,
       rpGracePeriod = Some 0, rpAction = ''ReplaceNode''\<rparr>,
      \<lparr>rpConditionType = ''Ready'', rpConditionStatus = ''Unknown'', rpReasonRegex = ''.*'', rpToleration = 10 * minute,
       rpGracePeriod = Some 0, rpAction = ''ReplaceNode''\<rparr>]"


section \<open>Every flavor is listed\<close>

lemma close_offerings_simps [simp]:
  "itName (close_offerings it) = itName it" "itRequirements (close_offerings it) = itRequirements it"
  "itCapacity (close_offerings it) = itCapacity it" "itOverhead (close_offerings it) = itOverhead it"
  "length (itOfferings (close_offerings it)) = length (itOfferings it)"
  "map ofPrice (itOfferings (close_offerings it)) = map ofPrice (itOfferings it)"
  by (simp_all add: close_offerings_def comp_def)

lemma closed_offerings: "off \<in> set (itOfferings (close_offerings it)) \<Longrightarrow> \<not> ofAvailable off"
  by (auto simp: close_offerings_def)

lemma itName_newInstanceType [simp]: "itName (newInstanceType L conf st f) = flName f"
  by (simp add: newInstanceType_def split: prod.split)

lemma itOfferings_newInstanceType [simp]:
  "itOfferings (newInstanceType L conf st f) = [\<lparr>ofRequirements = offering_requirements conf, ofPrice = flPrice f, ofAvailable = True\<rparr>]"
  by (simp add: newInstanceType_def split: prod.split)

lemma hide_disk_simps [simp]: "itName (hide_disk it) = itName it" "itOfferings (hide_disk it) = itOfferings it"
  by (simp_all add: hide_disk_def)

lemma provisioned:
  assumes "ListForProvisioning L conf st = (its, diskReady)"
  shows "diskReady = EphemeralStorageReady st \<and> length its = length (icFlavors conf) \<and>
    (\<forall>i < length its. itName (its ! i) = flName (icFlavors conf ! i) \<and>
       itOfferings (its ! i) = [\<lparr>ofRequirements = offering_requirements conf, ofPrice = flPrice (icFlavors conf ! i), ofAvailable = True\<rparr>])"
  using assms by (auto simp: ListForProvisioning_def EphemeralStorageReady_def Let_def)

text \<open>
  C18. No flavor is ever dropped, only closed. Whatever was refused, whatever disk is known, the
  scheduler is served one instance type per catalogue entry, in the catalogue's order, with its figures
  and its price; its offering is open exactly when the flavor is not unavailable, and the pool's disk
  limit, if it has one, can be charged.
\<close>

theorem no_flavor_is_dropped:
  "map itName (GetInstanceTypes C K pool s) = map flName (icFlavors (cvConf C)) \<and>
   (\<forall>i < length (icFlavors (cvConf C)).
      let f = icFlavors (cvConf C) ! i; it = GetInstanceTypes C K pool s ! i;
          served = fst (ListForProvisioning (cvLib C) (cvConf C) (cvInst C (world s))) ! i
      in itCapacity it = itCapacity served \<and> itOverhead it = itOverhead served \<and> itRequirements it = itRequirements served \<and>
         (\<exists>off. itOfferings it = [off] \<and> ofPrice off = flPrice f \<and>
            (ofAvailable off \<longleftrightarrow> \<not> Unavailable (cvCat C) (now K s) (flName f) (refs s) \<and>
               (EphemeralStorageReady (cvInst C (world s)) \<or> \<not> hasDiskLimit pool))))"
proof -
  obtain its diskReady where l: "ListForProvisioning (cvLib C) (cvConf C) (cvInst C (world s)) = (its, diskReady)" by (meson surj_pair)
  note p = provisioned [OF l]
  define seen where "seen it = (let it1 = (if \<not> Unavailable (cvCat C) (now K s) (itName it) (refs s) then it else close_offerings it)
     in if \<not> diskReady \<and> hasDiskLimit pool then close_offerings it1 else it1)" for it
  have g: "GetInstanceTypes C K pool s = map seen its"
    by (auto simp: GetInstanceTypes_def instanceTypes_def l seen_def Let_def)
  have names: "map itName its = map flName (icFlavors (cvConf C))" using p by (auto intro: nth_equalityI)
  have "itName (seen it) = itName it" "itCapacity (seen it) = itCapacity it" "itOverhead (seen it) = itOverhead it"
    "itRequirements (seen it) = itRequirements it" for it
    by (simp_all add: seen_def Let_def)
  moreover have one: "itOfferings it = [off] \<Longrightarrow> ofAvailable off \<Longrightarrow> \<exists>off'. itOfferings (seen it) = [off'] \<and> ofPrice off' = ofPrice off \<and>
      (ofAvailable off' \<longleftrightarrow> \<not> Unavailable (cvCat C) (now K s) (itName it) (refs s) \<and> (diskReady \<or> \<not> hasDiskLimit pool))" for it off
    by (auto simp: seen_def close_offerings_def Let_def)
  have "\<exists>off. itOfferings (seen (its ! i)) = [off] \<and> ofPrice off = flPrice (icFlavors (cvConf C) ! i) \<and>
      (ofAvailable off \<longleftrightarrow> \<not> Unavailable (cvCat C) (now K s) (flName (icFlavors (cvConf C) ! i)) (refs s) \<and>
        (EphemeralStorageReady (cvInst C (world s)) \<or> \<not> hasDiskLimit pool))" if "i < length (icFlavors (cvConf C))" for i
    using that p one [of "its ! i"] by fastforce
  ultimately show ?thesis
    using p names by (simp add: g l comp_def Let_def)
qed

section \<open>The cheapest flavor that serves the claim\<close>

definition fitting :: "'w provider_conf \<Rightarrow> nodeclaim \<Rightarrow> instance_type \<Rightarrow> bool" where
  "fitting C claim it \<longleftrightarrow>
     scIntersects (cvSched C) (itRequirements it) (ncRequirements claim) \<and>
     scFits (cvSched C) (ncRequests claim) (it_allocatable (cvLib C) it)"

definition open_offerings :: "'w provider_conf \<Rightarrow> nodeclaim \<Rightarrow> instance_type \<Rightarrow> offering list" where
  "open_offerings C claim it =
     scAvailable (cvSched C) (scCompatible (cvSched C) (itOfferings it) (ncRequirements claim))"

definition launchable :: "'w provider_conf \<Rightarrow> nodeclaim \<Rightarrow> instance_type \<Rightarrow> bool" where
  "launchable C claim it \<longleftrightarrow> fitting C claim it \<and> open_offerings C claim it \<noteq> []"

definition price_for :: "'w provider_conf \<Rightarrow> nodeclaim \<Rightarrow> instance_type \<Rightarrow> rat" where
  "price_for C claim it = ofPrice (scCheapest (cvSched C) (open_offerings C claim it))"

lemma pick_step_best:
  "pkBest (pick_step C claim it p) =
     (if launchable C claim it then
        (case pkBest p of
           None \<Rightarrow> Some (it, price_for C claim it)
         | Some (cur, bestPrice) \<Rightarrow> if price_for C claim it < bestPrice then Some (it, price_for C claim it) else pkBest p)
      else pkBest p)"
  by (auto simp: pick_step_def launchable_def fitting_def open_offerings_def price_for_def Let_def split: option.split)

lemma pick_best:
  "case pkBest (fold (pick_step C claim) its \<lparr>pkBest = None, pkUnavailable = 0\<rparr>) of
     None \<Rightarrow> \<forall>it \<in> set its. \<not> launchable C claim it
   | Some (it, price) \<Rightarrow> it \<in> set its \<and> launchable C claim it \<and> price = price_for C claim it \<and>
       (\<exists>ys zs. its = ys @ it # zs \<and> (\<forall>y \<in> set ys. launchable C claim y \<longrightarrow> price < price_for C claim y)) \<and>
       (\<forall>it' \<in> set its. launchable C claim it' \<longrightarrow> price \<le> price_for C claim it')"
proof (induction its rule: rev_induct)
  case (snoc it its)
  let ?p = "fold (pick_step C claim) its \<lparr>pkBest = None, pkUnavailable = 0\<rparr>"
  show ?case
  proof (cases "pkBest ?p")
    case None
    then show ?thesis using snoc.IH by (auto simp: pick_step_best)
  next
    case (Some b)
    obtain cur price where b: "b = (cur, price)" by (cases b)
    obtain ys zs where split: "its = ys @ cur # zs" "\<forall>y \<in> set ys. launchable C claim y \<longrightarrow> price < price_for C claim y"
      and best: "launchable C claim cur" "price = price_for C claim cur"
        "\<forall>it' \<in> set its. launchable C claim it' \<longrightarrow> price \<le> price_for C claim it'"
      using snoc.IH Some b by auto
    show ?thesis
    proof (cases "launchable C claim it \<and> price_for C claim it < price")
      case True
      moreover have less: "\<forall>y \<in> set its. launchable C claim y \<longrightarrow> price_for C claim it < price_for C claim y"
        using best(3) True by (meson less_le_trans)
      moreover have "pkBest (pick_step C claim it ?p) = Some (it, price_for C claim it)"
        using True Some b by (auto simp: pick_step_best)
      moreover have "\<exists>ys zs. its @ [it] = ys @ it # zs \<and> (\<forall>y \<in> set ys. launchable C claim y \<longrightarrow> price_for C claim it < price_for C claim y)"
        using less by (rule_tac x = its in exI, rule_tac x = "[]" in exI) simp
      ultimately show ?thesis using True by (auto intro: less_imp_le)
    next
      case False
      then have "pkBest (pick_step C claim it ?p) = Some (cur, price)" using Some b by (auto simp: pick_step_best)
      moreover have "\<exists>ys zs. its @ [it] = ys @ cur # zs \<and> (\<forall>y \<in> set ys. launchable C claim y \<longrightarrow> price < price_for C claim y)"
        using split by (rule_tac x = ys in exI, rule_tac x = "zs @ [it]" in exI) simp
      moreover have "cur \<in> set its" using split(1) by simp
      ultimately show ?thesis using best False by auto
    qed
  qed
qed simp

text \<open>The flavors that would serve the claim but are closed.\<close>

definition shut :: "'w provider_conf \<Rightarrow> nodeclaim \<Rightarrow> instance_type \<Rightarrow> bool" where
  "shut C claim it \<longleftrightarrow> fitting C claim it \<and> open_offerings C claim it = [] \<and>
     scCompatible (cvSched C) (itOfferings it) (ncRequirements claim) \<noteq> []"

definition nothing_open :: "'w provider_conf \<Rightarrow> nodeclaim \<Rightarrow> instance_type list \<Rightarrow> no_capacity" where
  "nothing_open C claim its =
     (let n = length (filter (shut C claim) its) in if 0 < n then FlavorsUnavailable n else NoFlavorFits)"

lemma pick_unavailable:
  "pkUnavailable (fold (pick_step C claim) its p) = pkUnavailable p + length (filter (shut C claim) its)"
proof (induction its arbitrary: p)
  case (Cons it its)
  have "pkUnavailable (pick_step C claim it p) = pkUnavailable p + (if shut C claim it then 1 else 0)"
    by (auto simp: pick_step_def shut_def fitting_def open_offerings_def Let_def split: option.split)
  then show ?case using Cons by simp
qed simp

lemma pick_cheapest_result:
  "case pick_cheapest C claim its of
     Inl e \<Rightarrow> (\<forall>it \<in> set its. \<not> launchable C claim it) \<and> e = NoCapacity (nothing_open C claim its)
   | Inr it \<Rightarrow> launchable C claim it \<and>
       (\<exists>ys zs. its = ys @ it # zs \<and> (\<forall>y \<in> set ys. launchable C claim y \<longrightarrow> price_for C claim it < price_for C claim y)) \<and>
       (\<forall>it' \<in> set its. launchable C claim it' \<longrightarrow> price_for C claim it \<le> price_for C claim it')"
  using pick_best [where C = C and claim = claim and its = its]
  by (auto simp: pick_cheapest_def pick_unavailable nothing_open_def Let_def split: option.splits)

text \<open>
  What stands in the way of a launch while the disk is not known: a claim that requests some, a pool with
  a limit on it, or a pool that cannot be read.
\<close>

definition disk_obstacle :: "nodeclaim \<Rightarrow> effect list \<Rightarrow> pick_error option" where
  "disk_obstacle claim es =
     (if 0 < q_at (ncRequests claim) ResourceEphemeralStorage then Some (NoCapacity DiskNotReady)
      else case es of
        [ReadPool n (Inl e)] \<Rightarrow> Some (PoolUnread n e)
      | [ReadPool n (Inr np)] \<Rightarrow> if hasDiskLimit (Some np) then Some (NoCapacity (PoolDiskLimit n)) else None
      | _ \<Rightarrow> None)"

lemma resolveInstanceType_exact:
  assumes "resolveInstanceType C K claim s = (r, s')" and "known = EphemeralStorageReady (cvInst C (world s))"
    and "pool = valOf (omLabels (ncMeta claim)) CoreNodePoolLabelKey"
  shows "(if known \<or> 0 < q_at (ncRequests claim) ResourceEphemeralStorage \<or> pool = '''' then s' = s
      else \<exists>a. trace s' = trace s @ [ReadPool pool a]) \<and>
    r = (case (if known then None else disk_obstacle claim (did s s')) of
           Some e \<Rightarrow> Inl e | None \<Rightarrow> pick_cheapest C claim (fst (instanceTypes C K s)))"
proof -
  obtain its d where i: "instanceTypes C K s = (its, d)" by (meson surj_pair)
  have d: "d = known"
    using i assms(2) by (auto simp: instanceTypes_def ListForProvisioning_def EphemeralStorageReady_def Let_def split: prod.splits if_splits)
  obtain a s1 where g: "getPool K (cvCat C) pool s = (a, s1)" by (meson surj_pair)
  have t: "trace s1 = trace s @ [ReadPool pool a]" by (rule trace_call [OF g [unfolded getPool_def]])
  show ?thesis
  proof (cases "known \<or> 0 < q_at (ncRequests claim) ResourceEphemeralStorage \<or> pool = ''''")
    case True
    then show ?thesis using assms(1,3) i d
      by (auto simp: resolveInstanceType_def disk_obstacle_def did_def)
  next
    case False
    then have "s' = s1" using assms(1,3) i d g by (auto simp: resolveInstanceType_def Let_def split: sum.splits if_splits)
    then show ?thesis using assms(1,3) i d g t False
      by (auto simp: resolveInstanceType_def disk_obstacle_def did_def Let_def split: sum.splits if_splits)
  qed
qed

lemma resolveInstanceType_cases:
  assumes "resolveInstanceType C K claim s = (r, s')"
  shows "only (\<lambda>e. \<exists>n a. e = ReadPool n a) s s' \<and>
    (\<forall>it. r = Inr it \<longrightarrow> pick_cheapest C claim (fst (instanceTypes C K s)) = Inr it)"
proof -
  note x = resolveInstanceType_exact [OF assms refl refl]
  then have "only (\<lambda>e. \<exists>n a. e = ReadPool n a) s s'" by (auto simp: only_def split: if_splits)
  moreover have "pick_cheapest C claim (fst (instanceTypes C K s)) = Inr it" if "r = Inr it" for it
    using x that by (auto split: option.splits if_splits)
  ultimately show ?thesis by blast
qed

lemma open_offering_available:
  assumes "lawful_sched (cvSched C)" and "launchable C claim it" and "it \<in> set (fst (instanceTypes C K s))"
  shows "\<not> Unavailable (cvCat C) (now K s) (itName it) (refs s)"
proof
  assume un: "Unavailable (cvCat C) (now K s) (itName it) (refs s)"
  let ?seen = "\<lambda>it. if \<not> Unavailable (cvCat C) (now K s) (itName it) (refs s) then it else close_offerings it"
  have "fst (instanceTypes C K s) = map ?seen (fst (ListForProvisioning (cvLib C) (cvConf C) (cvInst C (world s))))"
    by (simp add: instanceTypes_def split: prod.splits)
  then have "it \<in> ?seen ` set (fst (ListForProvisioning (cvLib C) (cvConf C) (cvInst C (world s))))" using assms(3) by (metis set_map)
  then obtain it0 where it0: "it = ?seen it0" by (rule imageE)
  have "itName it = itName it0" unfolding it0 by simp
  then have "it = close_offerings it0" using un it0 by simp
  then have "set (open_offerings C claim it) = {}"
    using assms(1) closed_offerings unfolding lawful_sched_def open_offerings_def by fastforce
  then show False using assms(2) by (simp add: launchable_def)
qed


section \<open>What a launch reads before it creates anything\<close>

text \<open>Effects that touch no object: the counters and log lines of a description.\<close>

definition noting :: "effect \<Rightarrow> bool" where
  "noting e \<longleftrightarrow> (\<exists>c. e = Count c) \<or> (\<exists>m n. e = Logged m n)"

lemma itName_Synthesize [simp]: "itName (Synthesize L conf st n) = n"
  by (simp add: Synthesize_def Let_def split: option.split)

lemma served_name: "served fs n = Some f \<Longrightarrow> flName f = n"
  by (auto simp: served_def find_Some_iff)

lemma resolveNodeGroupInstanceType_spec:
  assumes "resolveNodeGroupInstanceType C ng warned s = (it, warned', s')"
  shows "itName it = ngFlavor ng \<and> only noting s s' \<and> world s' = world s \<and>
    it = (case served (icFlavors (cvConf C)) (ngFlavor ng) of
            Some f \<Rightarrow> newInstanceType (cvLib C) (cvConf C) (cvInst C (world s)) f
          | None \<Rightarrow> Synthesize (cvLib C) (cvConf C) (cvInst C (world s)) (ngFlavor ng))"
proof (cases "served (icFlavors (cvConf C)) (ngFlavor ng)")
  case (Some f)
  then show ?thesis using assms served_name [OF Some]
    by (auto simp: resolveNodeGroupInstanceType_def GetInstanceType_def)
next
  case None
  then show ?thesis using assms
    by (auto simp: resolveNodeGroupInstanceType_def GetInstanceType_def noting_def Let_def split: if_splits intro!: only_intros)
qed

lemma existingDiskLaunch_spec:
  assumes "existingDiskLaunch L Q K cat claim s = (r, s')"
  shows "\<exists>a. trace s' = trace s @ [ReadNG Uncached (ncName claim) a] \<and>
    (case r of
       Inl e \<Rightarrow> True
     | Inr None \<Rightarrow> a = Inl NotFound
     | Inr (Some ng) \<Rightarrow> a = Inr ng \<and> OwnedByNodeClaim ng claim \<and> (\<exists>snap. readDiskSnapshot L Q ng = Inr snap))"
proof -
  obtain a s1 where g: "getNG K cat Uncached (ncName claim) s = (a, s1)" by (meson surj_pair)
  note trace_call [OF g [unfolded getNG_def]]
  then show ?thesis using assms g by (auto simp: existingDiskLaunch_def split: sum.splits if_splits)
qed

lemma checkNodeClaimWanted_spec:
  assumes "checkNodeClaimWanted C K claim s = (r, s')"
  shows "\<exists>a. trace s' = trace s @ [ReadClaim Uncached (ncName claim) a] \<and>
    (r = None \<longleftrightarrow> (\<exists>live. a = Inr live \<and> ncUID live = ncUID claim \<and> \<not> ncTerminating live))"
proof -
  obtain a s1 where g: "getClaim K (cvCat C) Uncached (ncName claim) s = (a, s1)" by (meson surj_pair)
  note trace_call [OF g [unfolded getClaim_def]]
  then show ?thesis using assms g by (auto simp: checkNodeClaimWanted_def split: sum.splits if_splits)
qed

lemma resolveNodeClass_spec:
  assumes "resolveNodeClassFromNodeClaim C K claim s = (r, s')"
  shows "(class_name claim = None \<and> s' = s \<and> r = Inl None) \<or>
    (\<exists>cn a. class_name claim = Some cn \<and> trace s' = trace s @ [ReadClass Uncached cn a] \<and>
       (\<forall>cls. r = Inr cls \<longrightarrow> a = Inr cls))"
proof (cases "class_name claim")
  case None
  then show ?thesis using assms by (simp add: resolveNodeClassFromNodeClaim_def)
next
  case (Some cn)
  obtain a s1 where g: "getClass K (cvCat C) Uncached cn s = (a, s1)" by (meson surj_pair)
  note trace_call [OF g [unfolded getClass_def]]
  then show ?thesis using assms g Some by (auto simp: resolveNodeClassFromNodeClaim_def split: sum.splits)
qed

lemma resolveLaunch_spec:
  assumes "resolveLaunch C K claim existing warned s = (r, warned', s')"
  shows "only no_create s s' \<and> (\<forall>cls it. r = Inr (cls, it) \<longrightarrow>
    (\<exists>live cn rest. trace s' = trace s @ ReadClaim Uncached (ncName claim) (Inr live) # ReadClass Uncached cn (Inr cls) # rest \<and>
       ncUID live = ncUID claim \<and> \<not> ncTerminating live \<and> class_name claim = Some cn \<and>
       IsTrue (clConditions cls) ConditionReady \<and> \<not> clTerminating cls \<and>
       (case existing of Some ng \<Rightarrow> itName it = ngFlavor ng | None \<Rightarrow> (\<exists>t. resolveInstanceType C K claim t = (Inr it, s')))))"
proof -
  obtain w s1 where w: "checkNodeClaimWanted C K claim s = (w, s1)" by (meson surj_pair)
  obtain c s2 where c: "resolveNodeClassFromNodeClaim C K claim s1 = (c, s2)" by (meson surj_pair)
  obtain p s3 where p: "resolveInstanceType C K claim s2 = (p, s3)" by (meson surj_pair)
  have q1: "only no_create s s1" using checkNodeClaimWanted_spec [OF w] by (auto simp: only_def)
  have q2: "only no_create s s2"
    by (rule only_trans [OF q1]) (use resolveNodeClass_spec [OF c] in \<open>auto simp: only_def\<close>)
  have q3: "only no_create s s3"
    by (rule only_trans [OF q2], rule only_mono [OF conjunct1 [OF resolveInstanceType_cases [OF p]]]) auto
  obtain pe where pe: "trace s3 = trace s2 @ pe" using resolveInstanceType_cases [OF p] by (auto simp: only_def)
  have described: "only no_create s s4 \<and> (\<exists>rest. trace s4 = trace s2 @ rest) \<and> itName it = ngFlavor ng"
    if "resolveNodeGroupInstanceType C ng warned s2 = (it, w4, s4)" for ng it w4 s4
  proof -
    note d = resolveNodeGroupInstanceType_spec [OF that]
    have "only no_create s2 s4" by (rule only_mono [where P = noting]) (use d in \<open>auto simp: noting_def\<close>)
    then show ?thesis using d only_trans [OF q2] by (auto simp: only_def)
  qed
  show ?thesis
  proof (cases "w = None \<and> (\<exists>cls. c = Inr cls \<and> IsTrue (clConditions cls) ConditionReady \<and> \<not> clTerminating cls)")
    case False
    then show ?thesis using assms w c q1 q2
      by (auto simp: resolveLaunch_def Let_def split: option.splits sum.splits if_splits)
  next
    case True
    then obtain cls where cls: "w = None" "c = Inr cls" "IsTrue (clConditions cls) ConditionReady" "\<not> clTerminating cls" by blast
    obtain live where live: "trace s1 = trace s @ [ReadClaim Uncached (ncName claim) (Inr live)]" "ncUID live = ncUID claim" "\<not> ncTerminating live"
      using checkNodeClaimWanted_spec [OF w] cls(1) by auto
    obtain cn where cn: "class_name claim = Some cn" "trace s2 = trace s1 @ [ReadClass Uncached cn (Inr cls)]"
      using resolveNodeClass_spec [OF c] cls(2) by auto
    show ?thesis
    proof (cases existing)
      case None
      then have run: "(case p of Inl (PoolUnread pool e) \<Rightarrow> (Inl (CannotCreate pool e), warned, s3)
          | Inl (NoCapacity why) \<Rightarrow> (Inl (Insufficient why), warned, s3)
          | Inr it \<Rightarrow> (Inr (cls, it), warned, s3)) = (r, warned', s')"
        using assms w c p cls by (simp add: resolveLaunch_def split: sum.splits pick_error.splits)
      then have "s' = s3" "\<And>cl it. r = Inr (cl, it) \<Longrightarrow> p = Inr it \<and> cl = cls" by (auto split: sum.splits pick_error.splits)
      then show ?thesis using q3 live cn pe cls p None by auto
    next
      case (Some ng)
      obtain it w4 s4 where d: "resolveNodeGroupInstanceType C ng warned s2 = (it, w4, s4)" using prod_cases3 by blast
      have "r = Inr (cls, it)" "s' = s4" using assms w c d cls Some by (simp_all add: resolveLaunch_def)
      then show ?thesis using described [OF d] live cn cls Some by auto
    qed
  qed
qed


lemma resolve_create_spec:
  assumes "resolve_create C K claim warned s = (r, warned', s')"
  shows "only no_create s s' \<and> (\<forall>l it. r = Inr (l, it) \<longrightarrow>
    (\<exists>a live cn cls rest. trace s' = trace s @ ReadNG Uncached (ncName claim) a #
         ReadClaim Uncached (ncName claim) (Inr live) # ReadClass Uncached cn (Inr cls) # rest \<and>
       list_all no_create rest \<and>
       ncUID live = ncUID claim \<and> \<not> ncTerminating live \<and> class_name claim = Some cn \<and>
       IsTrue (clConditions cls) ConditionReady \<and> \<not> clTerminating cls \<and>
       l = launch_of C (laExisting l) cls it \<and>
       (case laExisting l of
          Some ng \<Rightarrow> a = Inr ng \<and> OwnedByNodeClaim ng claim \<and> itName it = ngFlavor ng
        | None \<Rightarrow> a = Inl NotFound \<and> (\<exists>t. resolveInstanceType C K claim t = (Inr it, s')))))"
proof -
  obtain ex s1 where ex: "existingDiskLaunch (cvLib C) (cvQuantities C) K (cvCat C) claim s = (ex, s1)" by (meson surj_pair)
  obtain a where a: "trace s1 = trace s @ [ReadNG Uncached (ncName claim) a]"
    "case ex of Inl e \<Rightarrow> True | Inr None \<Rightarrow> a = Inl NotFound
     | Inr (Some ng) \<Rightarrow> a = Inr ng \<and> OwnedByNodeClaim ng claim \<and> (\<exists>snap. readDiskSnapshot (cvLib C) (cvQuantities C) ng = Inr snap)"
    using existingDiskLaunch_spec [OF ex] by blast
  have q1: "only no_create s s1" using a(1) by (auto simp: only_def)
  show ?thesis
  proof (cases ex)
    case (Inl e)
    then show ?thesis using assms ex q1 by (auto simp: resolve_create_def)
  next
    case (Inr existing)
    obtain rl w2 s2 where rl: "resolveLaunch C K claim existing warned s1 = (rl, w2, s2)" using prod_cases3 by blast
    note spec = resolveLaunch_spec [OF rl]
    have q2: "only no_create s s2" using only_trans [OF q1] spec by blast
    show ?thesis
    proof (cases rl)
      case (Inl e)
      then show ?thesis using assms ex Inr rl q2 by (auto simp: resolve_create_def)
    next
      case got: (Inr b)
      obtain cls it where b: "b = (cls, it)" by (cases b)
      have r: "r = Inr (launch_of C existing cls it, it)" "s' = s2"
        using assms ex Inr rl got b by (simp_all add: resolve_create_def)
      obtain live cn rest where reads: "trace s2 = trace s1 @ ReadClaim Uncached (ncName claim) (Inr live) # ReadClass Uncached cn (Inr cls) # rest"
          "ncUID live = ncUID claim" "\<not> ncTerminating live" "class_name claim = Some cn"
          "IsTrue (clConditions cls) ConditionReady" "\<not> clTerminating cls"
          "case existing of Some ng \<Rightarrow> itName it = ngFlavor ng | None \<Rightarrow> (\<exists>t. resolveInstanceType C K claim t = (Inr it, s2))"
        using spec got b by blast
      have "list_all no_create rest" using q2 reads(1) a(1) by (auto simp: only_def)
      moreover have "laExisting (launch_of C existing cls it) = existing" by (simp add: launch_of_def)
      ultimately show ?thesis using r reads a q2 Inr by (cases existing) auto
    qed
  qed
qed

lemma describing: "resolveNodeGroupInstanceType C ng warned s = (it, w, s') \<Longrightarrow> only noting s s'"
  by (simp add: resolveNodeGroupInstanceType_spec)

lemma buildNodeClaim_quiet: "buildNodeClaim C ng it s = (d, s') \<Longrightarrow> only noting s s'"
  by (auto simp: buildNodeClaim_def noting_def Let_def split: sum.splits option.splits intro!: only_intros)

lemma noting_no_create: "only noting s s' \<Longrightarrow> only no_create s s'"
  by (erule only_mono) (auto simp: noting_def)

text \<open>What \<open>Create\<close> adds to the launch touches nothing.\<close>

lemma CreateClaim_cases:
  assumes "CreateClaim C K claim warned s = (r, warned', s')"
  obtains (unresolved) e where "resolve_create C K claim warned s = (Inl e, warned', s')" "r = Inl (launch_verdict (LResolve e))"
  | (failed) l it s1 e where "resolve_create C K claim warned s = (Inr (l, it), warned', s1)"
      "ResolveAndCreate (cvEnv C) K claim (\<lambda>_. (Inr l, s1)) s = (Inl e, s')" "r = Inl (launch_verdict e)"
  | (launched) l it w1 s1 ng s2 where "resolve_create C K claim warned s = (Inr (l, it), w1, s1)"
      "ResolveAndCreate (cvEnv C) K claim (\<lambda>_. ((Inr l :: resolve_error + launch), s1)) s = (Inr ng, s2)" "only noting s2 s'"
      "\<forall>e. r = Inl e \<longrightarrow> (\<exists>x. e = CreatedSnapshot x)"
proof -
  obtain rc w1 s1 where rc: "resolve_create C K claim warned s = (rc, w1, s1)" using prod_cases3 by blast
  show thesis
  proof (cases rc)
    case (Inl e)
    then show thesis using assms rc by (intro unresolved [of e]) (auto simp: CreateClaim_def)
  next
    case (Inr b)
    obtain l it where b: "b = (l, it)" by (cases b)
    obtain ra s2 where ra: "ResolveAndCreate (cvEnv C) K claim (\<lambda>_. ((Inr l :: resolve_error + launch), s1)) s = (ra, s2)" by (meson surj_pair)
    show thesis
    proof (cases ra)
      case (Inl e)
      then show thesis using assms rc Inr b ra by (intro failed [of l it s1 e]) (auto simp: CreateClaim_def)
    next
      case ng: (Inr ng)
      obtain it1 w2 s3 where d: "(if ngFlavor ng \<noteq> itName it
          then resolveNodeGroupInstanceType C ng w1 (emit (Logged ''adopted'' (ngName ng)) s2)
          else (it, w1, s2)) = (it1, w2, s3)"
        using prod_cases3 by blast
      have "only noting s2 (emit (Logged ''adopted'' (ngName ng)) s2)" by (intro only_intros) (simp add: noting_def)
      then have q: "only noting s2 s3" using d by (auto split: if_splits intro: only_trans [OF _ describing])
      obtain d2 s4 where bc: "buildNodeClaim C ng it1 s3 = (d2, s4)" by (meson surj_pair)
      have q4: "only noting s2 s4" using only_trans [OF q buildNodeClaim_quiet [OF bc]] .
      have "(case readDiskSnapshot (cvLib C) (cvQuantities C) ng of Inl e \<Rightarrow> (Inl (CreatedSnapshot e), w2, s3)
          | Inr _ \<Rightarrow> (Inr d2, w2, s4)) = (r, warned', s')"
        using assms rc Inr b ra ng d bc by (cases "readDiskSnapshot (cvLib C) (cvQuantities C) ng") (simp_all add: CreateClaim_def)
      then have "only noting s2 s'" "\<forall>e. r = Inl e \<longrightarrow> (\<exists>x. e = CreatedSnapshot x)"
        using q q4 by (auto split: sum.splits)
      then show thesis using launched rc Inr b ra ng by blast
    qed
  qed
qed

lemma ResolveAndCreate_extends:
  assumes "resolve s = (Inr l, s1)" and "ResolveAndCreate E K claim resolve s = (res, s2)"
  shows "extends s1 s2"
  using assms
proof (cases rule: ResolveAndCreate_cases)
  case (stopped e)
  then show ?thesis using obtain_group_spec [OF stopped(2)] by (cases "laExisting l") (auto simp: extends_def)
next
  case (followed ng seen t)
  have "extends s1 t" using obtain_group_spec [OF followed(2)] by (cases "laExisting l") (auto simp: extends_def)
  moreover have "extends t s2" using only_follow [OF followed(3), of "\<lambda>_. True"] by (auto intro: only_extends)
  ultimately show ?thesis by (rule extends_trans)
qed simp

text \<open>Once a launch is resolved, what was read and what is posted.\<close>

lemma resolved_create_posts:
  assumes "resolve_create C K claim warned s = (Inr (l, it), w1, s1)"
    and "ResolveAndCreate (cvEnv C) K claim (\<lambda>_. ((Inr l :: resolve_error + launch), s1)) s = (ra, s2)"
    and "only no_create s2 s'" and "CreatedNG ng a \<in> set (did s s')"
  shows "\<exists>xs ys live cn cls l it t s1. did s s' = xs @ CreatedNG ng a # ys \<and> list_all no_create xs \<and> list_all no_create ys \<and>
    {ReadNG Uncached (ncName claim) (Inl NotFound), ReadClaim Uncached (ncName claim) (Inr live), ReadClass Uncached cn (Inr cls)} \<subseteq> set xs \<and>
    ncUID live = ncUID claim \<and> \<not> ncTerminating live \<and> class_name claim = Some cn \<and>
    IsTrue (clConditions cls) ConditionReady \<and> \<not> clTerminating cls \<and>
    ng = newNodeGroup (cvEnv C) claim l \<and> l = launch_of C None cls it \<and> resolveInstanceType C K claim t = (Inr it, s1)"
proof -
  obtain b live cn cls xs where b: "trace s1 = trace s @ ReadNG Uncached (ncName claim) b #
       ReadClaim Uncached (ncName claim) (Inr live) # ReadClass Uncached cn (Inr cls) # xs" "list_all no_create xs"
     "ncUID live = ncUID claim" "\<not> ncTerminating live" "class_name claim = Some cn"
     "IsTrue (clConditions cls) ConditionReady" "\<not> clTerminating cls" "l = launch_of C (laExisting l) cls it"
     "case laExisting l of Some ng \<Rightarrow> b = Inr ng \<and> OwnedByNodeClaim ng claim \<and> itName it = ngFlavor ng
      | None \<Rightarrow> b = Inl NotFound \<and> (\<exists>t. resolveInstanceType C K claim t = (Inr it, s1))"
    using resolve_create_spec [OF assms(1)] by blast
  define before where "before = ReadNG Uncached (ncName claim) b #
       ReadClaim Uncached (ncName claim) (Inr live) # ReadClass Uncached cn (Inr cls) # xs"
  have s1: "trace s1 = trace s @ before" "list_all no_create before" using b(1,2) by (simp_all add: before_def)
  obtain ys where ys: "trace s' = trace s2 @ ys" "list_all no_create ys" using assms(3) by (auto simp: only_def)
  obtain zs where zs: "trace s2 = trace s1 @ zs"
    using ResolveAndCreate_extends [of "\<lambda>_. (Inr l, s1)", OF refl assms(2)] by (auto simp: extends_def)
  have did: "did s s' = before @ did s1 s2 @ ys" using s1 ys zs by (simp add: did_def)
  note post = launch_posts_at_most_once [of "\<lambda>_. (Inr l, s1)", OF refl assms(2)]
  show ?thesis
  proof (cases "laExisting l")
    case (Some ob)
    then have "list_all no_create (did s s')" using post s1(2) ys(2) did by simp
    then show ?thesis using assms(4) by (auto simp: list_all_iff)
  next
    case None
    then obtain a' rest where posted: "did s1 s2 = CreatedNG (newNodeGroup (cvEnv C) claim l) a' # rest" "list_all no_create rest"
      using post did s1(2) ys(2) assms(4) by (auto simp: list_all_iff split: option.splits)
    have "did s s' = before @ CreatedNG (newNodeGroup (cvEnv C) claim l) a' # (rest @ ys)" using did posted(1) by simp
    moreover from this have "ng = newNodeGroup (cvEnv C) claim l \<and> a = a'"
      using assms(4) s1(2) posted(2) ys(2) by (auto simp: list_all_iff)
    moreover have "list_all no_create (rest @ ys)" using posted(2) ys(2) by simp
    moreover obtain t where "b = Inl NotFound" "resolveInstanceType C K claim t = (Inr it, s1)" using b(9) None by auto
    moreover from this have "{ReadNG Uncached (ncName claim) (Inl NotFound), ReadClaim Uncached (ncName claim) (Inr live),
        ReadClass Uncached cn (Inr cls)} \<subseteq> set before"
      by (simp add: before_def)
    moreover have "l = launch_of C None cls it" using b(8) None by simp
    ultimately show ?thesis using s1(2) b(3-7) by blast
  qed
qed

lemma CreateClaim_posts:
  assumes "CreateClaim C K claim warned s = (r, warned', s')" and "CreatedNG ng a \<in> set (did s s')"
  shows "\<exists>xs ys live cn cls l it t s1. did s s' = xs @ CreatedNG ng a # ys \<and> list_all no_create xs \<and> list_all no_create ys \<and>
    {ReadNG Uncached (ncName claim) (Inl NotFound), ReadClaim Uncached (ncName claim) (Inr live), ReadClass Uncached cn (Inr cls)} \<subseteq> set xs \<and>
    ncUID live = ncUID claim \<and> \<not> ncTerminating live \<and> class_name claim = Some cn \<and>
    IsTrue (clConditions cls) ConditionReady \<and> \<not> clTerminating cls \<and>
    ng = newNodeGroup (cvEnv C) claim l \<and> l = launch_of C None cls it \<and> resolveInstanceType C K claim t = (Inr it, s1)"
  using assms(1)
proof (cases rule: CreateClaim_cases)
  case (unresolved e)
  then have "only no_create s s'" using resolve_create_spec by blast
  then show ?thesis using assms(2) only_did by fastforce
next
  case (failed l it s1 e)
  then show ?thesis by (intro resolved_create_posts [OF failed(1,2) _ assms(2)]) simp
next
  case (launched l it w1 s1 g s2)
  show ?thesis by (rule resolved_create_posts [OF launched(1,2) noting_no_create [OF launched(3)] assms(2)])
qed

text \<open>
  C1. A machine is asked for only after the last word, and only once. If a Create posts a NodeGroup, it
  posts one, the payload of its claim and of the class it read; and before that POST, in this call, the
  API server itself said that no group of that name exists, that the claim is still the one to launch,
  by UID, and not being deleted, and that its class is ready and not being deleted; and the flavor is
  one the catalogue and the refusals allowed in this call.
\<close>

theorem create_has_the_last_word:
  assumes "CreateClaim C K claim warned s = (r, warned', s')" and "CreatedNG ng a \<in> set (did s s')"
  shows "\<exists>xs ys live cn cls l it t s1. did s s' = xs @ CreatedNG ng a # ys \<and> list_all no_create xs \<and> list_all no_create ys \<and>
    {ReadNG Uncached (ncName claim) (Inl NotFound), ReadClaim Uncached (ncName claim) (Inr live), ReadClass Uncached cn (Inr cls)} \<subseteq> set xs \<and>
    ncUID live = ncUID claim \<and> \<not> ncTerminating live \<and> class_name claim = Some cn \<and>
    IsTrue (clConditions cls) ConditionReady \<and> \<not> clTerminating cls \<and>
    ng = newNodeGroup (cvEnv C) claim l \<and> l = launch_of C None cls it \<and> resolveInstanceType C K claim t = (Inr it, s1)"
  using assms by (rule CreateClaim_posts)

end
