(* ===== verification/MachineLifecycle.thy ===== *)
theory MachineLifecycle
  imports CloudProvider
begin

text \<open>
  What karpenter is told of the machines it asked for: that a flavor has no capacity, what a running
  machine is, that one is gone, and that one has drifted from its class.
\<close>

section \<open>Capacity errors\<close>

text \<open>A group this call posted or found under the claim's name.\<close>

definition met_group :: "nodeclaim \<Rightarrow> effect list \<Rightarrow> nodegroup \<Rightarrow> bool" where
  "met_group claim es ng \<longleftrightarrow>
     (\<exists>rd. ReadNG rd (ncName claim) (Inr ng) \<in> set es) \<or> (\<exists>posted. CreatedNG posted (Inr ng) \<in> set es)"

lemma closed_when_unavailable:
  assumes "i < length (icFlavors (cvConf C))" and "Unavailable (cvCat C) (now K s) (flName (icFlavors (cvConf C) ! i)) (refs s)"
  shows "\<forall>off \<in> set (itOfferings (GetInstanceTypes C K pool s ! i)). \<not> ofAvailable off"
proof -
  obtain its diskReady where l: "ListForProvisioning (cvLib C) (cvConf C) (cvInst C (world s)) = (its, diskReady)" by (meson surj_pair)
  note p = provisioned [OF l]
  let ?seen = "\<lambda>it. if \<not> Unavailable (cvCat C) (now K s) (itName it) (refs s) then it else close_offerings it"
  have "instanceTypes C K s = (map ?seen its, diskReady)" by (simp add: instanceTypes_def l)
  then have "GetInstanceTypes C K pool s ! i = (if \<not> diskReady \<and> hasDiskLimit pool then close_offerings else id) (?seen (its ! i))"
    using assms(1) p by (simp add: GetInstanceTypes_def)
  moreover have "?seen (its ! i) = close_offerings (its ! i)" using assms p by simp
  ultimately show ?thesis using closed_offerings by auto
qed

lemma fast_fail_unavailable:
  "quotaFastFail cat t f m = Some q \<Longrightarrow> qeFlavor q = f \<and> Unavailable cat t f m"
  by (auto simp: quotaFastFail_def Unavailable_def Let_def split: option.splits prod.splits)

text \<open>A launch that fails on a known quota rejection names the flavor it covers.\<close>

lemma quota_error_unavailable:
  assumes "ResolveAndCreate E K claim (\<lambda>_. ((Inr l :: resolve_error + launch), s1)) s = (Inl (LQuota q), s')"
  shows "Unavailable (peCatalogue E) (now K s') (qeFlavor q) (refs s')"
  using refl assms
proof (cases rule: ResolveAndCreate_cases)
  case (fast q')
  then show ?thesis using fast_fail_unavailable [OF fast(2)] by simp
next
  case (stopped y)
  then show ?thesis by (auto simp: obtain_group_def Let_def split: option.splits if_splits sum.splits prod.splits)
next
  case (followed ng seen s2)
  then show ?thesis by (auto simp: follow_def Let_def split: option.splits if_splits prod.splits)
qed

lemma launched_group_met:
  assumes "resolve_create C K claim warned s = (Inr (l, it), w1, s1)"
    and "ResolveAndCreate (cvEnv C) K claim (\<lambda>_. ((Inr l :: resolve_error + launch), s1)) s = (r, s')"
    and "laExisting l = Some ng \<or> CreatedNG (newNodeGroup (cvEnv C) claim l) (Inr ng) \<in> set (did s1 s') \<or>
        ReadNG Cached (ncName claim) (Inr ng) \<in> set (did s1 s')"
  shows "met_group claim (did s s') ng"
proof -
  have "extends s1 s'" using ResolveAndCreate_extends [of "\<lambda>_. (Inr l, s1)", OF refl assms(2)] .
  moreover note rc = resolve_create_spec [OF assms(1)]
  then obtain a rest where a: "trace s1 = trace s @ ReadNG Uncached (ncName claim) a # rest"
      "\<forall>ob. laExisting l = Some ob \<longrightarrow> a = Inr ob"
    by fastforce
  ultimately have "set (did s1 s') \<subseteq> set (did s s')" "ReadNG Uncached (ncName claim) a \<in> set (did s s')"
    by (auto simp: did_def extends_def)
  then show ?thesis using assms(3) a(2) unfolding met_group_def by auto
qed

text \<open>
  C9. A capacity error comes with closed offerings. When a launch fails because the operator or the
  API server's admission refused its flavor, because its group vanished, or because a known quota
  rejection covers its flavor, the catalogue served at that moment, to any pool, has no open offering of
  that flavor: the claim planned next lands elsewhere.
\<close>

theorem capacity_errors_close_offerings:
  assumes "CreateClaim C K claim warned s = (Inl (LaunchInsufficient e), warned', s')"
    and "i < length (icFlavors (cvConf C))" and "f = flName (icFlavors (cvConf C) ! i)"
    and "(\<exists>r. asRejected e = Some r \<and> frFlavor r = f) \<or> (\<exists>q. e = LQuota q \<and> qeFlavor q = f) \<or>
      (isVanished e \<and> (\<forall>ng. met_group claim (did s s') ng \<longrightarrow> ngFlavor ng = f))"
  shows "\<forall>off \<in> set (itOfferings (GetInstanceTypes C K pool s' ! i)). \<not> ofAvailable off"
  using assms(1)
proof (cases rule: CreateClaim_cases)
  case (unresolved x)
  then show ?thesis by (simp add: launch_verdict_def split: if_splits)
next
  case (launched l it w1 s1 ng s2)
  then show ?thesis by auto
next
  case (failed l it s1 x)
  have x: "x = e" using failed(3) by (simp add: launch_verdict_def split: if_splits)
  note run = failed(2) [unfolded x]
  have "0 < 5 * minute" "0 < minute" by simp_all
  then have clock: "now K s' < now K s' + 5 * minute" "now K s' < now K s' + minute" by linarith+
  note left = failed_launch_holds_the_flavor_out [of "\<lambda>_. (Inr l, s1)", OF refl run]
  from assms(4) have "Unavailable (cvCat C) (now K s') f (refs s')"
  proof (elim disjE exE conjE)
    fix r assume "asRejected e = Some r" "frFlavor r = f"
    then show ?thesis using left clock by blast
  next
    fix q assume "e = LQuota q" "qeFlavor q = f"
    then show ?thesis using quota_error_unavailable run by auto
  next
    assume "isVanished e" and all: "\<forall>ng. met_group claim (did s s') ng \<longrightarrow> ngFlavor ng = f"
    then obtain ng where ng: "laExisting l = Some ng \<or> CreatedNG (newNodeGroup (cvEnv C) claim l) (Inr ng) \<in> set (did s1 s') \<or>
        ReadNG Cached (ncName claim) (Inr ng) \<in> set (did s1 s')"
        "\<forall>t < now K s' + minute. Unavailable (cvCat C) t (ngFlavor ng) (refs s')"
      using left by blast
    then show ?thesis using launched_group_met [OF failed(1) run ng(1)] all clock(2) by blast
  qed
  then show ?thesis using closed_when_unavailable assms(2,3) by blast
qed

section \<open>What a running machine is\<close>

definition from_catalogue :: "'w provider_conf \<Rightarrow> flavor \<Rightarrow> instance_type \<Rightarrow> bool" where
  "from_catalogue C n it \<longleftrightarrow>
     (\<exists>f. flName f = n \<and> itRequirements it = type_requirements (cvConf C) f \<and>
        itOfferings it = [\<lparr>ofRequirements = offering_requirements (cvConf C), ofPrice = flPrice f, ofAvailable = True\<rparr>])"

text \<open>A description that fits its group: identity, labels, and the disk the machine was launched with.\<close>

definition describes :: "'w provider_conf \<Rightarrow> nodegroup \<Rightarrow> described \<Rightarrow> bool" where
  "describes C ng d \<longleftrightarrow>
     dcName d = ngName ng \<and> dcProviderID d = ProviderID (ngName ng) \<and> dcCreated d = omCreated (ngMeta ng) \<and>
     dcLabels d LabelInstanceTypeStable = Some (ngFlavor ng) \<and> dcLabels d FlavorLabelKey = Some (ngFlavor ng) \<and>
     dcLabels d LabelTopologyRegion = Some (icRegion (cvConf C)) \<and> dcLabels d LabelTopologyZone = Some (icRegion (cvConf C)) \<and>
     dcLabels d CapacityTypeLabelKey = Some ''on-demand'' \<and> dcLabels d NodeRoleLabelKey = Some NodeRoleWorker \<and>
     dcLabels d CoreNodePoolLabelKey = omLabels (ngMeta ng) NodePoolLabelKey \<and>
     (\<forall>snapshot. readDiskSnapshot (cvLib C) (cvQuantities C) ng = Inr (Some snapshot) \<longrightarrow>
        dcCapacity d ResourceEphemeralStorage = Some (dsCapacity snapshot) \<and>
        dcAllocatable d ResourceEphemeralStorage = Some (dsAllocatable snapshot))"

lemmas label_key_defs = LabelInstanceTypeStable_def LabelArchStable_def LabelOSStable_def LabelTopologyRegion_def
  LabelTopologyZone_def CapacityTypeLabelKey_def key_defs

lemma label_neqs:
  shows "LabelInstanceTypeStable \<noteq> LabelArchStable" "LabelInstanceTypeStable \<noteq> LabelOSStable"
  "LabelInstanceTypeStable \<noteq> LabelTopologyRegion" "LabelInstanceTypeStable \<noteq> LabelTopologyZone"
  "LabelInstanceTypeStable \<noteq> CapacityTypeLabelKey" "LabelInstanceTypeStable \<noteq> FlavorLabelKey"
  "LabelInstanceTypeStable \<noteq> NodeRoleLabelKey" "LabelInstanceTypeStable \<noteq> InstanceCPULabelKey"
  "LabelInstanceTypeStable \<noteq> InstanceMemoryLabelKey" "LabelInstanceTypeStable \<noteq> CoreNodePoolLabelKey"
  "LabelArchStable \<noteq> LabelOSStable" "LabelArchStable \<noteq> LabelTopologyRegion"
  "LabelArchStable \<noteq> LabelTopologyZone" "LabelArchStable \<noteq> CapacityTypeLabelKey"
  "LabelArchStable \<noteq> FlavorLabelKey" "LabelArchStable \<noteq> NodeRoleLabelKey"
  "LabelArchStable \<noteq> InstanceCPULabelKey" "LabelArchStable \<noteq> InstanceMemoryLabelKey"
  "LabelArchStable \<noteq> CoreNodePoolLabelKey" "LabelOSStable \<noteq> LabelTopologyRegion"
  "LabelOSStable \<noteq> LabelTopologyZone" "LabelOSStable \<noteq> CapacityTypeLabelKey"
  "LabelOSStable \<noteq> FlavorLabelKey" "LabelOSStable \<noteq> NodeRoleLabelKey"
  "LabelOSStable \<noteq> InstanceCPULabelKey" "LabelOSStable \<noteq> InstanceMemoryLabelKey"
  "LabelOSStable \<noteq> CoreNodePoolLabelKey" "LabelTopologyRegion \<noteq> LabelTopologyZone"
  "LabelTopologyRegion \<noteq> CapacityTypeLabelKey" "LabelTopologyRegion \<noteq> FlavorLabelKey"
  "LabelTopologyRegion \<noteq> NodeRoleLabelKey" "LabelTopologyRegion \<noteq> InstanceCPULabelKey"
  "LabelTopologyRegion \<noteq> InstanceMemoryLabelKey" "LabelTopologyRegion \<noteq> CoreNodePoolLabelKey"
  "LabelTopologyZone \<noteq> CapacityTypeLabelKey" "LabelTopologyZone \<noteq> FlavorLabelKey"
  "LabelTopologyZone \<noteq> NodeRoleLabelKey" "LabelTopologyZone \<noteq> InstanceCPULabelKey"
  "LabelTopologyZone \<noteq> InstanceMemoryLabelKey" "LabelTopologyZone \<noteq> CoreNodePoolLabelKey"
  "CapacityTypeLabelKey \<noteq> FlavorLabelKey" "CapacityTypeLabelKey \<noteq> NodeRoleLabelKey"
  "CapacityTypeLabelKey \<noteq> InstanceCPULabelKey" "CapacityTypeLabelKey \<noteq> InstanceMemoryLabelKey"
  "CapacityTypeLabelKey \<noteq> CoreNodePoolLabelKey" "FlavorLabelKey \<noteq> NodeRoleLabelKey"
  "FlavorLabelKey \<noteq> InstanceCPULabelKey" "FlavorLabelKey \<noteq> InstanceMemoryLabelKey"
  "FlavorLabelKey \<noteq> CoreNodePoolLabelKey" "NodeRoleLabelKey \<noteq> InstanceCPULabelKey"
  "NodeRoleLabelKey \<noteq> InstanceMemoryLabelKey" "NodeRoleLabelKey \<noteq> CoreNodePoolLabelKey"
  "InstanceCPULabelKey \<noteq> InstanceMemoryLabelKey" "InstanceCPULabelKey \<noteq> CoreNodePoolLabelKey"
  "InstanceMemoryLabelKey \<noteq> CoreNodePoolLabelKey"
  by (simp_all add: label_key_defs)

lemmas label_lookup = label_neqs label_neqs [symmetric]

lemma newInstanceType_from_catalogue: "flName f = n \<Longrightarrow> from_catalogue C n (newInstanceType (cvLib C) (cvConf C) st f)"
  by (auto simp: from_catalogue_def newInstanceType_def split: prod.split)

lemma Synthesize_from_catalogue: "from_catalogue C n (Synthesize (cvLib C) (cvConf C) st n)"
proof -
  define f where "f = (case SizingByName n of
      Some s \<Rightarrow> \<lparr>flName = n, flCPU = CPU s, flMemoryKi = MemoryKi s, flPrice = RelativePrice (CPU s) (MemoryKi s)\<rparr>
    | None \<Rightarrow> \<lparr>flName = n, flCPU = 0, flMemoryKi = 0, flPrice = 0\<rparr>)"
  have "flName f = n" by (simp add: f_def split: option.split)
  then have "from_catalogue C n (newInstanceType (cvLib C) (cvConf C) st f)" by (rule newInstanceType_from_catalogue)
  then show ?thesis by (simp add: Synthesize_def from_catalogue_def f_def [symmetric] Let_def)
qed

lemma resolved_from_catalogue:
  assumes "resolveNodeGroupInstanceType C ng warned s = (it, warned', s')"
  shows "from_catalogue C (ngFlavor ng) it"
proof (cases "served (icFlavors (cvConf C)) (ngFlavor ng)")
  case None
  then show ?thesis using resolveNodeGroupInstanceType_spec [OF assms] Synthesize_from_catalogue by simp
next
  case (Some f)
  then have "it = newInstanceType (cvLib C) (cvConf C) (cvInst C (world s)) f" using resolveNodeGroupInstanceType_spec [OF assms] by simp
  then show ?thesis using served_name [OF Some] newInstanceType_from_catalogue by blast
qed

lemma claim_labels_from_catalogue:
  assumes "from_catalogue C n it"
  shows "claim_labels ng it LabelInstanceTypeStable = Some n" "claim_labels ng it FlavorLabelKey = Some n"
    "claim_labels ng it LabelTopologyRegion = Some (icRegion (cvConf C))" "claim_labels ng it LabelTopologyZone = Some (icRegion (cvConf C))"
    "claim_labels ng it CapacityTypeLabelKey = Some ''on-demand''" "claim_labels ng it NodeRoleLabelKey = Some NodeRoleWorker"
    "claim_labels ng it CoreNodePoolLabelKey = omLabels (ngMeta ng) NodePoolLabelKey"
  using assms
  by (auto simp: from_catalogue_def claim_labels_def type_requirements_def offering_requirements_def oneOf_def label_step_def
      single_valued_def Let_def label_lookup split: option.split)

lemma buildNodeClaim_describes:
  assumes "from_catalogue C (ngFlavor ng) it" and "buildNodeClaim C ng it s = (d, s')"
  shows "describes C ng d"
proof (cases "readDiskSnapshot (cvLib C) (cvQuantities C) ng")
  case (Inl e)
  then show ?thesis using assms claim_labels_from_catalogue [OF assms(1)]
    by (auto simp: buildNodeClaim_def describes_def)
next
  case (Inr snapshot)
  then show ?thesis using assms claim_labels_from_catalogue [OF assms(1)]
    by (cases snapshot) (auto simp: buildNodeClaim_def describes_def)
qed


lemma describe_step_spec:
  assumes "describe_step C ng (ds, warned, s) = (ds', warned', s')"
  shows "\<exists>d. ds' = ds @ [d] \<and> describes C ng d \<and> extends s s'"
proof -
  obtain it w1 s1 where it: "resolveNodeGroupInstanceType C ng warned s = (it, w1, s1)" using prod_cases3 by blast
  obtain d s2 where d: "buildNodeClaim C ng it s1 = (d, s2)" by (meson surj_pair)
  have "extends s s1" using resolveNodeGroupInstanceType_spec [OF it] only_extends by blast
  moreover have "extends s1 s2" using buildNodeClaim_quiet [OF d] by (rule only_extends)
  ultimately have "extends s s2" by (rule extends_trans)
  then show ?thesis
    using assms it d buildNodeClaim_describes [OF resolved_from_catalogue [OF it] d] by (auto simp: describe_step_def)
qed

lemma describe_all:
  "fold (describe_step C) groups (ds, warned, s) = (ds', warned', s') \<Longrightarrow>
   \<exists>new. ds' = ds @ new \<and> list_all2 (describes C) groups new \<and> extends s s'"
proof (induction groups arbitrary: ds warned s)
  case (Cons ng groups)
  obtain ds1 w1 s1 where step: "describe_step C ng (ds, warned, s) = (ds1, w1, s1)" using prod_cases3 by blast
  obtain d where d: "ds1 = ds @ [d]" "describes C ng d" "extends s s1" using describe_step_spec [OF step] by blast
  obtain new where "ds' = ds1 @ new" "list_all2 (describes C) groups new" "extends s1 s'"
    using Cons.IH [of ds1 w1 s1] Cons.prems step by auto
  then show ?case using d extends_trans by (intro exI [of _ "d # new"]) auto
qed simp

text \<open>
  C29. List never loses a machine. It fails only when listing the managed NodeGroups fails; otherwise it
  returns one description per group, in order, whatever became of the catalogue: with the group's
  provider ID, the instance type label of its own flavor, the region and zone the platform never
  sets, the pool it was launched for, and the disk recorded at its launch.
\<close>

theorem list_describes_every_group:
  assumes "ListNodeClaims C K warned s = (r, warned', s')"
  shows "\<exists>answer. ListedNG [(ManagedLabelKey, ''true'')] answer \<in> set (did s s') \<and>
    (case answer of
       Inl e \<Rightarrow> r = Inl e
     | Inr groups \<Rightarrow> \<exists>ds. r = Inr ds \<and> list_all2 (describes C) groups ds \<and>
         map dcProviderID ds = map (ProviderID \<circ> ngName) groups)"
proof -
  obtain answer s1 where l: "ListNodeGroups (cvEnv C) K s = (answer, s1)" by (meson surj_pair)
  have t: "trace s1 = trace s @ [ListedNG [(ManagedLabelKey, ''true'')] answer]"
    by (rule trace_call [OF l [unfolded ListNodeGroups_def listNG_def]])
  show ?thesis
  proof (cases answer)
    case (Inl e)
    then show ?thesis using assms l t by (auto simp: ListNodeClaims_def did_def)
  next
    case (Inr groups)
    obtain ds w2 s2 where f: "fold (describe_step C) groups ([], warned, s1) = (ds, w2, s2)" using prod_cases3 by blast
    have "list_all2 (describes C) groups ds" "extends s1 s2" using describe_all [OF f] by auto
    moreover from this have "map dcProviderID ds = map (ProviderID \<circ> ngName) groups"
      by (auto simp: list_all2_conv_all_nth describes_def intro: nth_equalityI)
    moreover have "r = Inr ds" "s' = s2" using assms l Inr f by (simp_all add: ListNodeClaims_def)
    ultimately show ?thesis using t Inr by (auto simp: did_def extends_def)
  qed
qed

text \<open>
  Get tells a machine that is gone from one that could not be read. It reports NotFound exactly when
  the group does not exist, is not managed by this provider, or is being deleted; any other failed
  read is an error of its own; and what it returns describes the group it read.
\<close>

theorem get_describes_or_reports_gone:
  assumes "GetClaim C K providerID warned s = (r, warned', s')"
  shows "case ParseProviderID providerID of
      None \<Rightarrow> r = Inl (BadProviderID providerID) \<and> s' = s
    | Some n \<Rightarrow> \<exists>answer. ReadNG Cached n answer \<in> set (did s s') \<and>
        (case answer of
           Inl e \<Rightarrow> r = Inl (if e = NotFound then NodeClaimNotFound else GettingGroup e)
         | Inr ng \<Rightarrow> if IsManaged ng \<and> \<not> ngTerminating ng then \<exists>d. r = Inr d \<and> describes C ng d
             else r = Inl NodeClaimNotFound)"
proof (cases "ParseProviderID providerID")
  case None
  then show ?thesis using assms by (simp add: GetClaim_def)
next
  case (Some n)
  obtain answer s1 where g: "GetNodeGroup (cvEnv C) K n s = (answer, s1)" by (meson surj_pair)
  have t: "trace s1 = trace s @ [ReadNG Cached n answer]"
    by (rule trace_call [OF g [unfolded GetNodeGroup_def getNG_def]])
  show ?thesis
  proof (cases "\<exists>ng. answer = Inr ng \<and> IsManaged ng \<and> \<not> ngTerminating ng")
    case False
    then have "s' = s1" "case answer of
           Inl e \<Rightarrow> r = Inl (if e = NotFound then NodeClaimNotFound else GettingGroup e)
         | Inr ng \<Rightarrow> \<not> (IsManaged ng \<and> \<not> ngTerminating ng) \<and> r = Inl NodeClaimNotFound"
      using assms Some g by (auto simp: GetClaim_def split: sum.splits if_splits)
    then show ?thesis using Some t by (auto simp: did_def split: sum.splits)
  next
    case True
    then obtain ng where ng: "answer = Inr ng" "IsManaged ng" "\<not> ngTerminating ng" by blast
    obtain it w2 s2 where it: "resolveNodeGroupInstanceType C ng warned s1 = (it, w2, s2)" using prod_cases3 by blast
    obtain d s3 where d: "buildNodeClaim C ng it s2 = (d, s3)" by (meson surj_pair)
    have "r = Inr d" "s' = s3" using assms Some g ng it d by (simp_all add: GetClaim_def)
    moreover have "extends s1 s3"
      using extends_trans only_extends [OF conjunct1 [OF conjunct2 [OF resolveNodeGroupInstanceType_spec [OF it]]]]
        only_extends [OF buildNodeClaim_quiet [OF d]] by blast
    moreover have "describes C ng d" by (rule buildNodeClaim_describes [OF resolved_from_catalogue [OF it] d])
    ultimately show ?thesis using Some t ng by (auto simp: did_def extends_def)
  qed
qed

section \<open>Deleting\<close>

text \<open>
  C31. Delete is confined to the claim's own machine. It deletes at most one NodeGroup, the one the
  provider ID names, or failing that the claim, and only if the group is this provider's and not yet
  being deleted; NotFound is reported exactly when the API says so of that group; and success means
  that the group's deletion has been accepted or was under way.
\<close>

theorem delete_is_confined:
  assumes "DeleteClaim C K claim s = (r, s')"
    and "n = (case ParseProviderID (ncProviderID claim) of Some n \<Rightarrow> n | None \<Rightarrow> ncName claim)"
  shows "\<exists>answer. case answer of
      Inl e \<Rightarrow> did s s' = [ReadNG Cached n answer] \<and> r = Some (if e = NotFound then NodeClaimNotFound else GettingGroup e)
    | Inr ng \<Rightarrow>
        if \<not> IsManaged ng then did s s' = [ReadNG Cached n answer] \<and> r = Some (NotManaged n)
        else if ngTerminating ng then did s s' = [ReadNG Cached n answer] \<and> r = None
        else \<exists>outcome. did s s' = [ReadNG Cached n answer, DeletedNG (ngName ng) outcome] \<and>
          r = map_option (\<lambda>e. if e = NotFound then NodeClaimNotFound else DeletingGroup e) outcome"
proof -
  obtain answer s1 where g: "GetNodeGroup (cvEnv C) K n s = (answer, s1)" by (meson surj_pair)
  have t: "trace s1 = trace s @ [ReadNG Cached n answer]"
    by (rule trace_call [OF g [unfolded GetNodeGroup_def getNG_def]])
  show ?thesis
  proof (cases "\<exists>ng. answer = Inr ng \<and> IsManaged ng \<and> \<not> ngTerminating ng")
    case False
    then show ?thesis using assms g t
      by (intro exI [of _ answer]) (auto simp: DeleteClaim_def did_def Let_def split: sum.splits if_splits)
  next
    case True
    then obtain ng where ng: "answer = Inr ng" "IsManaged ng" "\<not> ngTerminating ng" by blast
    obtain outcome s2 where d: "deleteNG K (cvCat C) (ngName ng) s1 = (outcome, s2)" by (meson surj_pair)
    have "trace s2 = trace s1 @ [DeletedNG (ngName ng) outcome]"
      by (rule trace_call [OF d [unfolded deleteNG_def]])
    then show ?thesis using assms g t ng d
      by (intro exI [of _ answer]) (auto simp: DeleteClaim_def DeleteNodeGroup_def did_def Let_def split: option.splits if_splits)
  qed
qed


section \<open>Drift\<close>

lemma IsDrifted_read:
  assumes "did s s' = [ReadNG Cached n (Inr ng), ReadClass Cached cn (Inr cls)]" and "IsDrifted C K claim s = (r, s')"
  shows "r = (case omAnnotations (ngMeta ng) NodeClassHashLabelKey of
      None \<Rightarrow> Inr ''''
    | Some hash \<Rightarrow>
        (case HashMatches (peRules (cvEnv C)) (peHash (cvEnv C)) (clLabels cls)
            (valOf (omAnnotations (ngMeta ng)) NodeClassHashVersionAnnotationKey) hash of
           (match, known) \<Rightarrow> Inr (if known \<and> \<not> match then NodeClassDrifted else '''')))"
proof (cases "ParseProviderID (ncProviderID claim)")
  case None
  then show ?thesis using assms by (auto simp: IsDrifted_def)
next
  case (Some m)
  obtain answer s1 where g: "GetNodeGroup (cvEnv C) K m s = (answer, s1)" by (meson surj_pair)
  have t1: "trace s1 = trace s @ [ReadNG Cached m answer]"
    by (rule trace_call [OF g [unfolded GetNodeGroup_def getNG_def]])
  show ?thesis
  proof (cases "class_name claim = None \<or> isl answer")
    case True
    then show ?thesis using assms Some g t1
      by (auto simp: IsDrifted_def did_def split: sum.splits)
  next
    case False
    then obtain k g0 where k: "class_name claim = Some k" "answer = Inr g0" by (cases answer) auto
    obtain answer2 s2 where c: "getClass K (cvCat C) Cached k s1 = (answer2, s2)" by (meson surj_pair)
    have t2: "trace s2 = trace s @ [ReadNG Cached m (Inr g0), ReadClass Cached k answer2]"
      using trace_call [OF c [unfolded getClass_def]] t1 k by simp
    have "s' = s2" using assms(2) Some g k c
      by (auto simp: IsDrifted_def Let_def split: sum.splits option.splits prod.splits)
    then have "g0 = ng" "answer2 = Inr cls" using assms(1) t2 by (auto simp: did_def)
    then show ?thesis using assms(2) Some g k c
      by (auto simp: IsDrifted_def Let_def split: option.splits prod.splits)
  qed
qed

text \<open>
  What a generation hashes of a NodeClass, and the stamp it makes of it: the labels delivered for the
  current one, all the labels for the older two. The first generation told an empty map from an absent one.
\<close>

definition hashed_labels :: "label_rules \<Rightarrow> string \<Rightarrow> class_spec \<Rightarrow> strmap" where
  "hashed_labels R version spec = (if version = NodeClassHashVersion then delivered R spec else map_of (labelsOf spec))"

definition stamp_of_generation :: "label_rules \<Rightarrow> hasher \<Rightarrow> string \<Rightarrow> class_spec \<Rightarrow> string" where
  "stamp_of_generation R hashOf version spec =
     (if version = NodeClassHashVersion then Hash R hashOf spec
      else if version = ''v2'' then hashOf (if labelsOf spec = [] then None else Some (map_of (labelsOf spec)))
      else hashOf (map_option map_of spec))"

definition knownGenerations :: "string set" where
  "knownGenerations = {NodeClassHashVersion, ''v2'', nodeClassHashVersionV1, ''''}"

lemma generation_matches:
  assumes "version \<in> knownGenerations"
    and "inj_on hashOf {None, Some Map.empty, Some (hashed_labels R version old), Some (hashed_labels R version new)}"
  shows "HashMatches R hashOf new version (stamp_of_generation R hashOf version old) =
    (hashed_labels R version old = hashed_labels R version new, True)"
proof (cases "version = NodeClassHashVersion")
  case True
  have h: "Hash R hashOf spec = hashOf (if delivered R spec = Map.empty then None else Some (delivered R spec))" for spec
    by (rule nodeClassDigest.digest_payload)
  have "Hash R hashOf old = Hash R hashOf new \<longleftrightarrow> delivered R old = delivered R new"
    using assms(2) True unfolding h hashed_labels_def by (auto dest: inj_onD)
  then show ?thesis using True by (simp add: HashMatches_def stamp_of_generation_def hashed_labels_def)
next
  case older: False
  have labels: "labelsOf spec = [] \<longleftrightarrow> map_of (labelsOf spec) = Map.empty" for spec by simp
  have raw: "map_option map_of spec \<in> {None, Some Map.empty, Some (map_of (labelsOf spec))}" for spec :: class_spec
    by (cases spec) (simp_all add: labelsOf_def)
  have none: "labelsOf spec = [] \<Longrightarrow> map_option map_of spec \<in> {None, Some Map.empty}" for spec :: class_spec
    by (cases spec) (simp_all add: labelsOf_def)
  have some: "labelsOf spec \<noteq> [] \<Longrightarrow> map_option map_of spec = Some (map_of (labelsOf spec))" for spec :: class_spec
    by (cases spec) (simp_all add: labelsOf_def)
  have inj: "hashOf x = hashOf y \<longleftrightarrow> x = y"
    if "x \<in> {None, Some Map.empty, Some (map_of (labelsOf old)), Some (map_of (labelsOf new))}"
      "y \<in> {None, Some Map.empty, Some (map_of (labelsOf old)), Some (map_of (labelsOf new))}" for x y
    using inj_on_eq_iff [OF assms(2)] that older by (simp add: hashed_labels_def)
  show ?thesis
  proof (cases "version = ''v2''")
    case True
    let ?opt = "\<lambda>spec. if labelsOf spec = [] then None else Some (map_of (labelsOf spec))"
    have "hashOf (?opt old) = hashOf (?opt new) \<longleftrightarrow> ?opt old = ?opt new" by (rule inj) auto
    moreover have "?opt old = ?opt new \<longleftrightarrow> map_of (labelsOf old) = map_of (labelsOf new)" using labels by auto
    ultimately show ?thesis using True older
      by (auto simp: HashMatches_def stamp_of_generation_def hashed_labels_def previousNodeClassHashes_def setsOnly_def
          hashV2_def version_defs Let_def split: if_splits)
  next
    case False
    then have v1: "version = nodeClassHashVersionV1 \<or> version = ''''" using assms(1) older by (auto simp: knownGenerations_def)
    let ?raw = "map_option map_of old"
    have "hashOf ?raw \<in> set (hashV1 hashOf new) \<longleftrightarrow> map_of (labelsOf old) = map_of (labelsOf new)"
    proof (cases "labelsOf new = []")
      case True
      have "hashOf ?raw = hashOf None \<or> hashOf ?raw = hashOf (Some Map.empty) \<longleftrightarrow> ?raw = None \<or> ?raw = Some Map.empty"
        using inj [of ?raw None] inj [of ?raw "Some Map.empty"] raw [of old] by auto
      also have "\<dots> \<longleftrightarrow> labelsOf old = []" using none [of old] some [of old] by (cases "labelsOf old = []") auto
      finally show ?thesis using True by (simp add: hashV1_def)
    next
      case new: False
      have "hashOf ?raw = hashOf (Some (map_of (labelsOf new))) \<longleftrightarrow> ?raw = Some (map_of (labelsOf new))"
        using raw [of old] by (intro inj) auto
      also have "\<dots> \<longleftrightarrow> map_of (labelsOf old) = map_of (labelsOf new)"
        using none [of old] some [of old] new by (cases "labelsOf old = []") auto
      finally show ?thesis using new by (simp add: hashV1_def)
    qed
    then show ?thesis using v1 older False
      by (auto simp: HashMatches_def stamp_of_generation_def hashed_labels_def previousNodeClassHashes_def setsOnly_def
          version_defs)
  qed
qed

text \<open>
  C21. A machine drifts when, and only when, what its generation hashed has changed. Of a group with the
  stamp a known generation made of a NodeClass, drift is reported exactly if the labels that generation
  hashes are no longer the same: for the current generation, which \<open>Create\<close> stamps, the labels that are
  delivered to the node; for the two older ones, all the labels of the NodeClass, delivered or not (for
  a hash that does not collide on these). A group without a stamp, or with one of a generation this
  controller does not know, never drifts.
\<close>

theorem machines_drift_with_their_delivery:
  assumes "IsDrifted C K claim s = (r, s')"
    and "did s s' = [ReadNG Cached n (Inr ng), ReadClass Cached cn (Inr cls)]"
    and "version = valOf (omAnnotations (ngMeta ng)) NodeClassHashVersionAnnotationKey"
    and "inj_on (peHash (cvEnv C)) {None, Some Map.empty, Some (hashed_labels (peRules (cvEnv C)) version old),
      Some (hashed_labels (peRules (cvEnv C)) version (clLabels cls))}"
  shows "(version \<in> knownGenerations \<and>
      omAnnotations (ngMeta ng) NodeClassHashLabelKey = Some (stamp_of_generation (peRules (cvEnv C)) (peHash (cvEnv C)) version old) \<longrightarrow>
      r = Inr (if hashed_labels (peRules (cvEnv C)) version old = hashed_labels (peRules (cvEnv C)) version (clLabels cls)
               then '''' else NodeClassDrifted)) \<and>
    (omAnnotations (ngMeta ng) NodeClassHashLabelKey = None \<or> version \<notin> knownGenerations \<longrightarrow> r = Inr '''') \<and>
    stampedAnnotations (cvEnv C) old_class NodeClassHashLabelKey =
      Some (stamp_of_generation (peRules (cvEnv C)) (peHash (cvEnv C)) NodeClassHashVersion (clLabels old_class)) \<and>
    stampedAnnotations (cvEnv C) old_class NodeClassHashVersionAnnotationKey = Some NodeClassHashVersion"
proof (intro conjI impI)
  note read = IsDrifted_read [OF assms(2,1)]
  assume "version \<in> knownGenerations \<and>
    omAnnotations (ngMeta ng) NodeClassHashLabelKey = Some (stamp_of_generation (peRules (cvEnv C)) (peHash (cvEnv C)) version old)"
  then show "r = Inr (if hashed_labels (peRules (cvEnv C)) version old = hashed_labels (peRules (cvEnv C)) version (clLabels cls)
      then '''' else NodeClassDrifted)"
    using read generation_matches [OF _ assms(4)] by (simp flip: assms(3))
next
  note read = IsDrifted_read [OF assms(2,1)]
  assume "omAnnotations (ngMeta ng) NodeClassHashLabelKey = None \<or> version \<notin> knownGenerations"
  then show "r = Inr ''''"
    using read unfolding assms(3) knownGenerations_def
    by (auto simp: HashMatches_def previousNodeClassHashes_def split: option.splits)
qed (use key_neqs in \<open>simp_all add: stampedAnnotations_def stamp_of_generation_def\<close>)

section \<open>The disk a machine was launched with\<close>

lemma launched_disk_reads:
  assumes "lawful_quantities (cvLib C) (cvQuantities C)"
    and "storable (q_at (itCapacity it) ResourceEphemeralStorage) (q_at (it_allocatable (cvLib C) it) ResourceEphemeralStorage)"
    and "omAnnotations (ngMeta ng) = omAnnotations (ngMeta (newNodeGroup (cvEnv C) claim (launch_of C existing cls it)))"
  shows "readDiskSnapshot (cvLib C) (cvQuantities C) ng = Inr (Some \<lparr>dsCapacity = q_at (itCapacity it) ResourceEphemeralStorage,
      dsAllocatable = q_at (it_allocatable (cvLib C) it) ResourceEphemeralStorage\<rparr>)"
proof -
  have note_of: "omAnnotations (ngMeta ng) k = diskSnapshotAnnotations (cvLib C) (cvQuantities C) it k"
    if "k \<in> {diskCapacityAnnotation, diskAllocatableAnnotation}" for k
    using that payload_annotations [of k] unfolding assms(3) by (auto simp: launch_of_def)
  show ?thesis by (rule readDiskSnapshot_written [OF assms(1,2)]) (simp_all add: note_of)
qed

lemma read_figure_exact:
  assumes "lawful_quantities L Q" and "qlParse Q (qlString Q q) = Some q" and "q < 2 ^ 63"
  shows "read_figure L Q n field (qlString Q q) = (if q \<in> \<int> \<and> 0 \<le> q then Inr q else Inl (NotWholeFigure n field (qlString Q q)))"
proof (cases "q \<in> \<int> \<and> 0 \<le> q")
  case True
  then show ?thesis using read_figure_written [OF assms(1)] assms(3) by simp
next
  case False
  have "q \<noteq> of_int z" if "0 \<le> z" for z
    using False that by (metis Ints_of_int of_int_0_le_iff)
  then have "rlValue L q < 0 \<or> q \<noteq> of_int (rlValue L q)" by force
  then show ?thesis using False assms(2) by (simp add: read_figure_def Let_def)
qed

lemma readDiskSnapshot_exact:
  assumes "lawful_quantities L Q" and "\<forall>q \<in> {c, a}. qlParse Q (qlString Q q) = Some q \<and> q < 2 ^ 63"
    and "omAnnotations (ngMeta ng) diskCapacityAnnotation = Some (qlString Q c)"
    and "omAnnotations (ngMeta ng) diskAllocatableAnnotation = Some (qlString Q a)"
  shows "if storable c a then readDiskSnapshot L Q ng = Inr (Some \<lparr>dsCapacity = c, dsAllocatable = a\<rparr>)
    else isl (readDiskSnapshot L Q ng)"
proof -
  have "read_figure L Q n field (qlString Q q) = (if q \<in> \<int> \<and> 0 \<le> q then Inr q else Inl (NotWholeFigure n field (qlString Q q)))"
    if "q \<in> {c, a}" for n field q
    using assms(2) that by (intro read_figure_exact [OF assms(1)]) auto
  then show ?thesis using assms(2-4) by (auto simp: readDiskSnapshot_def storable_def Let_def)
qed


text \<open>
  With the dynamic disk mode, every disk the catalogue promises can be recorded: the host's, which is
  whole and positive, or the unknown one.
\<close>

lemma dynamic_disk_is_storable:
  assumes "lawful_res L" and "st = fold (inst_step L conf) ops inst0" and "isRequired st"
    and "ListForProvisioning L conf st = (its, diskReady)" and "it \<in> set its"
    and "\<forall>p. isReference st = Some p \<longrightarrow> epCapacity p < 2 ^ 63"
  shows "storable (q_at (itCapacity it) ResourceEphemeralStorage) (q_at (it_allocatable L it) ResourceEphemeralStorage)"
proof -
  have ok: "inst_ok L conf st" unfolding assms(2) by (rule inst_run_ok [OF inst0_ok])
  let ?serve = "\<lambda>f. if \<not> isReady st then hide_disk (newInstanceType L conf st f) else newInstanceType L conf st f"
  have "ListForProvisioning L conf st = (map ?serve (icFlavors conf), isReady st)"
    unfolding ListForProvisioning_def Let_def using assms(3) by simp
  then have list: "its = map ?serve (icFlavors conf)" "diskReady = isReady st" using assms(4) by (metis Pair_inject)+
  then have "it \<in> ?serve ` set (icFlavors conf)" using assms(5) by (metis set_map)
  then obtain f where "it = ?serve f" by (rule imageE)
  then have f: "it = (if diskReady then newInstanceType L conf st f else hide_disk (newInstanceType L conf st f))"
    "diskReady = isReady st"
    using list(2) by simp_all
  note fig = reachable_figures [OF assms(1) ok]
  show ?thesis
  proof (cases diskReady)
    case True
    then obtain p where p: "isReference st = Some p" "valid_profile p" using ok f(2) by (auto simp: inst_ok_def)
    have "itCapacity it ResourceEphemeralStorage = Some (epCapacity p)" "it_allocatable L it ResourceEphemeralStorage = Some (epAllocatable p)"
      using True f(1) fig p(1) by (simp_all add: it_allocatable_def expected_capacity_def expected_allocatable_def disk_of_def)
    then show ?thesis using p assms(6) by (auto simp: storable_def valid_profile_def q_at_def)
  next
    case False
    have "dom (itCapacity (newInstanceType L conf st f)) \<subseteq> set generalizableResources"
      using inst_ok_observed [OF ok, of "flName f"] unfolding fig(1)
      by (auto simp: plausible_def expected_capacity_def disk_of_def generalizableResources_def split: option.splits if_splits)
    then show ?thesis using False f(1) hide_disk_figures [OF assms(1)]
      by (simp add: it_allocatable_def storable_def q_at_def)
  qed
qed

text \<open>
  Without it, a flavor's disk is what its nodes report, and a report is not required to be whole: a
  fraction of a byte is recorded as it is, and the group is then unreadable to every later \<open>Create\<close>.
\<close>

lemma fractional_disk_is_unreadable:
  assumes "omAnnotations (ngMeta ng) diskCapacityAnnotation = Some (qlString Q c)"
    and "qlParse Q (qlString Q c) = Some c" and "c \<notin> \<int>"
  shows "\<exists>text. readDiskSnapshot L Q ng = Inl (NotWholeFigure (ngName ng) diskCapacityAnnotation text)"
proof -
  have "c \<noteq> of_int z" for z using assms(3) by auto
  then show ?thesis using assms by (auto simp: readDiskSnapshot_def read_figure_def Let_def)
qed

text \<open>
  C34. A group whose disk cannot be read is never launched again, and never lost. While the API server
  returns an owned group with a corrupt snapshot, \<open>Create\<close> fails before it creates or adopts anything; but
  the machine is still described under its provider ID, with the labels of its flavor.
\<close>

theorem corrupt_snapshot_blocks_only_create:
  assumes "CreateClaim C K claim warned s = (r, warned', s')"
    and "getNG K (cvCat C) Uncached (ncName claim) s = (Inr ng, s1)" and "OwnedByNodeClaim ng claim"
    and "readDiskSnapshot (cvLib C) (cvQuantities C) ng = Inl e"
  shows "r = Inl (LaunchFailed (LResolve (Existing (ExistingSnapshot e)))) \<and>
    did s s' = [ReadNG Uncached (ncName claim) (Inr ng)] \<and>
    (\<forall>w it w' t t'. resolveNodeGroupInstanceType C ng w t = (it, w', t') \<longrightarrow> describes C ng (fst (buildNodeClaim C ng it t')))"
proof -
  have "trace s1 = trace s @ [ReadNG Uncached (ncName claim) (Inr ng)]" by (rule trace_call [OF assms(2) [unfolded getNG_def]])
  moreover have "existingDiskLaunch (cvLib C) (cvQuantities C) K (cvCat C) claim s = (Inl (ExistingSnapshot e), s1)"
    using assms(2-4) by (simp add: existingDiskLaunch_def)
  then have "r = Inl (LaunchFailed (LResolve (Existing (ExistingSnapshot e))))" "s' = s1"
    using assms(1) by (auto simp: CreateClaim_def resolve_create_def launch_verdict_def)
  moreover have "describes C ng (fst (buildNodeClaim C ng it t))"
    if "resolveNodeGroupInstanceType C ng w u = (it, w', t)" for it w w' t u
    by (rule buildNodeClaim_describes [OF resolved_from_catalogue [OF that] surjective_pairing])
  ultimately show ?thesis by (simp add: did_def)
qed

end
