(* ===== verification/CloudExamples.thy ===== *)
theory CloudExamples
  imports MachineLifecycle
begin

text \<open>Instances of the cloud provider's properties, on a catalogue of two flavors.\<close>

section \<open>A small shop\<close>

definition unary :: quantity_lib where
  "unary = \<lparr>qlString = (\<lambda>q. replicate (nat \<lfloor>q\<rfloor>) CHR ''I''),
            qlParse = (\<lambda>text. if set text \<subseteq> {CHR ''I''} then Some (of_nat (length text)) else None)\<rparr>"

lemma unary_lawful: "lawful_quantities exact_lib unary"
  by (auto simp: lawful_quantities_def unary_def exact_lib_def Let_def)

definition any_sched :: sched where
  "any_sched = \<lparr>scIntersects = (\<lambda>a b. True), scFits = (\<lambda>a b. True), scCompatible = (\<lambda>os rq. os),
     scAvailable = filter ofAvailable, scCheapest = arg_min_list ofPrice\<rparr>"

lemma any_sched_lawful: "lawful_sched any_sched"
  by (auto simp: lawful_sched_def any_sched_def arg_min_list_in f_arg_min_list_f)

definition dear :: Flavor where
  "dear = \<lparr>flName = ''M'', flCPU = 10, flMemoryKi = 15229256, flPrice = 2\<rparr>"
definition cheap :: Flavor where
  "cheap = \<lparr>flName = ''S'', flCPU = 6, flMemoryKi = 9000000, flPrice = 1\<rparr>"

definition shop :: "unit provider_conf" where
  "shop = \<lparr>cvEnv = example_env, cvLib = exact_lib, cvQuantities = unary, cvSched = any_sched,
     cvConf = \<lparr>icRegion = ''par'', icFlavors = [dear, cheap]\<rparr>, cvInst = (\<lambda>w. inst0)\<rparr>"

lemma shop_simps [simp]:
  "cvEnv shop = example_env" "cvLib shop = exact_lib" "cvQuantities shop = unary" "cvSched shop = any_sched"
  "cvConf shop = \<lparr>icRegion = ''par'', icFlavors = [dear, cheap]\<rparr>" "cvInst shop w = inst0"
  "flName dear = ''M''" "flName cheap = ''S''" "flPrice dear = 2" "flPrice cheap = 1"
  by (simp_all add: shop_def dear_def cheap_def)

lemma any_sched_simps [simp]:
  "scIntersects any_sched a b" "scFits any_sched x y" "scCompatible any_sched os rq = os"
  "scAvailable any_sched = filter ofAvailable" "scCheapest any_sched [off] = off"
  by (simp_all add: any_sched_def)

definition on_sale :: "Flavor \<Rightarrow> instance_type" where
  "on_sale f = newInstanceType exact_lib \<lparr>icRegion = ''par'', icFlavors = [dear, cheap]\<rparr> inst0 f"

lemma on_sale_simps [simp]:
  "itName (on_sale f) = flName f"
  "itOfferings (on_sale f) = [\<lparr>ofRequirements = offering_requirements \<lparr>icRegion = ''par'', icFlavors = [dear, cheap]\<rparr>,
     ofPrice = flPrice f, ofAvailable = True\<rparr>]"
  by (simp_all add: on_sale_def)

lemma nothing_refused [simp]: "\<not> Unavailable cat t f refusals0" "quotaFastFail cat t f refusals0 = None"
  by (simp_all add: Unavailable_def held_def quotaFastFail_def quotaRejectionCovering_def refusals0_def Let_def)

lemma shop_window: "refs s = refusals0 \<Longrightarrow> instanceTypes shop K s = ([on_sale dear, on_sale cheap], True)"
  by (simp add: instanceTypes_def ListForProvisioning_def on_sale_def inst0_def)

lemma shop_choice: "refs s = refusals0 \<Longrightarrow> resolveInstanceType shop K claim s = (Inr (on_sale cheap), s)"
  by (simp add: resolveInstanceType_def shop_window pick_cheapest_def pick_step_def)

section \<open>A launch the API server refuses\<close>

definition ready_class :: nodeclass where
  "ready_class = example_class\<lparr>clConditions := [ConditionReady \<mapsto> \<lparr>cdStatus = ConditionTrue, cdReason = '''', cdMessage = ''''\<rparr>]\<rparr>"

definition closed_shop :: "unit kube" where
  "closed_shop = silent\<lparr>kGetNG := (\<lambda>rd n w. (Inl NotFound, w)), kGetClaim := (\<lambda>rd n w. (Inr example_claim, w)),
     kGetClass := (\<lambda>rd n w. (Inr ready_class, w)),
     kCreateNG := (\<lambda>ng w. (Inl (Invalid (Some [(flavorField, ''unsupported'')])), w))\<rparr>"

lemma closed_shop_simps [simp]:
  "kGetNG closed_shop rd n w = (Inl NotFound, w)" "kGetClaim closed_shop rd n w = (Inr example_claim, w)"
  "kGetClass closed_shop rd n w = (Inr ready_class, w)"
  "kCreateNG closed_shop ng w = (Inl (Invalid (Some [(flavorField, ''unsupported'')])), w)"
  "kOthers closed_shop w = []" "kNow closed_shop w = 0"
  by (simp_all add: closed_shop_def silent_def)

lemma ready_class_simps [simp]:
  "IsTrue (clConditions ready_class) ConditionReady" "omDeleted (clMeta ready_class) = None"
  by (simp_all add: ready_class_def IsTrue_def ConditionReady_def example_class_def meta0_def)

lemma example_claim_simps [simp]:
  "omDeleted (ncMeta example_claim) = None" "ncName example_claim = ''c1''" "class_name example_claim = Some ''default''"
  by (simp_all add: example_claim_def class_name_def meta0_def)

definition refused_create :: "(create_error + described) \<times> flavor list \<times> unit sys" where
  "refused_create = CreateClaim shop closed_shop example_claim [] (start ())"

definition resolved :: "unit sys" where
  "resolved = (start ())\<lparr>trace := [ReadNG Uncached ''c1'' (Inl NotFound), ReadClaim Uncached ''c1'' (Inr example_claim),
     ReadClass Uncached ''default'' (Inr ready_class)]\<rparr>"

lemma refused_create_resolves:
  "resolve_create shop closed_shop example_claim [] (start ()) =
     (Inr (launch_of shop None ready_class (on_sale cheap), on_sale cheap), [], resolved)"
  by (simp add: resolve_create_def existingDiskLaunch_def resolveLaunch_def checkNodeClaimWanted_def
      resolveNodeClassFromNodeClaim_def run_defs shop_choice start_def resolved_def)

lemma refused_create_result:
  "fst refused_create = Inl (LaunchInsufficient (LRejected (ErrFlavorRejected ''S'' StatusReasonInvalid ''unsupported'')))"
  "CreatedNG (newNodeGroup example_env example_claim (launch_of shop None ready_class (on_sale cheap)))
     (Inl (Invalid (Some [(flavorField, ''unsupported'')]))) \<in> set (did (start ()) (snd (snd refused_create)))"
proof -
  let ?l = "launch_of shop None ready_class (on_sale cheap)"
  have l: "laExisting ?l = None" "laFlavor ?l = ''S''" by (simp_all add: launch_of_def)
  have run: "ResolveAndCreate example_env closed_shop example_claim (\<lambda>_. ((Inr ?l :: resolve_error + launch), resolved)) (start ()) =
      (Inl (LRejected (ErrFlavorRejected ''S'' StatusReasonInvalid ''unsupported'')),
       refuseFlavorAtAdmission closed_shop example_claim ''c1'' (ErrFlavorRejected ''S'' StatusReasonInvalid ''unsupported'')
         (emit (CreatedNG (newNodeGroup example_env example_claim ?l) (Inl (Invalid (Some [(flavorField, ''unsupported'')])))) resolved))"
    using l by (simp add: ResolveAndCreate_def resolved_def start_def obtain_group_def run_defs
        admissionFlavorRefusal_def flavorField_def fieldlessCause_def Let_def)
  show "fst refused_create = Inl (LaunchInsufficient (LRejected (ErrFlavorRejected ''S'' StatusReasonInvalid ''unsupported'')))"
    by (simp add: refused_create_def CreateClaim_def refused_create_resolves run launch_verdict_def)
  have "snd (snd refused_create) =
      refuseFlavorAtAdmission closed_shop example_claim ''c1'' (ErrFlavorRejected ''S'' StatusReasonInvalid ''unsupported'')
        (emit (CreatedNG (newNodeGroup example_env example_claim ?l) (Inl (Invalid (Some [(flavorField, ''unsupported'')])))) resolved)"
    by (simp add: refused_create_def CreateClaim_def refused_create_resolves run)
  then show "CreatedNG (newNodeGroup example_env example_claim ?l) (Inl (Invalid (Some [(flavorField, ''unsupported'')])))
      \<in> set (did (start ()) (snd (snd refused_create)))"
    by (simp add: did_def start_def resolved_def refuseFlavorAtAdmission_def claimEvent_def)
qed

lemma refused_create_run:
  "CreateClaim shop closed_shop example_claim [] (start ()) =
     (Inl (LaunchInsufficient (LRejected (ErrFlavorRejected ''S'' StatusReasonInvalid ''unsupported''))),
      fst (snd refused_create), snd (snd refused_create))"
  using refused_create_result(1) by (simp add: prod_eq_iff flip: refused_create_def)

theorem create_has_the_last_word_witness:
  "\<exists>live. ReadClaim Uncached ''c1'' (Inr live) \<in> set (did (start ()) (snd (snd refused_create))) \<and> ncUID live = ncUID example_claim"
proof -
  obtain xs ys live where "did (start ()) (snd (snd refused_create)) = xs @ ys" "ReadClaim Uncached ''c1'' (Inr live) \<in> set xs"
      "ncUID live = ncUID example_claim"
    using create_has_the_last_word [OF refused_create_run refused_create_result(2)] by fastforce
  then show ?thesis by auto
qed

theorem capacity_errors_close_offerings_witness:
  "list_all (Not \<circ> ofAvailable) (itOfferings (GetInstanceTypes shop closed_shop None (snd (snd refused_create)) ! 1))"
proof -
  have "\<forall>off \<in> set (itOfferings (GetInstanceTypes shop closed_shop None (snd (snd refused_create)) ! 1)). \<not> ofAvailable off"
    by (rule capacity_errors_close_offerings [OF refused_create_run, where f = "''S''"]) simp_all
  then show ?thesis by (simp add: list_all_iff)
qed


theorem no_flavor_is_dropped_witness:
  "map itName (GetInstanceTypes shop closed_shop None (snd (snd refused_create))) = [''M'', ''S'']"
  using no_flavor_is_dropped [of shop closed_shop None "snd (snd refused_create)"] by simp


section \<open>A running machine\<close>

definition running :: nodegroup where
  "running = newNodeGroup example_env example_claim (launch_of shop None ready_class (on_sale cheap))"

definition open_shop :: "unit kube" where
  "open_shop = silent\<lparr>kGetNG := (\<lambda>rd n w. (Inr running, w)), kListNG := (\<lambda>sel w. (Inr [running], w)),
     kGetClass := (\<lambda>rd n w. (Inr (ready_class\<lparr>clLabels := Some [(''team'', ''b'')]\<rparr>), w)), kDeleteNG := (\<lambda>n w. (None, w))\<rparr>"

lemma open_shop_simps [simp]:
  "kGetNG open_shop rd n w = (Inr running, w)" "kListNG open_shop sel w = (Inr [running], w)"
  "kGetClass open_shop rd n w = (Inr (ready_class\<lparr>clLabels := Some [(''team'', ''b'')]\<rparr>), w)" "kDeleteNG open_shop n w = (None, w)"
  "kOthers open_shop w = []"
  by (simp_all add: open_shop_def silent_def)

lemma running_simps [simp]:
  "ngName running = ''c1''" "ngFlavor running = ''S''" "IsManaged running" "omDeleted (ngMeta running) = None"
  by (simp_all add: running_def launch_of_def IsManaged_def) (simp add: newNodeGroup_def meta0_def)

definition launched_claim :: nodeclaim where
  "launched_claim = example_claim\<lparr>ncProviderID := ProviderID ''c1''\<rparr>"

lemma parse_c1 [simp]: "ParseProviderID (ProviderID ''c1'') = Some ''c1''"
  by (simp add: ParseProviderID_Some)

lemma describing_notes:
  assumes "resolveNodeGroupInstanceType C ng w s = (it, w1, s1)" and "buildNodeClaim C ng it s1 = (d, s2)"
  shows "only noting s s2"
proof -
  have "only noting s1 s2"
    using assms(2) by (auto simp: buildNodeClaim_def noting_def Let_def split: sum.splits option.splits intro!: only_intros)
  then show ?thesis using resolveNodeGroupInstanceType_spec [OF assms(1)] only_trans by blast
qed

lemma noted_later:
  assumes "only noting (s0\<lparr>trace := [e]\<rparr>) s" and "trace s0 = []" and "x \<in> set (did s0 s)" and "\<not> noting x"
  shows "x = e"
  using assms by (auto simp: only_def did_def list_all_iff)

theorem list_describes_every_group_witness:
  "\<exists>ds. fst (ListNodeClaims shop open_shop [] (start ())) = Inr ds \<and> map dcProviderID ds = [ProviderID ''c1'']"
proof -
  let ?e = "ListedNG [(ManagedLabelKey, ''true'')] (Inr [running])" and ?s0 = "start ()"
  obtain r w s where run: "ListNodeClaims shop open_shop [] ?s0 = (r, w, s)" using prod_cases3 by blast
  obtain it w1 s1 where it: "resolveNodeGroupInstanceType shop running [] (?s0\<lparr>trace := [?e]\<rparr>) = (it, w1, s1)" using prod_cases3 by blast
  obtain d s2 where d: "buildNodeClaim shop running it s1 = (d, s2)" by (meson surj_pair)
  have "ListNodeGroups example_env open_shop ?s0 = (Inr [running], ?s0\<lparr>trace := [?e]\<rparr>)"
    by (simp add: ListNodeGroups_def run_defs start_def)
  then have "s = s2" using run it d by (simp add: ListNodeClaims_def describe_step_def)
  then have "only noting (?s0\<lparr>trace := [?e]\<rparr>) s" using describing_notes [OF it d] by simp
  then have one: "x = ?e" if "x \<in> set (did ?s0 s)" "\<not> noting x" for x
    by (rule noted_later) (use that in \<open>simp_all add: start_def\<close>)
  obtain answer where answer: "ListedNG [(ManagedLabelKey, ''true'')] answer \<in> set (did ?s0 s)"
      "case answer of Inl e \<Rightarrow> r = Inl e
       | Inr groups \<Rightarrow> \<exists>ds. r = Inr ds \<and> list_all2 (describes shop) groups ds \<and> map dcProviderID ds = map (ProviderID \<circ> ngName) groups"
    using list_describes_every_group [OF run] by blast
  have "answer = Inr [running]" using one [OF answer(1)] by (simp add: noting_def)
  then show ?thesis using answer(2) run by auto
qed

theorem get_describes_or_reports_gone_witness:
  "\<exists>d. fst (GetClaim shop open_shop (ProviderID ''c1'') [] (start ())) = Inr d \<and> dcProviderID d = ProviderID ''c1'' \<and>
     dcLabels d LabelTopologyZone = Some ''par''"
proof -
  let ?e = "ReadNG Cached ''c1'' (Inr running)" and ?s0 = "start ()"
  obtain r w s where run: "GetClaim shop open_shop (ProviderID ''c1'') [] ?s0 = (r, w, s)" using prod_cases3 by blast
  obtain it w1 s1 where it: "resolveNodeGroupInstanceType shop running [] (?s0\<lparr>trace := [?e]\<rparr>) = (it, w1, s1)" using prod_cases3 by blast
  obtain d s2 where d: "buildNodeClaim shop running it s1 = (d, s2)" by (meson surj_pair)
  have "GetNodeGroup example_env open_shop ''c1'' ?s0 = (Inr running, ?s0\<lparr>trace := [?e]\<rparr>)"
    by (simp add: GetNodeGroup_def run_defs start_def)
  then have "s = s2" using run it d by (simp add: GetClaim_def)
  then have "only noting (?s0\<lparr>trace := [?e]\<rparr>) s" using describing_notes [OF it d] by simp
  then have one: "x = ?e" if "x \<in> set (did ?s0 s)" "\<not> noting x" for x
    by (rule noted_later) (use that in \<open>simp_all add: start_def\<close>)
  obtain answer where answer: "ReadNG Cached ''c1'' answer \<in> set (did ?s0 s)"
      "case answer of Inl e \<Rightarrow> r = Inl (if e = NotFound then NodeClaimNotFound else GettingGroup e)
       | Inr ng \<Rightarrow> if IsManaged ng \<and> \<not> ngTerminating ng then \<exists>d. r = Inr d \<and> describes shop ng d else r = Inl NodeClaimNotFound"
    using get_describes_or_reports_gone [OF run] by auto
  have "answer = Inr running" using one [OF answer(1)] by (simp add: noting_def)
  then obtain d' where "r = Inr d'" "describes shop running d'" using answer(2) by auto
  then show ?thesis using run by (auto simp: describes_def)
qed

theorem delete_is_confined_witness:
  "fst (DeleteClaim shop open_shop launched_claim (start ())) = None"
proof -
  obtain r s where run: "DeleteClaim shop open_shop launched_claim (start ()) = (r, s)" by (meson surj_pair)
  have did: "did (start ()) s = [ReadNG Cached ''c1'' (Inr running), DeletedNG ''c1'' None]"
    using run by (auto simp: DeleteClaim_def launched_claim_def GetNodeGroup_def DeleteNodeGroup_def run_defs did_def start_def
        Let_def split: if_splits)
  have named: "''c1'' = (case ParseProviderID (ncProviderID launched_claim) of Some n \<Rightarrow> n | None \<Rightarrow> ncName launched_claim)"
    by (simp add: launched_claim_def)
  obtain answer where answer: "case answer of
      Inl e \<Rightarrow> did (start ()) s = [ReadNG Cached ''c1'' answer] \<and> r = Some (if e = NotFound then NodeClaimNotFound else GettingGroup e)
    | Inr ng \<Rightarrow>
        if \<not> IsManaged ng then did (start ()) s = [ReadNG Cached ''c1'' answer] \<and> r = Some (NotManaged ''c1'')
        else if ngTerminating ng then did (start ()) s = [ReadNG Cached ''c1'' answer] \<and> r = None
        else \<exists>outcome. did (start ()) s = [ReadNG Cached ''c1'' answer, DeletedNG (ngName ng) outcome] \<and>
          r = map_option (\<lambda>e. if e = NotFound then NodeClaimNotFound else DeletingGroup e) outcome"
    using delete_is_confined [OF run named] by (rule exE)
  have len: "length (did (start ()) s) = 2" "hd (did (start ()) s) = ReadNG Cached ''c1'' (Inr running)" "did (start ()) s ! 1 = DeletedNG ''c1'' None"
    by (simp_all add: did)
  obtain ng outcome where "did (start ()) s = [ReadNG Cached ''c1'' (Inr ng), DeletedNG (ngName ng) outcome]"
      "r = map_option (\<lambda>e. if e = NotFound then NodeClaimNotFound else DeletingGroup e) outcome"
  proof (cases answer)
    case (Inl e)
    then have "length (did (start ()) s) = 1" using answer by simp
    then show ?thesis using len(1) by simp
  next
    case (Inr ng)
    then show ?thesis using answer len(1) that by (cases "IsManaged ng \<and> \<not> ngTerminating ng") (auto split: if_splits)
  qed
  then have "r = None" using len(3) by simp
  then show ?thesis using run by simp
qed

theorem machines_drift_with_their_delivery_witness:
  "fst (IsDrifted shop open_shop launched_claim (start ())) = Inr NodeClassDrifted"
proof -
  obtain r s where run: "IsDrifted shop open_shop launched_claim (start ()) = (r, s)" by (meson surj_pair)
  let ?cls = "ready_class\<lparr>clLabels := Some [(''team'', ''b'')]\<rparr>"
  have reads: "did (start ()) s = [ReadNG Cached ''c1'' (Inr running), ReadClass Cached ''default'' (Inr ?cls)]"
    using run by (auto simp: IsDrifted_def launched_claim_def class_name_def example_claim_def GetNodeGroup_def run_defs did_def start_def Let_def
        split: option.splits prod.splits)
  have team: "delivered example_rules (clLabels ready_class) ''team'' = Some ''a''" "delivered example_rules (clLabels ?cls) ''team'' = Some ''b''"
    by (simp_all add: delivered_def ready_class_def example_class_def labelsOf_def ValidateNodeClassLabel_def inKubernetesIODomain_def
        inKarpenterDomain_def CoreGroup_def HasPrefix_def example_rules_def)
  have env: "peRules example_env = example_rules" "peHash example_env = example_hash" by (simp_all add: example_env_def)
  have version: "NodeClassHashVersion = valOf (omAnnotations (ngMeta running)) NodeClassHashVersionAnnotationKey"
    and stamp: "omAnnotations (ngMeta running) NodeClassHashLabelKey =
      Some (stamp_of_generation example_rules example_hash NodeClassHashVersion (clLabels ready_class))"
    using key_neqs by (simp_all add: running_def newNodeGroup_def launch_of_def stampedAnnotations_def valOf_def stamp_of_generation_def env)
  have "inj_on example_hash {None, Some Map.empty, Some (delivered example_rules (clLabels ready_class)), Some (delivered example_rules (clLabels ?cls))}"
    using team by (auto simp: inj_on_def example_hash_def valOf_def)
  moreover have "delivered example_rules (clLabels ready_class) \<noteq> delivered example_rules (clLabels ?cls)" using team by auto
  ultimately show ?thesis
    using machines_drift_with_their_delivery [OF run reads version, of "clLabels ready_class" ready_class] stamp run
    by (simp add: env hashed_labels_def knownGenerations_def)
qed

lemma cheap_disk:
  "q_at (itCapacity (on_sale cheap)) ResourceEphemeralStorage = ephemeralStorage"
  "q_at (it_allocatable exact_lib (on_sale cheap)) ResourceEphemeralStorage = ephemeralStorage - evictionEphemeralThreshold"
  using reachable_figures [OF exact_lib_lawful inst0_ok]
  by (simp_all add: on_sale_def it_allocatable_def expected_capacity_def expected_allocatable_def disk_of_def observed_of_def
      no_observation_def inst0_def staticCapacity_def static_allocatable_def q_at_def)


definition corrupted :: nodegroup where
  "corrupted = example_group\<lparr>ngMeta := (ngMeta example_group)\<lparr>omAnnotations := [diskCapacityAnnotation \<mapsto> ''?'']\<rparr>\<rparr>"

definition corrupt_shop :: "unit kube" where
  "corrupt_shop = silent\<lparr>kGetNG := (\<lambda>rd n w. (Inr corrupted, w))\<rparr>"

theorem corrupt_snapshot_blocks_only_create_witness:
  "fst (CreateClaim shop corrupt_shop example_claim [] (start ())) =
     Inl (LaunchFailed (LResolve (Existing (ExistingSnapshot (UnparsableFigure ''c1'' diskCapacityAnnotation ''?'')))))"
proof -
  obtain r w s where run: "CreateClaim shop corrupt_shop example_claim [] (start ()) = (r, w, s)" using prod_cases3 by blast
  have owned: "OwnedByNodeClaim corrupted example_claim"
    by (simp add: OwnedByNodeClaim_def IsManaged_def corrupted_def example_group_def example_claim_def valOf_def meta0_def key_neqs)
  have bad: "readDiskSnapshot exact_lib unary corrupted = Inl (UnparsableFigure ''c1'' diskCapacityAnnotation ''?'')"
    by (simp add: readDiskSnapshot_def read_figure_def corrupted_def example_group_def unary_def meta0_def)
  have read: "getNG corrupt_shop (cvCat shop) Uncached (ncName example_claim) (start ()) =
      (Inr corrupted, (start ())\<lparr>trace := [ReadNG Uncached ''c1'' (Inr corrupted)]\<rparr>)"
    by (simp add: run_defs corrupt_shop_def silent_def start_def)
  show ?thesis using corrupt_snapshot_blocks_only_create [OF run read owned] bad run by simp
qed


section \<open>Two limits of the input checks\<close>

text \<open>
  \<^verbatim>\<open>ParseFlavorOverrides\<close> puts no upper bound on memory: from \<^verbatim>\<open>2^53\<close> KiB on, the bytes that
  \<^verbatim>\<open>staticCapacity\<close> computes in \<^verbatim>\<open>int64\<close> wrap, and the flavor advertises negative memory.
\<close>

lemma huge_memory_override_wraps:
  "let ov = \<lparr>ovName = ''M'', ovCPU = None, ovMemoryKi = Some (2 ^ 53)\<rparr> in
   ParseFlavorOverrides (\<lambda>d. Inr [ov]) () = Inr [ov] \<and>
   (\<forall>f. flMemoryKi f = 2 ^ 53 \<longrightarrow> q_at (fst (staticCapacity f)) ResourceMemory = - (2 ^ 63))"
  by (simp add: ParseFlavorOverrides_def flavorNameRegexp_def SizingByName_def FlavorSizing_def staticCapacity_def q_at_def wrap64_def)

text \<open>
  \<^verbatim>\<open>checkObservation\<close> bounds a disk report but does not ask for whole bytes, as \<^verbatim>\<open>readDiskSnapshot\<close> later
  does: in the static disk mode one accepted report of a fraction of a byte, the least of its flavor,
  makes the group of every launch of that flavor unreadable to \<open>Create\<close>.
\<close>

definition half_byte_op :: inst_op where
  "half_byte_op = Observe ''S''
     [ResourceCPU \<mapsto> 6, ResourceMemory \<mapsto> 9000000 * 1024, ResourceEphemeralStorage \<mapsto> ephemeralStorage - 1/2]
     [ResourceCPU \<mapsto> 6, ResourceMemory \<mapsto> 9000000 * 1024 - kubeReservedMemory,
      ResourceEphemeralStorage \<mapsto> ephemeralStorage - evictionEphemeralThreshold]"

lemma half_byte_is_learned:
  "map_option (\<lambda>ob. ocCapacity ob ResourceEphemeralStorage) (isObserved (inst_step exact_lib (cvConf shop) half_byte_op inst0) ''S'') =
     Some (Some (ephemeralStorage - 1/2))"
  by code_simp

lemma half_byte_blocks_the_flavor:
  assumes "st = inst_step exact_lib (cvConf shop) half_byte_op inst0" and "it = newInstanceType exact_lib (cvConf shop) st cheap"
    and "\<And>q. qlParse Q (qlString Q q) = Some q"
    and "omAnnotations (ngMeta ng) = diskSnapshotAnnotations exact_lib Q it"
  shows "isl (readDiskSnapshot exact_lib Q ng)"
proof -
  have ok: "inst_ok exact_lib (cvConf shop) st" unfolding assms(1) by (rule inst_step_ok [OF inst0_ok])
  have mode: "isReference st = None"
  proof -
    have "st = observe exact_lib (cvConf shop) (case half_byte_op of Observe f c a \<Rightarrow> (f, c, a)) inst0"
      by (simp add: assms(1) half_byte_op_def observe_def)
    moreover have "isReference (observe exact_lib conf rep inst0) = None" for conf rep
    proof -
      obtain f c a where rep: "rep = (f, c, a)" by (cases rep)
      show ?thesis unfolding rep
        by (cases rule: observe_cases [of exact_lib conf inst0 f c a]) (simp_all add: inst0_def)
    qed
    ultimately show ?thesis by simp
  qed
  have "ocCapacity (observed_of st ''S'') ResourceEphemeralStorage = Some (ephemeralStorage - 1/2)"
    using half_byte_is_learned unfolding assms(1) by (auto simp: observed_of_def)
  then have "itCapacity it ResourceEphemeralStorage = Some (ephemeralStorage - 1/2)"
    unfolding assms(2) reachable_figures(1) [OF exact_lib_lawful ok] using mode
    by (simp add: expected_capacity_def disk_of_def)
  then have c: "q_at (itCapacity it) ResourceEphemeralStorage = ephemeralStorage - 1/2" by (simp add: q_at_def)
  have "ephemeralStorage - 1/2 \<notin> \<int>"
  proof
    assume "ephemeralStorage - 1/2 \<in> \<int>"
    moreover have "ephemeralStorage \<in> \<int>" by (simp add: ephemeralStorage_def)
    ultimately have "(1/2 :: rat) \<in> \<int>" by (metis Ints_diff diff_diff_eq2 add_diff_cancel_left')
    then show False by (simp add: fraction_not_in_Ints [of 2 1, where 'a = rat, simplified])
  qed
  then show ?thesis
    using fractional_disk_is_unreadable [of ng Q "ephemeralStorage - 1/2" exact_lib] assms(3,4) c
    by (auto simp: diskSnapshotAnnotations_def Let_def)
qed

end
