(* ===== verification/DeepCopies.thy ===== *)
theory DeepCopies
  imports NodeClassController
begin

text \<open>
  \<^verbatim>\<open>src/pkg/apis/nodegroup/v1/zz_generated.deepcopy.go\<close>, \<^verbatim>\<open>src/pkg/apis/v1alpha1/zz_generated.deepcopy.go\<close>:
  the copies the controllers take before they modify an object, on an explicit memory. Elsewhere in
  this development objects are values; here a Go map and the array behind a slice are cells of a
  memory, a struct holds references to them, and two structs may share a cell. What a struct means
  is read off the memory (\<open>read_group\<close>, \<open>read_class\<close>), as the value the other theories use.

  \<^verbatim>\<open>ObjectMeta.DeepCopyInto\<close> is Kubernetes' code and a parameter, with the contract the generated code
  relies on. A \<^verbatim>\<open>metav1.Time\<close>, a \<^verbatim>\<open>status.Condition\<close> and a \<^verbatim>\<open>ListMeta\<close> are values without references the sources
  follow: copying them copies them. A struct variable is a value of its record, \<^verbatim>\<open>new(T)\<close> a fresh one,
  and a pointer that may be nil an option.
\<close>

section \<open>Memory\<close>

type_synonym addr = nat

record type_meta =
  tmKind :: string
  tmAPIVersion :: string

record list_meta =
  lmResourceVersion :: string
  lmContinue :: string

record status_condition =
  scType :: string
  scCondition :: condition

text \<open>The structs as Go lays them out: a map or a slice is a reference, \<open>None\<close> for nil.\<close>

record go_meta =
  gmName :: name
  gmUID :: string
  gmResourceVersion :: string
  gmLabels :: "addr option"
  gmAnnotations :: "addr option"
  gmOwners :: "addr option"
  gmFinalizers :: "addr option"
  gmCreated :: time
  gmDeleted :: "time option"

record go_spec =
  gsFlavor :: flavor
  gsNodeCount :: int
  gsLabels :: "addr option"
  gsTaints :: "addr option"

record go_status =
  gtConditions :: "addr option"
  gtNodeCount :: int
  gtTargetNodeCount :: int
  gtPhase :: string
  gtUpstreamID :: string
  gtLabels :: "addr option"
  gtTaints :: "addr option"

record go_group =
  ggType :: type_meta
  ggMeta :: go_meta
  ggSpec :: go_spec
  ggStatus :: go_status

record go_class_spec =
  gcLabels :: "addr option"

record go_class_status =
  gcConditions :: "addr option"

record go_class =
  gcType :: type_meta
  gcMeta :: go_meta
  gcSpec :: go_class_spec
  gcStatus :: go_class_status

record go_list =
  glType :: type_meta
  glMeta :: list_meta
  glItems :: "addr option"

text \<open>The cells: a map is the list of its entries, in some order of iteration, and an array is a list.\<close>

datatype cell =
    StringMap "(string \<times> string) list"
  | Strings "string list"
  | Owners "owner_ref list"
  | Taints "ng_taint list"
  | Conditions "ng_condition list"
  | StatusConditions "status_condition list"
  | Groups "go_group list"
  | Classes "go_class list"

record memory =
  mmCells :: "addr \<rightharpoonup> cell"
  mmNext :: addr

definition allocated :: "memory \<Rightarrow> addr set" where
  "allocated h = dom (mmCells h)"

definition well_formed :: "memory \<Rightarrow> bool" where
  "well_formed h \<longleftrightarrow> (\<forall>a \<in> allocated h. a < mmNext h) \<and>
     (\<forall>a m. mmCells h a = Some (StringMap m) \<longrightarrow> distinct (map fst m))"

text \<open>\<open>make\<close>: a fresh cell.\<close>

definition alloc :: "cell \<Rightarrow> memory \<Rightarrow> addr \<times> memory" where
  "alloc c h = (mmNext h, h\<lparr>mmCells := (mmCells h)(mmNext h \<mapsto> c), mmNext := mmNext h + 1\<rparr>)"

definition store_cell :: "addr \<Rightarrow> cell \<Rightarrow> memory \<Rightarrow> memory" where
  "store_cell a c h = h\<lparr>mmCells := (mmCells h)(a \<mapsto> c)\<rparr>"

text \<open>What a reference leads to: nothing for nil.\<close>

fun as_map :: "cell \<Rightarrow> (string \<times> string) list option" where
  "as_map (StringMap m) = Some m" | "as_map _ = None"
fun as_strings :: "cell \<Rightarrow> string list option" where
  "as_strings (Strings xs) = Some xs" | "as_strings _ = None"
fun as_owners :: "cell \<Rightarrow> owner_ref list option" where
  "as_owners (Owners xs) = Some xs" | "as_owners _ = None"
fun as_taints :: "cell \<Rightarrow> ng_taint list option" where
  "as_taints (Taints xs) = Some xs" | "as_taints _ = None"
fun as_conditions :: "cell \<Rightarrow> ng_condition list option" where
  "as_conditions (Conditions xs) = Some xs" | "as_conditions _ = None"
fun as_status_conditions :: "cell \<Rightarrow> status_condition list option" where
  "as_status_conditions (StatusConditions xs) = Some xs" | "as_status_conditions _ = None"
fun as_groups :: "cell \<Rightarrow> go_group list option" where
  "as_groups (Groups xs) = Some xs" | "as_groups _ = None"
fun as_classes :: "cell \<Rightarrow> go_class list option" where
  "as_classes (Classes xs) = Some xs" | "as_classes _ = None"

definition deref :: "(cell \<Rightarrow> 'c option) \<Rightarrow> memory \<Rightarrow> addr option \<Rightarrow> 'c option" where
  "deref kind h r = (case r of None \<Rightarrow> None | Some a \<Rightarrow> Option.bind (mmCells h a) kind)"

text \<open>A reference is nil, or leads to a cell of its type: Go has no dangling ones.\<close>

definition typed :: "(cell \<Rightarrow> 'c option) \<Rightarrow> memory \<Rightarrow> addr option \<Rightarrow> bool" where
  "typed kind h r \<longleftrightarrow> (r = None \<or> deref kind h r \<noteq> None)"

definition items :: "'c list option \<Rightarrow> 'c list" where
  "items xs = (case xs of None \<Rightarrow> [] | Some l \<Rightarrow> l)"

section \<open>The generated copies\<close>

text \<open>The loop over a map, and the built-in \<^verbatim>\<open>copy\<close>.\<close>

definition copy_entries :: "(string \<times> string) list \<Rightarrow> (string \<times> string) list" where
  "copy_entries m = fold (\<lambda>(key, val) out. AList.update key val out) m []"

definition go_copy :: "'c list \<Rightarrow> 'c list \<Rightarrow> 'c list" where
  "go_copy dst src = take (length dst) src @ drop (length src) dst"

definition zero_taint :: ng_taint where
  "zero_taint = \<lparr>ntKey = '''', ntValue = '''', ntEffect = ''''\<rparr>"

definition copy_map :: "addr option \<Rightarrow> memory \<Rightarrow> addr option \<times> memory" where
  "copy_map r h =
     (case deref as_map h r of
        None \<Rightarrow> (r, h)
      | Some m \<Rightarrow> (let (a, h1) = alloc (StringMap (copy_entries m)) h in (Some a, h1)))"

definition copy_taints :: "addr option \<Rightarrow> memory \<Rightarrow> addr option \<times> memory" where
  "copy_taints r h =
     (case deref as_taints h r of
        None \<Rightarrow> (r, h)
      | Some xs \<Rightarrow> (let (a, h1) = alloc (Taints (go_copy (replicate (length xs) zero_taint) xs)) h in (Some a, h1)))"

text \<open>
  The loop that copies the elements of a slice one by one, each with what it refers to. Every element
  is a struct of the fresh array (\<^verbatim>\<open>(*out)[i]\<close>), written when its copy is made; nothing reads the array
  before the loop ends, so it is written once, then.
\<close>

fun copy_elements :: "('c \<Rightarrow> memory \<Rightarrow> 'c \<times> memory) \<Rightarrow> 'c list \<Rightarrow> memory \<Rightarrow> 'c list \<times> memory" where
  "copy_elements copy [] h = ([], h)"
| "copy_elements copy (x # xs) h =
     (let (y, h1) = copy x h; (ys, h2) = copy_elements copy xs h1 in (y # ys, h2))"

definition copy_slice ::
  "(cell \<Rightarrow> 'c list option) \<Rightarrow> ('c list \<Rightarrow> cell) \<Rightarrow> ('c \<Rightarrow> memory \<Rightarrow> 'c \<times> memory) \<Rightarrow>
   addr option \<Rightarrow> memory \<Rightarrow> addr option \<times> memory" where
  "copy_slice kind mk copy r h =
     (case deref kind h r of
        None \<Rightarrow> (r, h)
      | Some xs \<Rightarrow>
          (let (a, h1) = alloc (mk []) h; (ys, h2) = copy_elements copy xs h1 in (Some a, store_cell a (mk ys) h2)))"

definition NodeGroupTaint_DeepCopyInto :: "ng_taint \<Rightarrow> memory \<Rightarrow> ng_taint \<times> memory" where
  "NodeGroupTaint_DeepCopyInto x h = (x, h)"

definition NodeGroupCondition_DeepCopyInto :: "ng_condition \<Rightarrow> memory \<Rightarrow> ng_condition \<times> memory" where
  "NodeGroupCondition_DeepCopyInto x h = (let out = x in (out\<lparr>ncLastTransition := ncLastTransition x\<rparr>, h))"

definition NodeGroupSpec_DeepCopyInto :: "go_spec \<Rightarrow> memory \<Rightarrow> go_spec \<times> memory" where
  "NodeGroupSpec_DeepCopyInto x h =
     (let (labels, h1) = copy_map (gsLabels x) h; (taints, h2) = copy_taints (gsTaints x) h1
      in (x\<lparr>gsLabels := labels, gsTaints := taints\<rparr>, h2))"

definition NodeGroupStatus_DeepCopyInto :: "go_status \<Rightarrow> memory \<Rightarrow> go_status \<times> memory" where
  "NodeGroupStatus_DeepCopyInto x h =
     (let (conditions, h1) = copy_slice as_conditions Conditions NodeGroupCondition_DeepCopyInto (gtConditions x) h;
          (labels, h2) = copy_map (gtLabels x) h1;
          (taints, h3) = copy_taints (gtTaints x) h2
      in (x\<lparr>gtConditions := conditions, gtLabels := labels, gtTaints := taints\<rparr>, h3))"

type_synonym meta_copy = "go_meta \<Rightarrow> memory \<Rightarrow> go_meta \<times> memory"

definition NodeGroup_DeepCopyInto :: "meta_copy \<Rightarrow> go_group \<Rightarrow> memory \<Rightarrow> go_group \<times> memory" where
  "NodeGroup_DeepCopyInto cp x h =
     (let (m, h1) = cp (ggMeta x) h;
          (sp, h2) = NodeGroupSpec_DeepCopyInto (ggSpec x) h1;
          (st, h3) = NodeGroupStatus_DeepCopyInto (ggStatus x) h2
      in (x\<lparr>ggType := ggType x, ggMeta := m, ggSpec := sp, ggStatus := st\<rparr>, h3))"

definition NodeGroupList_DeepCopyInto :: "meta_copy \<Rightarrow> go_list \<Rightarrow> memory \<Rightarrow> go_list \<times> memory" where
  "NodeGroupList_DeepCopyInto cp x h =
     (let (its, h1) = copy_slice as_groups Groups (NodeGroup_DeepCopyInto cp) (glItems x) h
      in (x\<lparr>glType := glType x, glMeta := glMeta x, glItems := its\<rparr>, h1))"

definition CleverNodeClassSpec_DeepCopyInto :: "go_class_spec \<Rightarrow> memory \<Rightarrow> go_class_spec \<times> memory" where
  "CleverNodeClassSpec_DeepCopyInto x h = (let (labels, h1) = copy_map (gcLabels x) h in (x\<lparr>gcLabels := labels\<rparr>, h1))"

definition Condition_DeepCopyInto :: "status_condition \<Rightarrow> memory \<Rightarrow> status_condition \<times> memory" where
  "Condition_DeepCopyInto x h = (x, h)"

definition CleverNodeClassStatus_DeepCopyInto :: "go_class_status \<Rightarrow> memory \<Rightarrow> go_class_status \<times> memory" where
  "CleverNodeClassStatus_DeepCopyInto x h =
     (let (conditions, h1) = copy_slice as_status_conditions StatusConditions Condition_DeepCopyInto (gcConditions x) h
      in (x\<lparr>gcConditions := conditions\<rparr>, h1))"

definition CleverNodeClass_DeepCopyInto :: "meta_copy \<Rightarrow> go_class \<Rightarrow> memory \<Rightarrow> go_class \<times> memory" where
  "CleverNodeClass_DeepCopyInto cp x h =
     (let (m, h1) = cp (gcMeta x) h;
          (sp, h2) = CleverNodeClassSpec_DeepCopyInto (gcSpec x) h1;
          (st, h3) = CleverNodeClassStatus_DeepCopyInto (gcStatus x) h2
      in (x\<lparr>gcType := gcType x, gcMeta := m, gcSpec := sp, gcStatus := st\<rparr>, h3))"

definition CleverNodeClassList_DeepCopyInto :: "meta_copy \<Rightarrow> go_list \<Rightarrow> memory \<Rightarrow> go_list \<times> memory" where
  "CleverNodeClassList_DeepCopyInto cp x h =
     (let (its, h1) = copy_slice as_classes Classes (CleverNodeClass_DeepCopyInto cp) (glItems x) h
      in (x\<lparr>glType := glType x, glMeta := glMeta x, glItems := its\<rparr>, h1))"

text \<open>\<^verbatim>\<open>DeepCopy\<close> on a pointer, the same for every type: nil for nil, else a fresh struct and \<^verbatim>\<open>DeepCopyInto\<close>.\<close>

definition deep_copy_ptr :: "('c \<Rightarrow> memory \<Rightarrow> 'c \<times> memory) \<Rightarrow> 'c option \<Rightarrow> memory \<Rightarrow> 'c option \<times> memory" where
  "deep_copy_ptr into p h = (case p of None \<Rightarrow> (None, h) | Some x \<Rightarrow> (let (out, h1) = into x h in (Some out, h1)))"

definition NodeGroup_DeepCopy where "NodeGroup_DeepCopy cp = deep_copy_ptr (NodeGroup_DeepCopyInto cp)"
definition NodeGroupList_DeepCopy where "NodeGroupList_DeepCopy cp = deep_copy_ptr (NodeGroupList_DeepCopyInto cp)"
definition NodeGroupCondition_DeepCopy where "NodeGroupCondition_DeepCopy = deep_copy_ptr NodeGroupCondition_DeepCopyInto"
definition NodeGroupSpec_DeepCopy where "NodeGroupSpec_DeepCopy = deep_copy_ptr NodeGroupSpec_DeepCopyInto"
definition NodeGroupStatus_DeepCopy where "NodeGroupStatus_DeepCopy = deep_copy_ptr NodeGroupStatus_DeepCopyInto"
definition NodeGroupTaint_DeepCopy where "NodeGroupTaint_DeepCopy = deep_copy_ptr NodeGroupTaint_DeepCopyInto"
definition CleverNodeClass_DeepCopy where "CleverNodeClass_DeepCopy cp = deep_copy_ptr (CleverNodeClass_DeepCopyInto cp)"
definition CleverNodeClassList_DeepCopy where "CleverNodeClassList_DeepCopy cp = deep_copy_ptr (CleverNodeClassList_DeepCopyInto cp)"
definition CleverNodeClassSpec_DeepCopy where "CleverNodeClassSpec_DeepCopy = deep_copy_ptr CleverNodeClassSpec_DeepCopyInto"
definition CleverNodeClassStatus_DeepCopy where "CleverNodeClassStatus_DeepCopy = deep_copy_ptr CleverNodeClassStatus_DeepCopyInto"

text \<open>\<^verbatim>\<open>DeepCopyObject\<close>: the same as an interface value, which is nil for a nil copy.\<close>

definition DeepCopyObject :: "('c option \<Rightarrow> memory \<Rightarrow> 'c option \<times> memory) \<Rightarrow> 'c option \<Rightarrow> memory \<Rightarrow> 'c option \<times> memory" where
  "DeepCopyObject deep p h = (let (c, h1) = deep p h in (case c of Some x \<Rightarrow> (Some x, h1) | None \<Rightarrow> (None, h1)))"

definition NodeGroup_DeepCopyObject where "NodeGroup_DeepCopyObject cp = DeepCopyObject (NodeGroup_DeepCopy cp)"
definition NodeGroupList_DeepCopyObject where "NodeGroupList_DeepCopyObject cp = DeepCopyObject (NodeGroupList_DeepCopy cp)"
definition CleverNodeClass_DeepCopyObject where "CleverNodeClass_DeepCopyObject cp = DeepCopyObject (CleverNodeClass_DeepCopy cp)"
definition CleverNodeClassList_DeepCopyObject where
  "CleverNodeClassList_DeepCopyObject cp = DeepCopyObject (CleverNodeClassList_DeepCopy cp)"

text \<open>As objects of the runtime, the copies are the same.\<close>

lemma DeepCopyObject_same: "DeepCopyObject deep = deep"
  by (auto simp: DeepCopyObject_def Let_def fun_eq_iff split: prod.splits option.splits)

section \<open>What the structs mean\<close>

definition read_meta :: "memory \<Rightarrow> go_meta \<Rightarrow> object_meta" where
  "read_meta h m =
     \<lparr>omName = gmName m, omUID = gmUID m, omResourceVersion = gmResourceVersion m,
      omLabels = map_of (items (deref as_map h (gmLabels m))),
      omAnnotations = map_of (items (deref as_map h (gmAnnotations m))),
      omOwners = items (deref as_owners h (gmOwners m)), omFinalizers = items (deref as_strings h (gmFinalizers m)),
      omCreated = gmCreated m, omDeleted = gmDeleted m\<rparr>"

definition read_spec :: "memory \<Rightarrow> go_spec \<Rightarrow> ng_spec" where
  "read_spec h x =
     \<lparr>nsFlavor = gsFlavor x, nsNodeCount = gsNodeCount x, nsLabels = map_of (items (deref as_map h (gsLabels x))),
      nsTaints = items (deref as_taints h (gsTaints x))\<rparr>"

definition read_status :: "memory \<Rightarrow> go_status \<Rightarrow> ng_status" where
  "read_status h x =
     \<lparr>stConditions = items (deref as_conditions h (gtConditions x)), stNodeCount = gtNodeCount x,
      stTargetNodeCount = gtTargetNodeCount x, stPhase = gtPhase x, stUpstreamID = gtUpstreamID x,
      stLabels = map_of (items (deref as_map h (gtLabels x))), stTaints = items (deref as_taints h (gtTaints x))\<rparr>"

definition read_group :: "memory \<Rightarrow> go_group \<Rightarrow> nodegroup" where
  "read_group h x = \<lparr>ngMeta = read_meta h (ggMeta x), ngSpec = read_spec h (ggSpec x), ngStatus = read_status h (ggStatus x)\<rparr>"

definition read_class :: "memory \<Rightarrow> go_class \<Rightarrow> nodeclass" where
  "read_class h x =
     \<lparr>clMeta = read_meta h (gcMeta x), clLabels = deref as_map h (gcLabels (gcSpec x)),
      clConditions = map_of (map (\<lambda>c. (scType c, scCondition c)) (items (deref as_status_conditions h (gcConditions (gcStatus x)))))\<rparr>"

section \<open>The contract of a deep copy\<close>

definition grown :: "memory \<Rightarrow> memory \<Rightarrow> bool" where
  "grown h h' \<longleftrightarrow> mmNext h \<le> mmNext h' \<and> (\<forall>a \<in> allocated h. mmCells h' a = mmCells h a)"

definition same_on :: "addr set \<Rightarrow> memory \<Rightarrow> memory \<Rightarrow> bool" where
  "same_on A h h' \<longleftrightarrow> (\<forall>a \<in> A. mmCells h' a = mmCells h a)"

text \<open>
  \<open>reads\<close>: what a struct means in a memory; \<open>reach\<close>: the cells it refers to; \<open>ok\<close>: its references are of
  their types. A copy only allocates, means the same, and reaches nothing that existed before.
\<close>

locale deep_copier =
  fixes copy :: "'c \<Rightarrow> memory \<Rightarrow> 'c \<times> memory" and reads :: "memory \<Rightarrow> 'c \<Rightarrow> 'v"
    and reach :: "memory \<Rightarrow> 'c \<Rightarrow> addr set" and ok :: "memory \<Rightarrow> 'c \<Rightarrow> bool"
  assumes reach_allocated: "ok h x \<Longrightarrow> reach h x \<subseteq> allocated h"
    and framed: "ok h x \<Longrightarrow> same_on (reach h x) h h' \<Longrightarrow> ok h' x \<and> reads h' x = reads h x \<and> reach h' x = reach h x"
    and copied: "well_formed h \<Longrightarrow> ok h x \<Longrightarrow> copy x h = (y, h') \<Longrightarrow>
      well_formed h' \<and> grown h h' \<and> ok h' y \<and> reads h' y = reads h x \<and> reach h' y \<inter> allocated h = {}"
begin

lemma still_ok:
  assumes "ok h x" "grown h h'"
  shows "ok h' x \<and> reads h' x = reads h x \<and> reach h' x = reach h x"
  using assms reach_allocated [OF assms(1)] by (intro framed) (auto simp: same_on_def grown_def)

text \<open>
  The copy is a snapshot: whatever happens afterwards to memory the copy did not allocate, it means what
  the original meant when it was taken; and the original means the same after any change to what the copy
  did allocate.
\<close>

lemma snapshot:
  assumes "well_formed h" "ok h x" "copy x h = (y, h')"
  shows "same_on (- allocated h) h' h'' \<Longrightarrow> reads h'' y = reads h x"
    and "same_on (allocated h) h' h'' \<Longrightarrow> reads h'' x = reads h x"
proof -
  note c = copied [OF assms]
  show "reads h'' y = reads h x" if s: "same_on (- allocated h) h' h''"
  proof -
    have "same_on (reach h' y) h' h''" using c s by (auto simp: same_on_def)
    then show ?thesis using framed [of h' y h''] c by simp
  qed
  show "reads h'' x = reads h x" if s: "same_on (allocated h) h' h''"
  proof -
    have "same_on (reach h x) h h''"
      using reach_allocated [OF assms(2)] c s by (auto simp: same_on_def grown_def)
    then show ?thesis using framed [OF assms(2)] by blast
  qed
qed

end

lemma grown_refl [simp]: "grown h h"
  by (simp add: grown_def)

lemma grown_allocated: "grown h h' \<Longrightarrow> allocated h \<subseteq> allocated h'"
  unfolding grown_def allocated_def by (metis domD domI subsetI)

lemma grown_trans: "grown h h1 \<Longrightarrow> grown h1 h2 \<Longrightarrow> grown h h2"
  using grown_allocated [of h h1] by (auto simp: grown_def subset_iff)

lemma allocated_alloc: "alloc c h = (a, h') \<Longrightarrow> allocated h' = insert a (allocated h)"
  by (auto simp: alloc_def allocated_def)

lemma alloc_spec:
  assumes "well_formed h" "alloc c h = (a, h')"
  shows "a \<notin> allocated h" "grown h h'" "mmCells h' a = Some c"
    "\<forall>m. c = StringMap m \<longrightarrow> distinct (map fst m) \<Longrightarrow> well_formed h'"
proof -
  have d: "a = mmNext h" "mmCells h' = (mmCells h)(a \<mapsto> c)" "mmNext h' = mmNext h + 1"
    using assms(2) by (auto simp: alloc_def)
  have below: "b < mmNext h" if "b \<in> allocated h" for b using that assms(1) by (simp add: well_formed_def)
  then show fresh: "a \<notin> allocated h" using d by blast
  show "grown h h'" using d fresh by (auto simp: grown_def)
  show "mmCells h' a = Some c" using d by simp
  show "well_formed h'" if "\<forall>m. c = StringMap m \<longrightarrow> distinct (map fst m)"
    unfolding well_formed_def
  proof (intro conjI ballI allI impI)
    fix b assume "b \<in> allocated h'"
    then have "b = a \<or> b \<in> allocated h" using d by (auto simp: allocated_def)
    then show "b < mmNext h'" using d below [of b] by auto
  next
    fix b m assume "mmCells h' b = Some (StringMap m)"
    then show "distinct (map fst m)" using d that assms(1) by (auto simp: well_formed_def split: if_splits)
  qed
qed

lemma deref_Some: "deref kind h r = Some v \<longleftrightarrow> (\<exists>a c. r = Some a \<and> mmCells h a = Some c \<and> kind c = Some v)"
  by (cases r) (auto simp: deref_def bind_eq_Some_conv)

lemma deref_frame: "same_on (set_option r) h h' \<Longrightarrow> deref kind h' r = deref kind h r"
  by (cases r) (simp_all add: deref_def same_on_def)

lemma typed_allocated: "typed kind h r \<Longrightarrow> set_option r \<subseteq> allocated h"
  by (cases r) (auto simp: typed_def deref_Some allocated_def)

lemma typed_None: "typed kind h r \<Longrightarrow> deref kind h r = None \<Longrightarrow> r = None"
  by (simp add: typed_def)

lemma copy_entries_id: "distinct (map fst m) \<Longrightarrow> copy_entries m = m"
proof -
  have upd: "k \<notin> fst ` set acc \<Longrightarrow> AList.update k v acc = acc @ [(k, v)]" for k :: string and v :: string and acc
    by (induction acc) auto
  have "distinct (map fst (acc @ m)) \<Longrightarrow> fold (\<lambda>(key, val) out. AList.update key val out) m acc = acc @ m" for acc
  proof (induction m arbitrary: acc)
    case (Cons e m)
    obtain k v where e: "e = (k, v)" by (cases e)
    have "k \<notin> fst ` set acc" using Cons.prems e by auto
    then show ?case using Cons.IH [of "acc @ [(k, v)]"] Cons.prems e upd by simp
  qed simp
  from this [of "[]"] show "distinct (map fst m) \<Longrightarrow> copy_entries m = m" by (simp add: copy_entries_def)
qed

lemma go_copy_fresh: "go_copy (replicate (length xs) z) xs = xs"
  by (simp add: go_copy_def)

text \<open>A cell without references of its own, copied as a whole.\<close>

lemma flat_copier:
  assumes copy: "\<And>r h. copy r h = (case deref kind h r of
        None \<Rightarrow> (r, h) | Some v \<Rightarrow> (let (a, h1) = alloc (mk v) h in (Some a, h1)))"
    and kept: "\<And>h r v. well_formed h \<Longrightarrow> deref kind h r = Some v \<Longrightarrow> kind (mk v) = Some v"
    and keys: "\<And>h r v m. well_formed h \<Longrightarrow> deref kind h r = Some v \<Longrightarrow> mk v = StringMap m \<Longrightarrow> distinct (map fst m)"
  shows "deep_copier copy (deref kind) (\<lambda>h. set_option) (typed kind)"
proof
  fix h :: memory and x :: "addr option"
  assume "typed kind h x"
  then show "set_option x \<subseteq> allocated h" by (rule typed_allocated)
next
  fix h x h'
  assume "typed kind h x" "same_on (set_option x) h h'"
  then show "typed kind h' x \<and> deref kind h' x = deref kind h x \<and> set_option x = set_option x"
    by (simp add: typed_def deref_frame)
next
  fix h x y h'
  assume wf: "well_formed h" and ok: "typed kind h x" and c: "copy x h = (y, h')"
  show "well_formed h' \<and> grown h h' \<and> typed kind h' y \<and> deref kind h' y = deref kind h x \<and> set_option y \<inter> allocated h = {}"
  proof (cases "deref kind h x")
    case None
    then have "y = x" "h' = h" "x = None" using c copy [of x h] typed_None [OF ok] by auto
    then show ?thesis using wf ok by simp
  next
    case (Some v)
    obtain a h1 where a: "alloc (mk v) h = (a, h1)" by (meson surj_pair)
    then have y: "y = Some a" "h' = h1" using c copy [of x h] Some by auto
    note s = alloc_spec [OF wf a]
    have "deref kind h1 (Some a) = Some v" using s(3) kept [OF wf Some] by (simp add: deref_Some)
    then show ?thesis using s y Some keys [OF wf Some] by (auto simp: typed_def)
  qed
qed

section \<open>Copies of parts make a copy of the whole\<close>

lemma value_copier: "deep_copier (\<lambda>x h. (x, h)) (\<lambda>h x. x) (\<lambda>h x. {}) (\<lambda>h x. True)"
  by unfold_locales auto

lemma pair_copier:
  assumes "deep_copier c1 r1 s1 k1" "deep_copier c2 r2 s2 k2"
  shows "deep_copier (\<lambda>(x1, x2) h. let (y1, h1) = c1 x1 h; (y2, h2) = c2 x2 h1 in ((y1, y2), h2))
    (\<lambda>h (x1, x2). (r1 h x1, r2 h x2)) (\<lambda>h (x1, x2). s1 h x1 \<union> s2 h x2) (\<lambda>h (x1, x2). k1 h x1 \<and> k2 h x2)"
proof (unfold_locales, goal_cases)
  case (1 h x)
  then show ?case
    using deep_copier.reach_allocated [OF assms(1)] deep_copier.reach_allocated [OF assms(2)] by (cases x) simp
next
  case (2 h x h')
  then have "same_on (s1 h (fst x)) h h'" "same_on (s2 h (snd x)) h h'" by (auto simp: same_on_def split: prod.splits)
  then show ?case
    using 2 deep_copier.framed [OF assms(1), of h "fst x" h'] deep_copier.framed [OF assms(2), of h "snd x" h']
    by (cases x) simp
next
  case (3 h x y h')
  obtain x1 x2 where x: "x = (x1, x2)" by (cases x)
  obtain y1 h1 where c1: "c1 x1 h = (y1, h1)" by (meson surj_pair)
  obtain y2 h2 where c2: "c2 x2 h1 = (y2, h2)" by (meson surj_pair)
  have y: "y = (y1, y2)" "h' = h2" using 3(3) x c1 c2 by simp_all
  have k: "k1 h x1" "k2 h x2" using 3(2) x by simp_all
  note a = deep_copier.copied [OF assms(1) 3(1) k(1) c1]
  note still = deep_copier.still_ok [OF assms(2) k(2), of h1]
  note b = deep_copier.copied [OF assms(2) _ _ c2]
  have b: "well_formed h2 \<and> grown h1 h2 \<and> k2 h2 y2 \<and> r2 h2 y2 = r2 h x2 \<and> s2 h2 y2 \<inter> allocated h1 = {}"
    using a b still by simp
  have "k1 h2 y1 \<and> r1 h2 y1 = r1 h1 y1 \<and> s1 h2 y1 = s1 h1 y1"
    using a b deep_copier.still_ok [OF assms(1), of h1 y1 h2] by simp
  then show ?case
    using a b x y grown_trans [of h h1 h2] grown_allocated [of h h1] by auto
qed

text \<open>A struct is copied when its parts are, and its other fields are kept.\<close>

lemma struct_copier:
  assumes "deep_copier c r s k"
    and "\<And>x h. copy x h = (let (y, h1) = c (parts x) h in (rebuild x y, h1))"
    and "\<And>x y. parts (rebuild x y) = y" and "\<And>h x. reads h x = g x (r h (parts x))"
    and "\<And>x y. g (rebuild x y) = g x"
  shows "deep_copier copy reads (\<lambda>h x. s h (parts x)) (\<lambda>h x. k h (parts x))"
proof (unfold_locales, goal_cases)
  case (1 h x)
  then show ?case by (rule deep_copier.reach_allocated [OF assms(1)])
next
  case (2 h x h')
  then show ?case using deep_copier.framed [OF assms(1), of h "parts x" h'] assms(4) by simp
next
  case (3 h x y h')
  obtain z h1 where c: "c (parts x) h = (z, h1)" by (meson surj_pair)
  then have y: "y = rebuild x z" "h' = h1" using 3(3) assms(2) by simp_all
  then show ?case using deep_copier.copied [OF assms(1) 3(1,2) c] assms(3-5) by simp
qed

text \<open>A slice is copied when its elements are.\<close>

definition slice_reads :: "(cell \<Rightarrow> 'c list option) \<Rightarrow> (memory \<Rightarrow> 'c \<Rightarrow> 'v) \<Rightarrow> memory \<Rightarrow> addr option \<Rightarrow> 'v list option" where
  "slice_reads kind reads h r = map_option (map (reads h)) (deref kind h r)"

definition slice_reach :: "(cell \<Rightarrow> 'c list option) \<Rightarrow> (memory \<Rightarrow> 'c \<Rightarrow> addr set) \<Rightarrow> memory \<Rightarrow> addr option \<Rightarrow> addr set" where
  "slice_reach kind reach h r = set_option r \<union> (\<Union>x \<in> set (items (deref kind h r)). reach h x)"

definition slice_ok :: "(cell \<Rightarrow> 'c list option) \<Rightarrow> (memory \<Rightarrow> 'c \<Rightarrow> bool) \<Rightarrow> memory \<Rightarrow> addr option \<Rightarrow> bool" where
  "slice_ok kind ok h r \<longleftrightarrow> typed kind h r \<and> (\<forall>x \<in> set (items (deref kind h r)). ok h x)"

lemmas slice_defs = slice_reads_def slice_reach_def slice_ok_def

lemma well_formed_store:
  assumes "well_formed h" "a \<in> allocated h" "\<And>m. c \<noteq> StringMap m"
  shows "well_formed (store_cell a c h)"
  using assms unfolding well_formed_def store_cell_def allocated_def by (auto split: if_splits)

context deep_copier
begin

lemma elements:
  assumes "well_formed h" "\<forall>x \<in> set xs. ok h x" "copy_elements copy xs h = (ys, h')"
  shows "well_formed h' \<and> grown h h' \<and> (\<forall>y \<in> set ys. ok h' y \<and> reach h' y \<inter> allocated h = {}) \<and>
    map (reads h') ys = map (reads h) xs"
  using assms
proof (induction xs arbitrary: h ys h')
  case (Cons x xs)
  obtain y h1 where y: "copy x h = (y, h1)" by (meson surj_pair)
  obtain zs h2 where zs: "copy_elements copy xs h1 = (zs, h2)" by (meson surj_pair)
  have r: "ys = y # zs" "h' = h2" using Cons.prems(3) y zs by simp_all
  have c: "well_formed h1" "grown h h1" "ok h1 y" "reads h1 y = reads h x" "reach h1 y \<inter> allocated h = {}"
    using copied [OF Cons.prems(1) _ y] Cons.prems(2) by simp_all
  have later: "ok h1 z \<and> reads h1 z = reads h z" if "z \<in> set xs" for z
    using still_ok [of h z h1] Cons.prems(2) that c(2) by simp
  then have ih: "well_formed h2 \<and> grown h1 h2 \<and> (\<forall>z \<in> set zs. ok h2 z \<and> reach h2 z \<inter> allocated h1 = {}) \<and>
      map (reads h2) zs = map (reads h1) xs"
    using Cons.IH [OF c(1) _ zs] by simp
  moreover have "ok h2 y \<and> reads h2 y = reads h1 y \<and> reach h2 y = reach h1 y" using still_ok [OF c(3)] ih by blast
  moreover have "map (reads h1) xs = map (reads h) xs" using later by simp
  moreover have "\<forall>z \<in> set zs. reach h2 z \<inter> allocated h = {}" using ih grown_allocated [OF c(2)] by blast
  ultimately show ?case using r c grown_trans [of h h1 h2] by auto
qed simp

lemma slice_copier:
  assumes mk: "\<And>xs. kind (mk xs) = Some xs" "\<And>xs m. mk xs \<noteq> StringMap m"
  shows "deep_copier (copy_slice kind mk copy) (slice_reads kind reads) (slice_reach kind reach) (slice_ok kind ok)"
proof (unfold_locales, goal_cases)
  case (1 h x)
  then show ?case using typed_allocated [of kind h x] reach_allocated by (auto simp: slice_defs)
next
  case (2 h r h')
  have "same_on (set_option r) h h'" using 2(2) by (auto simp: slice_defs same_on_def)
  then have d: "deref kind h' r = deref kind h r" by (rule deref_frame)
  have "ok h' x \<and> reads h' x = reads h x \<and> reach h' x = reach h x" if "x \<in> set (items (deref kind h r))" for x
    using 2 that by (intro framed) (auto simp: slice_defs same_on_def)
  then show ?case using 2(1) d by (cases "deref kind h r") (auto simp: slice_defs typed_def items_def)
next
  case (3 h r r' h')
  show ?case
  proof (cases "deref kind h r")
    case None
    then have "r' = r" "h' = h" "r = None" using 3 typed_None [of kind h r] by (auto simp: copy_slice_def slice_defs)
    then show ?thesis using 3(1,2) by (simp add: slice_defs items_def deref_def)
  next
    case (Some xs)
    obtain a h1 where a: "alloc (mk []) h = (a, h1)" by (meson surj_pair)
    obtain ys h2 where ys: "copy_elements copy xs h1 = (ys, h2)" by (meson surj_pair)
    have r: "r' = Some a" "h' = store_cell a (mk ys) h2" using 3(3) Some a ys by (auto simp: copy_slice_def)
    note s = alloc_spec [OF 3(1) a]
    have w1: "well_formed h1" using s(4) mk(2) by blast
    have ok1: "ok h1 x \<and> reads h1 x = reads h x" if "x \<in> set xs" for x
      using 3(2) Some that still_ok [of h x h1] s(2) by (auto simp: slice_defs items_def)
    have e: "well_formed h2" "grown h1 h2" "\<forall>y \<in> set ys. ok h2 y \<and> reach h2 y \<inter> allocated h1 = {}"
        "map (reads h2) ys = map (reads h1) xs"
      using elements [OF w1 _ ys] ok1 by simp_all
    have a12: "a \<in> allocated h1" "a \<in> allocated h2"
      using allocated_alloc [OF a] grown_allocated [OF e(2)] by auto
    have w: "well_formed h'" using well_formed_store [OF e(1) a12(2)] mk(2) r by blast
    have kept: "ok h' y \<and> reads h' y = reads h2 y \<and> reach h' y = reach h2 y" if "y \<in> set ys" for y
      using e(3) that a12(1) r by (intro framed) (auto simp: same_on_def store_cell_def)
    have d: "deref kind h' r' = Some ys" using r mk(1) by (simp add: deref_def store_cell_def)
    have g: "grown h h'"
      using grown_trans [OF s(2) e(2)] s(1) r by (auto simp: grown_def store_cell_def)
    have "reads h' y = reads h2 y" if "y \<in> set ys" for y using kept that by simp
    then have "map (reads h') ys = map (reads h2) ys" by simp
    also have "\<dots> = map (reads h) xs" using e(4) ok1 by simp
    finally have same: "map (reads h') ys = map (reads h) xs" .
    have "reach h' y \<inter> allocated h = {}" if "y \<in> set ys" for y
      using kept that e(3) grown_allocated [OF s(2)] by fastforce
    then show ?thesis
      using w g d same kept e(3) s(1) r(1) Some by (auto simp: slice_defs typed_def items_def)
  qed
qed

end

section \<open>The contract of every type\<close>

text \<open>What Kubernetes documents of \<^verbatim>\<open>ObjectMeta.DeepCopyInto\<close>: it is a deep copy.\<close>

definition reach_meta :: "memory \<Rightarrow> go_meta \<Rightarrow> addr set" where
  "reach_meta h m = set_option (gmLabels m) \<union> (set_option (gmAnnotations m) \<union> (set_option (gmOwners m) \<union> set_option (gmFinalizers m)))"

definition ok_meta :: "memory \<Rightarrow> go_meta \<Rightarrow> bool" where
  "ok_meta h m \<longleftrightarrow> typed as_map h (gmLabels m) \<and> typed as_map h (gmAnnotations m) \<and>
     typed as_owners h (gmOwners m) \<and> typed as_strings h (gmFinalizers m)"

definition lawful_meta_copy :: "meta_copy \<Rightarrow> bool" where
  "lawful_meta_copy cp \<longleftrightarrow> deep_copier cp read_meta reach_meta ok_meta"

definition reach_spec :: "memory \<Rightarrow> go_spec \<Rightarrow> addr set" where
  "reach_spec h x = set_option (gsLabels x) \<union> set_option (gsTaints x)"

definition ok_spec :: "memory \<Rightarrow> go_spec \<Rightarrow> bool" where
  "ok_spec h x \<longleftrightarrow> typed as_map h (gsLabels x) \<and> typed as_taints h (gsTaints x)"

definition reach_status :: "memory \<Rightarrow> go_status \<Rightarrow> addr set" where
  "reach_status h x = set_option (gtConditions x) \<union> (set_option (gtLabels x) \<union> set_option (gtTaints x))"

definition ok_status :: "memory \<Rightarrow> go_status \<Rightarrow> bool" where
  "ok_status h x \<longleftrightarrow> typed as_conditions h (gtConditions x) \<and> typed as_map h (gtLabels x) \<and> typed as_taints h (gtTaints x)"

definition reach_group :: "memory \<Rightarrow> go_group \<Rightarrow> addr set" where
  "reach_group h x = reach_meta h (ggMeta x) \<union> (reach_spec h (ggSpec x) \<union> reach_status h (ggStatus x))"

definition ok_group :: "memory \<Rightarrow> go_group \<Rightarrow> bool" where
  "ok_group h x \<longleftrightarrow> ok_meta h (ggMeta x) \<and> ok_spec h (ggSpec x) \<and> ok_status h (ggStatus x)"

definition reach_class :: "memory \<Rightarrow> go_class \<Rightarrow> addr set" where
  "reach_class h x = reach_meta h (gcMeta x) \<union> (set_option (gcLabels (gcSpec x)) \<union> set_option (gcConditions (gcStatus x)))"

definition ok_class :: "memory \<Rightarrow> go_class \<Rightarrow> bool" where
  "ok_class h x \<longleftrightarrow> ok_meta h (gcMeta x) \<and> typed as_map h (gcLabels (gcSpec x)) \<and>
     typed as_status_conditions h (gcConditions (gcStatus x))"

text \<open>An object with its type, and a list of them.\<close>

definition typed_group :: "memory \<Rightarrow> go_group \<Rightarrow> type_meta \<times> nodegroup" where
  "typed_group h x = (ggType x, read_group h x)"

definition typed_class :: "memory \<Rightarrow> go_class \<Rightarrow> type_meta \<times> nodeclass" where
  "typed_class h x = (gcType x, read_class h x)"

definition read_list :: "(cell \<Rightarrow> 'c list option) \<Rightarrow> (memory \<Rightarrow> 'c \<Rightarrow> 'v) \<Rightarrow> memory \<Rightarrow> go_list \<Rightarrow> type_meta \<times> list_meta \<times> 'v list option" where
  "read_list kind reads h x = (glType x, glMeta x, slice_reads kind reads h (glItems x))"

lemma map_copier: "deep_copier copy_map (deref as_map) (\<lambda>h. set_option) (typed as_map)"
proof (rule flat_copier)
  show "copy_map r h = (case deref as_map h r of None \<Rightarrow> (r, h)
      | Some m \<Rightarrow> (let (a, h1) = alloc (StringMap (copy_entries m)) h in (Some a, h1)))" for r h
    by (rule copy_map_def)
  have keys: "distinct (map fst m)" if "well_formed h" "deref as_map h r = Some m" for h r m
  proof -
    from that(2) obtain a c where "mmCells h a = Some c" "as_map c = Some m" by (auto simp: deref_Some)
    then have "mmCells h a = Some (StringMap m)" by (cases c) simp_all
    with that(1) show ?thesis unfolding well_formed_def by blast
  qed
  then show "as_map (StringMap (copy_entries m)) = Some m" if "well_formed h" "deref as_map h r = Some m" for h r m
    using that by (simp add: copy_entries_id)
  show "distinct (map fst n)" if "well_formed h" "deref as_map h r = Some m" "StringMap (copy_entries m) = StringMap n" for h r m n
    using keys [OF that(1,2)] that(3) by (simp add: copy_entries_id)
qed

lemma taints_copier: "deep_copier copy_taints (deref as_taints) (\<lambda>h. set_option) (typed as_taints)"
  by (rule flat_copier [OF copy_taints_def]) (simp_all add: go_copy_fresh)

lemma plain_slice_copier:
  assumes "\<And>xs. kind (mk xs) = Some xs" "\<And>xs m. mk xs \<noteq> StringMap m"
  shows "deep_copier (copy_slice kind mk (\<lambda>x h. (x, h))) (deref kind) (\<lambda>h. set_option) (typed kind)"
proof -
  have "slice_reads kind (\<lambda>h x. x) = deref kind" by (simp add: fun_eq_iff slice_reads_def option.map_ident)
  moreover have "slice_reach kind (\<lambda>h x. {}) = (\<lambda>h. set_option)" by (simp add: fun_eq_iff slice_reach_def)
  moreover have "slice_ok kind (\<lambda>h x. True) = typed kind" by (simp add: fun_eq_iff slice_ok_def)
  ultimately show ?thesis using deep_copier.slice_copier [OF value_copier assms] by simp
qed

lemma conditions_copier:
  "deep_copier (copy_slice as_conditions Conditions NodeGroupCondition_DeepCopyInto) (deref as_conditions) (\<lambda>h. set_option) (typed as_conditions)"
proof -
  have "NodeGroupCondition_DeepCopyInto = (\<lambda>x h. (x, h))"
    by (simp add: fun_eq_iff NodeGroupCondition_DeepCopyInto_def)
  then show ?thesis using plain_slice_copier [of as_conditions Conditions] by simp
qed

lemma status_conditions_copier:
  "deep_copier (copy_slice as_status_conditions StatusConditions Condition_DeepCopyInto) (deref as_status_conditions)
     (\<lambda>h. set_option) (typed as_status_conditions)"
proof -
  have "Condition_DeepCopyInto = (\<lambda>x h. (x, h))" by (simp add: fun_eq_iff Condition_DeepCopyInto_def)
  then show ?thesis using plain_slice_copier [of as_status_conditions StatusConditions] by simp
qed

interpretation specCopy: deep_copier NodeGroupSpec_DeepCopyInto read_spec reach_spec ok_spec
proof -
  have "deep_copier NodeGroupSpec_DeepCopyInto read_spec
      (\<lambda>h x. (\<lambda>(l, t). set_option l \<union> set_option t) (gsLabels x, gsTaints x))
      (\<lambda>h x. (\<lambda>(l, t). typed as_map h l \<and> typed as_taints h t) (gsLabels x, gsTaints x))"
    by (rule struct_copier [OF pair_copier [OF map_copier taints_copier], where parts = "\<lambda>x. (gsLabels x, gsTaints x)"
          and rebuild = "\<lambda>x (l, t). x\<lparr>gsLabels := l, gsTaints := t\<rparr>"
          and g = "\<lambda>x (l, t). \<lparr>nsFlavor = gsFlavor x, nsNodeCount = gsNodeCount x, nsLabels = map_of (items l), nsTaints = items t\<rparr>"])
      (auto simp: NodeGroupSpec_DeepCopyInto_def read_spec_def fun_eq_iff split: prod.splits)
  then show "deep_copier NodeGroupSpec_DeepCopyInto read_spec reach_spec ok_spec"
    by (simp add: reach_spec_def [abs_def] ok_spec_def [abs_def])
qed

interpretation statusCopy: deep_copier NodeGroupStatus_DeepCopyInto read_status reach_status ok_status
proof -
  have "deep_copier NodeGroupStatus_DeepCopyInto read_status
      (\<lambda>h x. (\<lambda>(c, p). set_option c \<union> (\<lambda>(l, t). set_option l \<union> set_option t) p) (gtConditions x, gtLabels x, gtTaints x))
      (\<lambda>h x. (\<lambda>(c, p). typed as_conditions h c \<and> (\<lambda>(l, t). typed as_map h l \<and> typed as_taints h t) p)
         (gtConditions x, gtLabels x, gtTaints x))"
    by (rule struct_copier [OF pair_copier [OF conditions_copier pair_copier [OF map_copier taints_copier]],
          where parts = "\<lambda>x. (gtConditions x, gtLabels x, gtTaints x)"
          and rebuild = "\<lambda>x (c, l, t). x\<lparr>gtConditions := c, gtLabels := l, gtTaints := t\<rparr>"
          and g = "\<lambda>x (c, l, t). \<lparr>stConditions = items c, stNodeCount = gtNodeCount x, stTargetNodeCount = gtTargetNodeCount x,
            stPhase = gtPhase x, stUpstreamID = gtUpstreamID x, stLabels = map_of (items l), stTaints = items t\<rparr>"])
      (auto simp: NodeGroupStatus_DeepCopyInto_def read_status_def fun_eq_iff split: prod.splits)
  then show "deep_copier NodeGroupStatus_DeepCopyInto read_status reach_status ok_status"
    by (simp add: reach_status_def [abs_def] ok_status_def [abs_def])
qed

lemma group_copier:
  assumes "lawful_meta_copy cp"
  shows "deep_copier (NodeGroup_DeepCopyInto cp) typed_group reach_group ok_group"
proof -
  have "deep_copier (NodeGroup_DeepCopyInto cp) typed_group
      (\<lambda>h x. (\<lambda>(m, p). reach_meta h m \<union> (\<lambda>(sp, st). reach_spec h sp \<union> reach_status h st) p) (ggMeta x, ggSpec x, ggStatus x))
      (\<lambda>h x. (\<lambda>(m, p). ok_meta h m \<and> (\<lambda>(sp, st). ok_spec h sp \<and> ok_status h st) p) (ggMeta x, ggSpec x, ggStatus x))"
    by (rule struct_copier [OF pair_copier [OF assms [unfolded lawful_meta_copy_def]
            pair_copier [OF specCopy.deep_copier_axioms statusCopy.deep_copier_axioms]],
          where parts = "\<lambda>x. (ggMeta x, ggSpec x, ggStatus x)"
          and rebuild = "\<lambda>x (m, sp, st). x\<lparr>ggType := ggType x, ggMeta := m, ggSpec := sp, ggStatus := st\<rparr>"
          and g = "\<lambda>x (m, sp, st). (ggType x, \<lparr>ngMeta = m, ngSpec = sp, ngStatus = st\<rparr>)"])
      (auto simp: NodeGroup_DeepCopyInto_def typed_group_def read_group_def fun_eq_iff split: prod.splits)
  then show ?thesis by (simp add: reach_group_def [abs_def] ok_group_def [abs_def])
qed

lemma class_copier:
  assumes "lawful_meta_copy cp"
  shows "deep_copier (CleverNodeClass_DeepCopyInto cp) typed_class reach_class ok_class"
proof -
  have "deep_copier (CleverNodeClass_DeepCopyInto cp) typed_class
      (\<lambda>h x. (\<lambda>(m, p). reach_meta h m \<union> (\<lambda>(l, c). set_option l \<union> set_option c) p)
         (gcMeta x, gcLabels (gcSpec x), gcConditions (gcStatus x)))
      (\<lambda>h x. (\<lambda>(m, p). ok_meta h m \<and> (\<lambda>(l, c). typed as_map h l \<and> typed as_status_conditions h c) p)
         (gcMeta x, gcLabels (gcSpec x), gcConditions (gcStatus x)))"
    by (rule struct_copier [OF pair_copier [OF assms [unfolded lawful_meta_copy_def]
            pair_copier [OF map_copier status_conditions_copier]],
          where parts = "\<lambda>x. (gcMeta x, gcLabels (gcSpec x), gcConditions (gcStatus x))"
          and rebuild = "\<lambda>x (m, l, c). x\<lparr>gcMeta := m, gcSpec := (gcSpec x)\<lparr>gcLabels := l\<rparr>, gcStatus := (gcStatus x)\<lparr>gcConditions := c\<rparr>\<rparr>"
          and g = "\<lambda>x (m, l, c). (gcType x, \<lparr>clMeta = m, clLabels = l,
            clConditions = map_of (map (\<lambda>c. (scType c, scCondition c)) (items c))\<rparr>)"])
      (auto simp: CleverNodeClass_DeepCopyInto_def CleverNodeClassSpec_DeepCopyInto_def CleverNodeClassStatus_DeepCopyInto_def
        typed_class_def read_class_def fun_eq_iff split: prod.splits)
  then show ?thesis by (simp add: reach_class_def [abs_def] ok_class_def [abs_def])
qed

lemma group_list_copier:
  assumes "lawful_meta_copy cp"
  shows "deep_copier (NodeGroupList_DeepCopyInto cp) (read_list as_groups typed_group)
    (\<lambda>h x. slice_reach as_groups reach_group h (glItems x)) (\<lambda>h x. slice_ok as_groups ok_group h (glItems x))"
  by (rule struct_copier [OF deep_copier.slice_copier [OF group_copier [OF assms], where kind = as_groups and mk = Groups], where parts = glItems
        and rebuild = "\<lambda>x r. x\<lparr>glType := glType x, glMeta := glMeta x, glItems := r\<rparr>"
        and g = "\<lambda>x its. (glType x, glMeta x, its)"])
    (auto simp: NodeGroupList_DeepCopyInto_def read_list_def split: prod.splits)

lemma class_list_copier:
  assumes "lawful_meta_copy cp"
  shows "deep_copier (CleverNodeClassList_DeepCopyInto cp) (read_list as_classes typed_class)
    (\<lambda>h x. slice_reach as_classes reach_class h (glItems x)) (\<lambda>h x. slice_ok as_classes ok_class h (glItems x))"
  by (rule struct_copier [OF deep_copier.slice_copier [OF class_copier [OF assms], where kind = as_classes and mk = Classes], where parts = glItems
        and rebuild = "\<lambda>x r. x\<lparr>glType := glType x, glMeta := glMeta x, glItems := r\<rparr>"
        and g = "\<lambda>x its. (glType x, glMeta x, its)"])
    (auto simp: CleverNodeClassList_DeepCopyInto_def read_list_def split: prod.splits)

section \<open>Copies are snapshots\<close>

text \<open>
  \<open>snapshot_of reads h x h' y\<close>: \<open>y\<close>, made in the memory \<open>h'\<close> from \<open>x\<close> in \<open>h\<close>, means what \<open>x\<close> means, and
  neither follows later changes to the other: to anything that existed before the copy, or to anything the
  copy allocated.
\<close>

definition snapshot_of :: "(memory \<Rightarrow> 'c \<Rightarrow> 'v) \<Rightarrow> memory \<Rightarrow> 'c \<Rightarrow> memory \<Rightarrow> 'c \<Rightarrow> bool" where
  "snapshot_of reads h x h' y \<longleftrightarrow>
     (\<forall>h''. same_on (- allocated h) h' h'' \<longrightarrow> reads h'' y = reads h x) \<and>
     (\<forall>h''. same_on (allocated h) h' h'' \<longrightarrow> reads h'' x = reads h x)"

lemma same_on_refl [simp]: "same_on A h h"
  by (simp add: same_on_def)

context deep_copier
begin

lemma pointer_copy:
  assumes "well_formed h" "ok h x"
  shows "\<exists>y h'. deep_copy_ptr copy (Some x) h = (Some y, h') \<and> snapshot_of reads h x h' y"
proof -
  obtain y h' where c: "copy x h = (y, h')" by (meson surj_pair)
  then show ?thesis using snapshot [OF assms c] by (auto simp: deep_copy_ptr_def snapshot_of_def)
qed

end

text \<open>
  C26. A deep copy is a snapshot. \<^verbatim>\<open>DeepCopy\<close> of a NodeGroup, of a CleverNodeClass and of a list of either
  succeeds and means the same as the original, and from then on the two are independent: no later write
  through one, to a label, an annotation, a condition, a taint or an element of the list, changes what the
  other means. A nil pointer is copied to nil, and the copy as a runtime object is the same copy.
\<close>

theorem deep_copies_are_snapshots:
  assumes "lawful_meta_copy cp" and "well_formed h"
  shows "(ok_group h g \<longrightarrow>
      (\<exists>y h'. NodeGroup_DeepCopy cp (Some g) h = (Some y, h') \<and> snapshot_of typed_group h g h' y)) \<and>
    (ok_class h c \<longrightarrow>
      (\<exists>y h'. CleverNodeClass_DeepCopy cp (Some c) h = (Some y, h') \<and> snapshot_of typed_class h c h' y)) \<and>
    (slice_ok as_groups ok_group h (glItems l) \<longrightarrow>
      (\<exists>y h'. NodeGroupList_DeepCopy cp (Some l) h = (Some y, h') \<and>
         snapshot_of (read_list as_groups typed_group) h l h' y)) \<and>
    (slice_ok as_classes ok_class h (glItems l) \<longrightarrow>
      (\<exists>y h'. CleverNodeClassList_DeepCopy cp (Some l) h = (Some y, h') \<and>
         snapshot_of (read_list as_classes typed_class) h l h' y)) \<and>
    NodeGroup_DeepCopy cp None h = (None, h) \<and> CleverNodeClass_DeepCopy cp None h = (None, h) \<and>
    NodeGroup_DeepCopyObject cp = NodeGroup_DeepCopy cp \<and> CleverNodeClass_DeepCopyObject cp = CleverNodeClass_DeepCopy cp"
  using deep_copier.pointer_copy [OF group_copier [OF assms(1)] assms(2)]
    deep_copier.pointer_copy [OF class_copier [OF assms(1)] assms(2)]
    deep_copier.pointer_copy [OF group_list_copier [OF assms(1)] assms(2)]
    deep_copier.pointer_copy [OF class_list_copier [OF assms(1)] assms(2)]
  by (simp add: NodeGroup_DeepCopy_def CleverNodeClass_DeepCopy_def NodeGroupList_DeepCopy_def
      CleverNodeClassList_DeepCopy_def deep_copy_ptr_def NodeGroup_DeepCopyObject_def CleverNodeClass_DeepCopyObject_def
      DeepCopyObject_same)

section \<open>The patch of the hash migration\<close>

text \<open>Go's \<^verbatim>\<open>m[k] = v\<close>: a write to the cell the map refers to, \<open>None\<close> where Go panics on a nil map.\<close>

definition assign_key :: "addr option \<Rightarrow> string \<Rightarrow> string \<Rightarrow> memory \<Rightarrow> memory option" where
  "assign_key r k v h =
     (case r of None \<Rightarrow> None
      | Some a \<Rightarrow> map_option (\<lambda>m. store_cell a (StringMap (AList.update k v m)) h) (deref as_map h r))"

text \<open>Three lines of \<^verbatim>\<open>migrateHashVersion\<close>: a copy to diff against, and two writes into the original's annotations.\<close>

definition stamp_in_place :: "meta_copy \<Rightarrow> string \<Rightarrow> go_group \<Rightarrow> memory \<Rightarrow> (go_group option \<times> memory) option" where
  "stamp_in_place cp hash ng h =
     (let (stored, h1) = NodeGroup_DeepCopy cp (Some ng) h in
      Option.bind (assign_key (gmAnnotations (ggMeta ng)) NodeClassHashLabelKey hash h1) (\<lambda>h2.
      Option.bind (assign_key (gmAnnotations (ggMeta ng)) NodeClassHashVersionAnnotationKey NodeClassHashVersion h2) (\<lambda>h3.
      Some (stored, h3))))"

text \<open>The annotations are not also the labels: a decoded object shares no map between two fields.\<close>

definition own_annotations :: "go_group \<Rightarrow> bool" where
  "own_annotations ng \<longleftrightarrow> gmAnnotations (ggMeta ng) \<notin>
     {gmLabels (ggMeta ng), gsLabels (ggSpec ng), gtLabels (ggStatus ng)}"

lemma assign_key_Some:
  assumes "deref as_map h (Some a) = Some m"
  shows "assign_key (Some a) k v h = Some (store_cell a (StringMap (AList.update k v m)) h)"
  using assms by (simp add: assign_key_def)

lemma deref_store [simp]: "deref as_map (store_cell a (StringMap m) h) (Some a) = Some m"
  by (simp add: deref_def store_cell_def)

lemma store_twice [simp]: "store_cell a c (store_cell a d h) = store_cell a c h"
  by (simp add: store_cell_def)

lemma as_map_only: "as_map c = Some m \<Longrightarrow> c = StringMap m"
  by (cases c) simp_all

lemma deref_other_kind:
  assumes "mmCells h a = Some (StringMap m)" "\<And>n. kind (StringMap n) = None" "typed kind h r"
  shows "deref kind (store_cell a (StringMap n) h) r = deref kind h r"
  using assms by (cases r) (auto simp: deref_def store_cell_def typed_def)

lemma deref_other_map: "r \<noteq> Some a \<Longrightarrow> deref kind (store_cell a c h) r = deref kind h r"
  by (cases r) (auto simp: deref_def store_cell_def)

text \<open>A write into the annotations of a group changes nothing else of what it means.\<close>

lemma read_group_annotated:
  assumes "ok_group h ng" "own_annotations ng" "gmAnnotations (ggMeta ng) = Some a" "mmCells h a = Some (StringMap m)"
  shows "read_group (store_cell a (StringMap m') h) ng =
    read_group h ng\<lparr>ngMeta := ngMeta (read_group h ng)\<lparr>omAnnotations := map_of m'\<rparr>\<rparr>"
proof -
  let ?h = "store_cell a (StringMap m') h"
  have "deref as_map ?h (gmLabels (ggMeta ng)) = deref as_map h (gmLabels (ggMeta ng))"
      "deref as_map ?h (gsLabels (ggSpec ng)) = deref as_map h (gsLabels (ggSpec ng))"
      "deref as_map ?h (gtLabels (ggStatus ng)) = deref as_map h (gtLabels (ggStatus ng))"
    using assms(2,3) unfolding own_annotations_def by (auto intro!: deref_other_map)
  moreover have "deref as_owners ?h (gmOwners (ggMeta ng)) = deref as_owners h (gmOwners (ggMeta ng))"
      "deref as_strings ?h (gmFinalizers (ggMeta ng)) = deref as_strings h (gmFinalizers (ggMeta ng))"
      "deref as_taints ?h (gsTaints (ggSpec ng)) = deref as_taints h (gsTaints (ggSpec ng))"
      "deref as_taints ?h (gtTaints (ggStatus ng)) = deref as_taints h (gtTaints (ggStatus ng))"
      "deref as_conditions ?h (gtConditions (ggStatus ng)) = deref as_conditions h (gtConditions (ggStatus ng))"
    using assms(1) unfolding ok_group_def ok_meta_def ok_spec_def ok_status_def
    by (auto intro!: deref_other_kind [OF assms(4)])
  ultimately show ?thesis
    by (simp add: read_group_def read_meta_def read_spec_def read_status_def items_def assms(3))
qed

text \<open>
  C27. The migration's patch is the intended one. The controller copies a listed group and then stamps the
  original in place; with the group's annotations present, as its guard demands, no step panics, the copy
  still means the group as it was listed, and the original means exactly the restamped group, so that the
  patch computed from the two writes the two hash annotations and nothing else.
\<close>

theorem migration_patch_is_a_diff:
  assumes "lawful_meta_copy cp" "well_formed h" "ok_group h ng" "own_annotations ng"
    and "omAnnotations (ngMeta (read_group h ng)) NodeClassHashLabelKey = Some old"
  shows "\<exists>stored h'. stamp_in_place cp (Hash (peRules E) (peHash E) (clLabels class)) ng h = Some (Some stored, h') \<and>
    read_group h' stored = read_group h ng \<and> read_group h' ng = restamp E class (read_group h ng)"
proof -
  let ?hash = "Hash (peRules E) (peHash E) (clLabels class)"
  obtain a m where a: "gmAnnotations (ggMeta ng) = Some a" "deref as_map h (Some a) = Some m"
    using assms(5) by (cases "gmAnnotations (ggMeta ng)"; cases "deref as_map h (gmAnnotations (ggMeta ng))")
      (auto simp: read_group_def read_meta_def items_def deref_def)
  obtain y h1 where c: "NodeGroup_DeepCopyInto cp ng h = (y, h1)" by (meson surj_pair)
  note g = group_copier [OF assms(1)]
  note cp = deep_copier.copied [OF g assms(2,3) c]
  have kept: "ok_group h1 ng" "typed_group h1 ng = typed_group h ng"
    using deep_copier.still_ok [OF g assms(3), of h1] cp by simp_all
  have a1: "deref as_map h1 (Some a) = Some m" and a0: "a \<in> allocated h"
  proof -
    from a(2) obtain d where d: "mmCells h a = Some d" "as_map d = Some m" by (auto simp: deref_Some)
    then show "a \<in> allocated h" by (auto simp: allocated_def)
    with d cp show "deref as_map h1 (Some a) = Some m" by (simp add: deref_Some grown_def)
  qed
  define m' where "m' = AList.update NodeClassHashVersionAnnotationKey NodeClassHashVersion (AList.update NodeClassHashLabelKey ?hash m)"
  define h' where "h' = store_cell a (StringMap m') h1"
  have run: "stamp_in_place cp ?hash ng h = Some (Some y, h')"
    by (simp add: stamp_in_place_def NodeGroup_DeepCopy_def deep_copy_ptr_def c a(1) assign_key_Some [OF a1]
        assign_key_Some [OF deref_store] h'_def m'_def)
  have "same_on (- allocated h) h1 h'" using a0 by (auto simp: same_on_def h'_def store_cell_def)
  then have stored: "typed_group h' y = typed_group h ng" by (rule deep_copier.snapshot(1) [OF g assms(2,3) c])
  have cell: "mmCells h1 a = Some (StringMap m)" using a1 as_map_only by (auto simp: deref_Some)
  have "omAnnotations (ngMeta (read_group h1 ng)) = map_of m"
    using a1 by (simp add: read_group_def read_meta_def items_def a(1))
  then have "read_group h' ng = restamp E class (read_group h1 ng)"
    unfolding h'_def read_group_annotated [OF kept(1) assms(4) a(1) cell] by (simp add: restamp_def m'_def update_conv')
  then show ?thesis using run stored kept(2) by (auto simp: typed_group_def)
qed

section \<open>An example\<close>

text \<open>A copy of metadata that keeps the contract, and a listed group in a memory of two cells.\<close>

definition example_meta_copy :: meta_copy where
  "example_meta_copy m h =
     (let (labels, h1) = copy_map (gmLabels m) h; (annotations, h2) = copy_map (gmAnnotations m) h1;
          (owners, h3) = copy_slice as_owners Owners (\<lambda>x h. (x, h)) (gmOwners m) h2;
          (finalizers, h4) = copy_slice as_strings Strings (\<lambda>x h. (x, h)) (gmFinalizers m) h3
      in (m\<lparr>gmLabels := labels, gmAnnotations := annotations, gmOwners := owners, gmFinalizers := finalizers\<rparr>, h4))"

lemma example_meta_copy_lawful: "lawful_meta_copy example_meta_copy"
proof -
  have "deep_copier example_meta_copy read_meta
      (\<lambda>h x. (\<lambda>(l, p). set_option l \<union> (\<lambda>(a, q). set_option a \<union> (\<lambda>(ow, f). set_option ow \<union> set_option f) q) p)
         (gmLabels x, gmAnnotations x, gmOwners x, gmFinalizers x))
      (\<lambda>h x. (\<lambda>(l, p). typed as_map h l \<and> (\<lambda>(a, q). typed as_map h a \<and> (\<lambda>(ow, f). typed as_owners h ow \<and> typed as_strings h f) q) p)
         (gmLabels x, gmAnnotations x, gmOwners x, gmFinalizers x))"
    by (rule struct_copier [OF pair_copier [OF map_copier pair_copier [OF map_copier
            pair_copier [OF plain_slice_copier [of as_owners Owners] plain_slice_copier [of as_strings Strings]]]],
          where parts = "\<lambda>x. (gmLabels x, gmAnnotations x, gmOwners x, gmFinalizers x)"
          and rebuild = "\<lambda>x (l, a, ow, f). x\<lparr>gmLabels := l, gmAnnotations := a, gmOwners := ow, gmFinalizers := f\<rparr>"
          and g = "\<lambda>x (l, a, ow, f). \<lparr>omName = gmName x, omUID = gmUID x, omResourceVersion = gmResourceVersion x,
            omLabels = map_of (items l), omAnnotations = map_of (items a), omOwners = items ow, omFinalizers = items f,
            omCreated = gmCreated x, omDeleted = gmDeleted x\<rparr>"])
      (auto simp: example_meta_copy_def read_meta_def fun_eq_iff split: prod.splits)
  then show ?thesis by (simp add: lawful_meta_copy_def reach_meta_def [abs_def] ok_meta_def [abs_def])
qed

definition example_memory_cells :: memory where
  "example_memory_cells =
     \<lparr>mmCells = [0 \<mapsto> StringMap [(NodeClassHashLabelKey, ''12'')], 1 \<mapsto> Taints [zero_taint]], mmNext = 2\<rparr>"

definition example_go_group :: go_group where
  "example_go_group =
     \<lparr>ggType = \<lparr>tmKind = ''NodeGroup'', tmAPIVersion = ''api.clever-cloud.com/v1''\<rparr>,
      ggMeta = \<lparr>gmName = ''pool-a'', gmUID = ''u1'', gmResourceVersion = ''7'', gmLabels = None, gmAnnotations = Some 0,
        gmOwners = None, gmFinalizers = None, gmCreated = 0, gmDeleted = None\<rparr>,
      ggSpec = \<lparr>gsFlavor = ''XS'', gsNodeCount = 1, gsLabels = None, gsTaints = Some 1\<rparr>,
      ggStatus = \<lparr>gtConditions = None, gtNodeCount = 0, gtTargetNodeCount = 0, gtPhase = '''', gtUpstreamID = '''',
        gtLabels = None, gtTaints = None\<rparr>\<rparr>"

lemma example_memory_ok: "well_formed example_memory_cells" "ok_group example_memory_cells example_go_group"
  "own_annotations example_go_group"
  by (auto simp: well_formed_def allocated_def example_memory_cells_def ok_group_def ok_meta_def ok_spec_def ok_status_def
      own_annotations_def example_go_group_def typed_def deref_def split: if_splits)

theorem deep_copies_are_snapshots_witness:
  "\<exists>y h'. NodeGroup_DeepCopy example_meta_copy (Some example_go_group) example_memory_cells = (Some y, h') \<and>
     snapshot_of typed_group example_memory_cells example_go_group h' y"
  using deep_copies_are_snapshots [OF example_meta_copy_lawful example_memory_ok(1)] example_memory_ok(2) by blast

theorem migration_patch_is_a_diff_witness:
  "\<exists>stored h'. stamp_in_place example_meta_copy (Hash (peRules example_env) (peHash example_env) (Some [])) example_go_group
      example_memory_cells = Some (Some stored, h') \<and>
     ngSpec (read_group h' stored) = \<lparr>nsFlavor = ''XS'', nsNodeCount = 1, nsLabels = Map.empty, nsTaints = [zero_taint]\<rparr>"
proof -
  let ?cls = "\<lparr>clMeta = meta0, clLabels = Some [], clConditions = Map.empty\<rparr>"
  have "omAnnotations (ngMeta (read_group example_memory_cells example_go_group)) NodeClassHashLabelKey = Some ''12''"
    by (simp add: read_group_def read_meta_def example_go_group_def example_memory_cells_def deref_def items_def)
  from migration_patch_is_a_diff [OF example_meta_copy_lawful example_memory_ok this, of example_env ?cls]
  obtain stored h' where "stamp_in_place example_meta_copy (Hash (peRules example_env) (peHash example_env) (Some []))
      example_go_group example_memory_cells = Some (Some stored, h')"
    "read_group h' stored = read_group example_memory_cells example_go_group" by auto
  then show ?thesis
    by (auto simp: read_group_def read_spec_def example_go_group_def example_memory_cells_def deref_def items_def)
qed

end
