(* ===== verification/Metrics.thy ===== *)
theory Metrics
  imports CatalogueFeeds
begin

text \<open>
  \<^verbatim>\<open>src/pkg/metrics/metrics.go\<close>: the provider's Prometheus series, and what a scrape of the process shows.
  The components of this development leave what they do to a series in their trace of effects; here the
  trace is read as the calls it stands for. The Prometheus client is not this repository's code: a store of
  series is a parameter (\<open>meter_lib\<close>), with its documented behaviour as laws. Help texts and the stability
  level of a series are not modelled.
\<close>

section \<open>The series\<close>

datatype kind = CounterKind | GaugeKind

record opts =
  opKind :: kind
  opNamespace :: string
  opSubsystem :: string
  opName :: string

definition namespace :: string where
  "namespace = ''karpenter_clevercloud''"

definition NewPrometheusCounter :: "string \<Rightarrow> string \<Rightarrow> opts" where
  "NewPrometheusCounter subsystem n =
     \<lparr>opKind = CounterKind, opNamespace = namespace, opSubsystem = subsystem, opName = n\<rparr>"

definition NewPrometheusGauge :: "string \<Rightarrow> string \<Rightarrow> opts" where
  "NewPrometheusGauge subsystem n =
     \<lparr>opKind = GaugeKind, opNamespace = namespace, opSubsystem = subsystem, opName = n\<rparr>"

definition hostEphemeralStorageReady :: opts where
  "hostEphemeralStorageReady = NewPrometheusGauge ''instancetype'' ''host_ephemeral_storage_ready''"
definition hostEphemeralStorageCapacity :: opts where
  "hostEphemeralStorageCapacity = NewPrometheusGauge ''instancetype'' ''host_ephemeral_storage_capacity_bytes''"
definition hostEphemeralStorageAllocatable :: opts where
  "hostEphemeralStorageAllocatable = NewPrometheusGauge ''instancetype'' ''host_ephemeral_storage_allocatable_bytes''"
definition nodeGroupAcceptanceTimeouts :: opts where
  "nodeGroupAcceptanceTimeouts = NewPrometheusCounter ''nodegroup'' ''acceptance_timeouts_total''"
definition nodeGroupQuotaRejections :: opts where
  "nodeGroupQuotaRejections = NewPrometheusCounter ''nodegroup'' ''quota_rejections_total''"
definition nodeGroupVanished :: opts where
  "nodeGroupVanished = NewPrometheusCounter ''nodegroup'' ''vanished_total''"
definition nodeGroupRejections :: opts where
  "nodeGroupRejections = NewPrometheusCounter ''nodegroup'' ''rejections_total''"
definition nodeGroupSyncOverdue :: opts where
  "nodeGroupSyncOverdue = NewPrometheusGauge ''nodegroup'' ''sync_overdue''"
definition nodeGroupDeletionOverdue :: opts where
  "nodeGroupDeletionOverdue = NewPrometheusGauge ''nodegroup'' ''deletion_overdue''"
definition nodeGroupExternalResizes :: opts where
  "nodeGroupExternalResizes = NewPrometheusGauge ''nodegroup'' ''external_resizes''"
definition gcReapedNodeGroups :: opts where
  "gcReapedNodeGroups = NewPrometheusCounter ''gc'' ''reaped_nodegroups_total''"
definition gcRefusedNodeGroups :: opts where
  "gcRefusedNodeGroups = NewPrometheusGauge ''gc'' ''refused_nodegroups''"
definition flavorsConfigInvalid :: opts where
  "flavorsConfigInvalid = NewPrometheusGauge ''instancetype'' ''flavors_config_invalid''"
definition unknownFlavorLookups :: opts where
  "unknownFlavorLookups = NewPrometheusCounter ''instancetype'' ''unknown_flavor_lookups_total''"
definition observedCapacityRejections :: opts where
  "observedCapacityRejections = NewPrometheusCounter ''instancetype'' ''observed_capacity_rejections_total''"

lemmas opts_defs = hostEphemeralStorageReady_def hostEphemeralStorageCapacity_def hostEphemeralStorageAllocatable_def
  nodeGroupAcceptanceTimeouts_def nodeGroupQuotaRejections_def nodeGroupVanished_def nodeGroupRejections_def
  nodeGroupSyncOverdue_def nodeGroupDeletionOverdue_def nodeGroupExternalResizes_def gcReapedNodeGroups_def
  gcRefusedNodeGroups_def flavorsConfigInvalid_def unknownFlavorLookups_def observedCapacityRejections_def
  NewPrometheusCounter_def NewPrometheusGauge_def namespace_def

text \<open>A series of the process: the package's variables, by the names the components use.\<close>

datatype series = CounterSeries counter | GaugeSeries gauge

fun opts_of :: "series \<Rightarrow> opts" where
  "opts_of (CounterSeries NodeGroupAcceptanceTimeouts) = nodeGroupAcceptanceTimeouts"
| "opts_of (CounterSeries NodeGroupQuotaRejections) = nodeGroupQuotaRejections"
| "opts_of (CounterSeries NodeGroupVanished) = nodeGroupVanished"
| "opts_of (CounterSeries NodeGroupRejections) = nodeGroupRejections"
| "opts_of (CounterSeries GCReapedNodeGroups) = gcReapedNodeGroups"
| "opts_of (CounterSeries UnknownFlavorLookups) = unknownFlavorLookups"
| "opts_of (CounterSeries ObservedCapacityRejections) = observedCapacityRejections"
| "opts_of (GaugeSeries NodeGroupSyncOverdue) = nodeGroupSyncOverdue"
| "opts_of (GaugeSeries NodeGroupDeletionOverdue) = nodeGroupDeletionOverdue"
| "opts_of (GaugeSeries NodeGroupExternalResizes) = nodeGroupExternalResizes"
| "opts_of (GaugeSeries GCRefusedNodeGroups) = gcRefusedNodeGroups"
| "opts_of (GaugeSeries FlavorsConfigInvalid) = flavorsConfigInvalid"
| "opts_of (GaugeSeries HostEphemeralStorageReady) = hostEphemeralStorageReady"
| "opts_of (GaugeSeries HostEphemeralStorageCapacity) = hostEphemeralStorageCapacity"
| "opts_of (GaugeSeries HostEphemeralStorageAllocatable) = hostEphemeralStorageAllocatable"

text \<open>The name a series is registered and scraped under.\<close>

definition fq_name :: "series \<Rightarrow> string" where
  "fq_name x = opNamespace (opts_of x) @ ''_'' @ opSubsystem (opts_of x) @ ''_'' @ opName (opts_of x)"

text \<open>The package's variables, in the order Go initialises them, which registers each.\<close>

definition declared :: "series list" where
  "declared =
     [GaugeSeries HostEphemeralStorageReady, GaugeSeries HostEphemeralStorageCapacity,
      GaugeSeries HostEphemeralStorageAllocatable, CounterSeries NodeGroupAcceptanceTimeouts,
      CounterSeries NodeGroupQuotaRejections, CounterSeries NodeGroupVanished, CounterSeries NodeGroupRejections,
      GaugeSeries NodeGroupSyncOverdue, GaugeSeries NodeGroupDeletionOverdue, GaugeSeries NodeGroupExternalResizes,
      CounterSeries GCReapedNodeGroups, GaugeSeries GCRefusedNodeGroups, GaugeSeries FlavorsConfigInvalid,
      CounterSeries UnknownFlavorLookups, CounterSeries ObservedCapacityRejections]"

section \<open>A store of series\<close>

text \<open>
  \<^verbatim>\<open>Add\<close> on a counter and \<^verbatim>\<open>Set\<close> on a gauge, without labels; \<open>mtValue\<close> is what a scrape shows, \<open>None\<close> for a
  series nothing has touched yet.
\<close>

record 'm meter_lib =
  mtAdd :: "counter \<Rightarrow> rat \<Rightarrow> 'm \<Rightarrow> 'm"
  mtSet :: "gauge \<Rightarrow> rat \<Rightarrow> 'm \<Rightarrow> 'm"
  mtValue :: "'m \<Rightarrow> series \<Rightarrow> rat option"
  mtEmpty :: 'm

definition lawful_meter :: "'m meter_lib \<Rightarrow> bool" where
  "lawful_meter M \<longleftrightarrow>
     (\<forall>c x m. mtValue M (mtAdd M c x m) = (mtValue M m)(CounterSeries c \<mapsto>
        x + (case mtValue M m (CounterSeries c) of None \<Rightarrow> 0 | Some y \<Rightarrow> y))) \<and>
     (\<forall>g x m. mtValue M (mtSet M g x m) = (mtValue M m)(GaugeSeries g \<mapsto> x)) \<and>
     mtValue M (mtEmpty M) = Map.empty"

text \<open>The package's \<^verbatim>\<open>init\<close>, on the series the variables made.\<close>

definition metrics_init :: "'m meter_lib \<Rightarrow> 'm \<Rightarrow> 'm" where
  "metrics_init M m0 =
     (let m1 = mtAdd M NodeGroupAcceptanceTimeouts 0 m0;
          m2 = mtAdd M NodeGroupQuotaRejections 0 m1;
          m3 = mtAdd M NodeGroupRejections 0 m2;
          m4 = mtAdd M NodeGroupVanished 0 m3;
          m5 = mtSet M NodeGroupExternalResizes 0 m4;
          m6 = mtSet M NodeGroupSyncOverdue 0 m5;
          m7 = mtSet M NodeGroupDeletionOverdue 0 m6;
          m8 = mtSet M FlavorsConfigInvalid 0 m7;
          m9 = mtAdd M GCReapedNodeGroups 0 m8;
          m10 = mtSet M GCRefusedNodeGroups 0 m9;
          m11 = mtAdd M UnknownFlavorLookups 0 m10
      in mtAdd M ObservedCapacityRejections 0 m11)"

text \<open>The calls an effect stands for: \<^verbatim>\<open>Inc\<close> is \<^verbatim>\<open>Add(1)\<close>.\<close>

fun absorb :: "'m meter_lib \<Rightarrow> effect \<Rightarrow> 'm \<Rightarrow> 'm" where
  "absorb M (Count c) m = mtAdd M c 1 m"
| "absorb M (SetGauge g x) m = mtSet M g x m"
| "absorb M _ m = m"

definition scraped :: "'m meter_lib \<Rightarrow> effect list \<Rightarrow> series \<Rightarrow> rat option" where
  "scraped M es = mtValue M (fold (absorb M) es (metrics_init M (mtEmpty M)))"

definition host_gauges :: "gauge set" where
  "host_gauges = {HostEphemeralStorageReady, HostEphemeralStorageCapacity, HostEphemeralStorageAllocatable}"

definition counted :: "counter \<Rightarrow> effect list \<Rightarrow> nat" where
  "counted c es = length (filter (\<lambda>e. e = Count c) es)"

section \<open>What a scrape shows\<close>

lemma all_declared: "x \<in> set declared"
proof (cases x)
  case (CounterSeries c)
  then show ?thesis by (cases c) (simp_all add: declared_def)
next
  case (GaugeSeries g)
  then show ?thesis by (cases g) (simp_all add: declared_def)
qed

lemma opKind_of [simp]:
  "opKind (opts_of (CounterSeries c)) = CounterKind" "opKind (opts_of (GaugeSeries g)) = GaugeKind"
  by (cases c; simp add: opts_defs) (cases g; simp add: opts_defs)

lemma seeds:
  assumes "lawful_meter M"
  shows "mtValue M (metrics_init M (mtEmpty M)) (CounterSeries c) = Some 0"
    and "mtValue M (metrics_init M (mtEmpty M)) (GaugeSeries g) = (if g \<in> host_gauges then None else Some 0)"
proof -
  have add: "mtValue M (mtAdd M c x m) = (mtValue M m)(CounterSeries c \<mapsto>
        x + (case mtValue M m (CounterSeries c) of None \<Rightarrow> 0 | Some y \<Rightarrow> y))"
    and set: "mtValue M (mtSet M g x m) = (mtValue M m)(GaugeSeries g \<mapsto> x)"
    and empty: "mtValue M (mtEmpty M) = Map.empty" for c g x m
    using assms by (simp_all add: lawful_meter_def)
  show "mtValue M (metrics_init M (mtEmpty M)) (CounterSeries c) = Some 0"
    by (cases c) (simp_all add: metrics_init_def Let_def add set empty)
  show "mtValue M (metrics_init M (mtEmpty M)) (GaugeSeries g) = (if g \<in> host_gauges then None else Some 0)"
    by (cases g) (simp_all add: metrics_init_def Let_def add set empty host_gauges_def)
qed

lemma scraped_step:
  assumes "lawful_meter M"
  shows "scraped M (es @ [e]) = (case e of
      Count c \<Rightarrow> (scraped M es)(CounterSeries c \<mapsto> 1 + (case scraped M es (CounterSeries c) of None \<Rightarrow> 0 | Some y \<Rightarrow> y))
    | SetGauge g x \<Rightarrow> (scraped M es)(GaugeSeries g \<mapsto> x)
    | _ \<Rightarrow> scraped M es)"
  using assms by (cases e) (simp_all add: scraped_def lawful_meter_def)

lemma gauge_value_snoc:
  "gauge_value g (es @ [e]) = (case e of SetGauge g' x \<Rightarrow> if g' = g then Some x else gauge_value g es | _ \<Rightarrow> gauge_value g es)"
  by (cases e) (simp_all add: gauge_value_def)

lemma scraped_counter:
  assumes "lawful_meter M"
  shows "scraped M es (CounterSeries c) = Some (of_nat (counted c es))"
proof (induction es rule: rev_induct)
  case Nil
  then show ?case by (simp add: scraped_def seeds(1) [OF assms] counted_def)
next
  case (snoc e es)
  then show ?case by (cases e) (auto simp: scraped_step [OF assms] counted_def)
qed

lemma scraped_gauge:
  assumes "lawful_meter M"
  shows "scraped M es (GaugeSeries g) =
    (case gauge_value g es of Some x \<Rightarrow> Some x | None \<Rightarrow> if g \<in> host_gauges then None else Some 0)"
proof (induction es rule: rev_induct)
  case Nil
  then show ?case by (simp add: scraped_def seeds(2) [OF assms] gauge_value_def)
next
  case (snoc e es)
  then show ?case by (cases e) (simp_all add: scraped_step [OF assms] gauge_value_snoc)
qed

lemma fq_name_injective: "distinct (map fq_name declared)"
  by (simp add: declared_def fq_name_def opts_defs)

text \<open>
  Every series exists once, from the first scrape. No two of the fifteen series share a registered name, so
  that registering them cannot fail; every series the components count on or set is one of them, of its kind;
  and whatever the process has done, a scrape shows every counter with the number of times it was
  incremented, and every gauge with the value it was set to last, or zero if it never was, except the three
  about the host's disk, which are absent until they are set.
\<close>

theorem every_series_is_scraped:
  assumes "lawful_meter M"
  shows "distinct (map fq_name declared) \<and> x \<in> set declared \<and>
    opKind (opts_of x) = (case x of CounterSeries c \<Rightarrow> CounterKind | GaugeSeries g \<Rightarrow> GaugeKind) \<and>
    scraped M es x = (case x of
        CounterSeries c \<Rightarrow> Some (of_nat (counted c es))
      | GaugeSeries g \<Rightarrow> (case gauge_value g es of
            Some v \<Rightarrow> Some v | None \<Rightarrow> if g \<in> host_gauges then None else Some 0))"
  by (cases x) (simp_all add: all_declared fq_name_injective scraped_counter [OF assms] scraped_gauge [OF assms])

text \<open>A store that keeps the laws: a map.\<close>

definition map_meter :: "(series \<rightharpoonup> rat) meter_lib" where
  "map_meter =
     \<lparr>mtAdd = (\<lambda>c x m. m(CounterSeries c \<mapsto> x + (case m (CounterSeries c) of None \<Rightarrow> 0 | Some y \<Rightarrow> y))),
      mtSet = (\<lambda>g x m. m(GaugeSeries g \<mapsto> x)), mtValue = (\<lambda>m. m), mtEmpty = Map.empty\<rparr>"

lemma map_meter_lawful: "lawful_meter map_meter"
  by (simp add: lawful_meter_def map_meter_def)

theorem every_series_is_scraped_witness:
  "scraped map_meter [Count NodeGroupVanished, Count NodeGroupVanished] (CounterSeries NodeGroupVanished) = Some 2 \<and>
   scraped map_meter [] (GaugeSeries FlavorsConfigInvalid) = Some 0 \<and>
   scraped map_meter [] (GaugeSeries HostEphemeralStorageReady) = None"
  using every_series_is_scraped [OF map_meter_lawful, of "CounterSeries NodeGroupVanished" "[Count NodeGroupVanished, Count NodeGroupVanished]"]
    every_series_is_scraped [OF map_meter_lawful, of "GaugeSeries FlavorsConfigInvalid" "[]"]
    every_series_is_scraped [OF map_meter_lawful, of "GaugeSeries HostEphemeralStorageReady" "[]"]
  by (simp add: counted_def gauge_value_def host_gauges_def)

section \<open>One writer per gauge\<close>

definition sets_gauge :: "gauge \<Rightarrow> effect \<Rightarrow> bool" where
  "sets_gauge g e \<longleftrightarrow> (\<exists>x. e = SetGauge g x)"

text \<open>
  \<open>interleaving ess es\<close>: the goroutines of the process have the effects \<open>ess\<close>, each in its program order, and
  \<open>es\<close> is one order in which they happened.
\<close>

inductive interleaving :: "effect list list \<Rightarrow> effect list \<Rightarrow> bool" where
  all_done: "\<forall>xs \<in> set ess. xs = [] \<Longrightarrow> interleaving ess []"
| one_step: "i < length ess \<Longrightarrow> ess ! i = e # xs \<Longrightarrow> interleaving (ess[i := xs]) es \<Longrightarrow> interleaving ess (e # es)"

lemma gauge_value_filter: "gauge_value g es = gauge_value g (filter (sets_gauge g) es)"
proof (induction es rule: rev_induct)
  case (snoc e es)
  then show ?case by (cases e) (auto simp: gauge_value_snoc sets_gauge_def)
qed simp

lemma interleaving_filter:
  assumes "interleaving ess es" and "i < length ess" and "\<forall>j < length ess. j \<noteq> i \<longrightarrow> (\<forall>e \<in> set (ess ! j). \<not> P e)"
  shows "filter P es = filter P (ess ! i)"
  using assms
proof (induction rule: interleaving.induct)
  case (all_done ess)
  then have "ess ! i = []" by simp
  then show ?case by simp
next
  case (one_step j ess e xs es)
  have "filter P es = filter P (ess[j := xs] ! i)"
    using one_step.prems one_step.hyps(1,2)
    by (intro one_step.IH) (auto simp: nth_list_update dest: in_set_takeD)
  then show ?case
    using one_step.prems one_step.hyps(1,2) by (cases "i = j") (auto simp: nth_list_update)
qed

lemma gauge_of_its_writer:
  assumes "interleaving ess es" and "i < length ess" and "\<forall>j < length ess. j \<noteq> i \<longrightarrow> list_all (\<lambda>e. \<not> sets_gauge g e) (ess ! j)"
  shows "gauge_value g es = gauge_value g (ess ! i)"
  using interleaving_filter [OF assms(1,2), of "sets_gauge g"] assms(3)
  by (metis (no_types, lifting) gauge_value_filter list_all_iff)

end
