(* ===== verification/Writes.thy ===== *)
theory Writes
  imports Metrics NodeClassController NodeGroupStatus MachineLifecycle ProviderIdController GarbageCollection CatalogueFeeds
begin

text \<open>
  Who writes what: the kind of every effect, and for each entry point of the process the kinds it can
  have. A launch creates and deletes NodeGroups, the collector deletes NodeGroups and NodeClaims, the
  status controller deletes NodeClaims, the provider ID controller patches nodes, the NodeClass
  controller patches NodeClasses and NodeGroups, and the others write nothing to the API.
\<close>

section \<open>Kinds of effects\<close>

datatype act = Reads | Reports | Sets gauge | CreatesNG | DeletesNG | PatchesNG | DeletesClaim
  | PatchesClass | PatchesClassStatus | PatchesNode

fun act_of :: "effect \<Rightarrow> act" where
  "act_of (ReadNG rd n a) = Reads"
| "act_of (CreatedNG ng a) = CreatesNG"
| "act_of (DeletedNG n d) = DeletesNG"
| "act_of (PatchedNG old new d) = PatchesNG"
| "act_of (ReadClaim rd n a) = Reads"
| "act_of (DeletedClaim c p d) = DeletesClaim"
| "act_of (ReadClass rd n a) = Reads"
| "act_of (PatchedClass old new a) = PatchesClass"
| "act_of (PatchedClassStatus old new d) = PatchesClassStatus"
| "act_of (ReadPool n a) = Reads"
| "act_of (ReadNode rd n a) = Reads"
| "act_of (PatchedNode old new d) = PatchesNode"
| "act_of (ListedNG sel a) = Reads"
| "act_of (ListedClaims a) = Reads"
| "act_of (ListedNodes sel a) = Reads"
| "act_of (Count c) = Reports"
| "act_of (SetGauge g x) = Sets g"
| "act_of (Publish ev) = Reports"
| "act_of (Logged m n) = Reports"

definition acts_in :: "act set \<Rightarrow> effect \<Rightarrow> bool" where
  "acts_in S e \<longleftrightarrow> act_of e \<in> S"

lemma acts_in_simps [simp]:
  "acts_in S (ReadNG rd n a1) \<longleftrightarrow> Reads \<in> S" "acts_in S (CreatedNG ng a2) \<longleftrightarrow> CreatesNG \<in> S"
  "acts_in S (DeletedNG n d) \<longleftrightarrow> DeletesNG \<in> S" "acts_in S (PatchedNG old new d) \<longleftrightarrow> PatchesNG \<in> S"
  "acts_in S (ReadClaim rd n a3) \<longleftrightarrow> Reads \<in> S" "acts_in S (DeletedClaim c p d) \<longleftrightarrow> DeletesClaim \<in> S"
  "acts_in S (ReadClass rd n a4) \<longleftrightarrow> Reads \<in> S" "acts_in S (PatchedClass old' new' a5) \<longleftrightarrow> PatchesClass \<in> S"
  "acts_in S (PatchedClassStatus old' new' d) \<longleftrightarrow> PatchesClassStatus \<in> S" "acts_in S (ReadPool n a6) \<longleftrightarrow> Reads \<in> S"
  "acts_in S (ReadNode rd n a7) \<longleftrightarrow> Reads \<in> S" "acts_in S (PatchedNode nd nd' d) \<longleftrightarrow> PatchesNode \<in> S"
  "acts_in S (ListedNG sel a8) \<longleftrightarrow> Reads \<in> S" "acts_in S (ListedClaims a9) \<longleftrightarrow> Reads \<in> S"
  "acts_in S (ListedNodes sel a10) \<longleftrightarrow> Reads \<in> S" "acts_in S (Count k) \<longleftrightarrow> Reports \<in> S"
  "acts_in S (SetGauge g x) \<longleftrightarrow> Sets g \<in> S" "acts_in S (Publish ev) \<longleftrightarrow> Reports \<in> S"
  "acts_in S (Logged m n) \<longleftrightarrow> Reports \<in> S"
  by (simp_all add: acts_in_def)

lemma acts_in_event [simp]:
  "acts_in S (groupEvent w r ng a d) \<longleftrightarrow> Reports \<in> S" "acts_in S (claimEvent w r c a) \<longleftrightarrow> Reports \<in> S"
  by (simp_all add: groupEvent_def claimEvent_def)

lemma acts_mono: "only (acts_in S) s s' \<Longrightarrow> S \<subseteq> T \<Longrightarrow> only (acts_in T) s s'"
  by (rule only_mono [where P = "acts_in S"]) (auto simp: acts_in_def)

lemmas case_splits = sum.splits option.splits prod.splits if_splits

section \<open>The cloud provider\<close>

text \<open>In the form \<^verbatim>\<open>elim\<close> chains: what was only so before the call still is after it.\<close>

lemma acts_describe:
  assumes "resolveNodeGroupInstanceType C ng warned t = (it, w, s')" "only (acts_in S) s t" "Reports \<in> S"
  shows "only (acts_in S) s s'"
proof -
  have "only (acts_in S) t s'"
    by (rule only_mono [where P = noting]) (use resolveNodeGroupInstanceType_spec [OF assms(1)] assms(3) in \<open>auto simp: noting_def\<close>)
  with assms(2) show ?thesis by (rule only_trans)
qed

lemma acts_build: "buildNodeClaim C ng it t = (d, s') \<Longrightarrow> only (acts_in S) s t \<Longrightarrow> Reports \<in> S \<Longrightarrow> only (acts_in S) s s'"
  by (auto simp: buildNodeClaim_def Let_def split: sum.splits option.splits intro!: only_intros)

lemma acts_pick: "resolveInstanceType C K claim t = (r, s') \<Longrightarrow> only (acts_in S) s t \<Longrightarrow> Reads \<in> S \<Longrightarrow> only (acts_in S) s s'"
  by (auto simp: resolveInstanceType_def call_defs Let_def split: case_splits elim!: only_call intro!: only_intros)

lemma acts_resolve:
  assumes "resolve_create C K claim warned s = (r, w, s')" "{Reads, Reports} \<subseteq> S"
  shows "only (acts_in S) s s'"
  using assms
  by (auto simp: resolve_create_def existingDiskLaunch_def resolveLaunch_def checkNodeClaimWanted_def
      resolveNodeClassFromNodeClaim_def call_defs Let_def
      split: case_splits pick_error.splits elim!: only_call acts_pick acts_describe intro!: only_intros)

lemma acts_follow:
  "follow E K claim ng observed rd mark s = (r, s') \<Longrightarrow> {Reads, Reports, DeletesNG} \<subseteq> S \<Longrightarrow> only (acts_in S) s s'"
  by (erule only_follow) simp_all

lemma acts_obtain:
  "obtain_group E K claim l s = (r, s') \<Longrightarrow> {Reads, Reports, CreatesNG} \<subseteq> S \<Longrightarrow> only (acts_in S) s s'"
  by (auto simp: obtain_group_def refuseFlavorAtAdmission_def call_defs Let_def
      split: case_splits elim!: only_call intro!: only_intros)

abbreviation launching :: "act set" where
  "launching \<equiv> {Reads, Reports, CreatesNG, DeletesNG}"

lemma acts_launch:
  assumes "ResolveAndCreate E K claim (\<lambda>_. (Inr l, t)) s = (r, s')"
  shows "only (acts_in launching) t s'"
  by (rule ResolveAndCreate_cases [OF refl assms])
    (auto dest: acts_obtain [where S = launching] acts_follow [where S = launching] intro: only_trans)

lemma acts_create:
  assumes "CreateClaim C K claim warned s = (r, w, s')"
  shows "only (acts_in launching) s s'"
  using assms
  by (auto simp: CreateClaim_def Let_def split: case_splits dest!: acts_resolve [where S = launching] acts_launch
      elim!: acts_build acts_describe only_trans intro!: only_intros)

abbreviation describing_acts :: "act set" where
  "describing_acts \<equiv> {Reads, Reports}"

lemma acts_get: "GetClaim C K pid warned s = (r, w, s') \<Longrightarrow> only (acts_in describing_acts) s s'"
  by (auto simp: GetClaim_def GetNodeGroup_def call_defs Let_def
      split: case_splits elim!: only_call acts_describe acts_build intro!: only_intros)

lemma acts_delete: "DeleteClaim C K claim s = (r, s') \<Longrightarrow> only (acts_in {Reads, Reports, DeletesNG}) s s'"
  by (auto simp: DeleteClaim_def GetNodeGroup_def DeleteNodeGroup_def call_defs Let_def
      split: case_splits elim!: only_call intro!: only_intros)

lemma acts_drift: "IsDrifted C K claim s = (r, s') \<Longrightarrow> only (acts_in describing_acts) s s'"
  by (auto simp: IsDrifted_def GetNodeGroup_def call_defs Let_def split: case_splits elim!: only_call intro!: only_intros)

lemma acts_describe_all:
  "fold (describe_step C) groups (ds, warned, t) = (ds', warned', s') \<Longrightarrow> only (acts_in S) s t \<Longrightarrow> Reports \<in> S \<Longrightarrow>
   only (acts_in S) s s'"
proof (induction groups arbitrary: ds warned t)
  case (Cons ng groups)
  obtain ds1 w1 s1 where step: "describe_step C ng (ds, warned, t) = (ds1, w1, s1)" using prod_cases3 by blast
  then have "only (acts_in S) s s1" using Cons.prems(2,3)
    by (auto simp: describe_step_def Let_def split: prod.splits elim!: acts_build acts_describe)
  then show ?case using Cons.IH [of ds1 w1 s1] Cons.prems(1,3) step by simp
qed simp

lemma acts_list: "ListNodeClaims C K warned s = (r, w, s') \<Longrightarrow> only (acts_in describing_acts) s s'"
  by (auto simp: ListNodeClaims_def ListNodeGroups_def call_defs Let_def
      split: case_splits elim!: only_call acts_describe_all intro!: only_intros)

section \<open>The controllers of nodes, NodeClasses and capacities\<close>

lemma acts_pid: "pid_Reconcile K cat n (st, s) = (r, st', s') \<Longrightarrow> only (acts_in {Reads, Reports, PatchesNode}) s s'"
  by (auto simp: pid_Reconcile_def refuse_stamp_def stamp_def stripNodePoolLabel_def call_defs Let_def
      split: case_splits elim!: only_call intro!: only_intros)

lemma acts_capacity: "ReconcileCapacity F K req st c s = (r, st', c', s') \<Longrightarrow> only (acts_in {Reads, Reports}) s s'"
  by (auto simp: ReconcileCapacity_def reject_report_def note_drift_def call_defs Let_def
      split: case_splits elim!: only_call intro!: only_intros)

abbreviation class_acts :: "act set" where
  "class_acts \<equiv> {Reads, Reports, PatchesNG, PatchesClass, PatchesClassStatus}"

lemma acts_migrate_step: "migrate_step E K class ng (a, s) = (a', s') \<Longrightarrow> only (acts_in class_acts) s s'"
  by (auto simp: migrate_step_def nodeClaimDrifted_def call_defs Let_def
      split: case_splits elim!: only_call intro!: only_intros)

lemma acts_migrate:
  assumes "migrateHashVersion E K class t = (r, s')" "only (acts_in class_acts) s t"
  shows "only (acts_in class_acts) s s'"
proof -
  obtain l s1 where l: "listNG K (peCatalogue E) [(ManagedLabelKey, ''true''), (NodeClassLabelKey, clName class)] t = (l, s1)"
    by (meson surj_pair)
  have q: "only (acts_in class_acts) s s1" using l assms(2) by (auto simp: listNG_def elim!: only_call)
  show ?thesis
  proof (cases l)
    case (Inr ngs)
    then have f: "fold (migrate_step E K class) ngs ((0, []), s1) = (r, s')" using assms l by (simp add: migrateHashVersion_def)
    show ?thesis by (rule only_trans [OF q only_fold [OF _ f]]) (rule acts_migrate_step)
  qed (use assms l q in \<open>simp add: migrateHashVersion_def\<close>)
qed

lemma acts_status_part:
  assumes "class_status E K C rt pt class t = (r, s')" "only (acts_in class_acts) s t"
  shows "only (acts_in class_acts) s s'"
proof -
  obtain ig c1 where c1: "class_conditions E C rt class = (ig, c1)" by (meson surj_pair)
  obtain served c2 s1 where p: "probe_api E K C pt c1 t = (served, c2, s1)" using prod_cases3 by blast
  obtain a s2 where "(if served then migrateHashVersion E K c2 s1 else ((pendingUnknown, []), s1)) = (a, s2)"
    by (meson surj_pair)
  moreover obtain pe errs where "a = (pe, errs)" by (cases a)
  ultimately have m: "(if served then migrateHashVersion E K c2 s1 else ((pendingUnknown, []), s1)) = ((pe, errs), s2)" by simp
  obtain e c3 s3 where i: "reportIgnoredLabels C c2 ig pe s2 = (e, c3, s3)" using prod_cases3 by blast
  have "only (acts_in class_acts) s s1" using p assms(2) by (auto simp: probe_api_def call_defs split: case_splits elim!: only_call)
  then have "only (acts_in class_acts) s s2" using m by (auto split: if_splits elim!: acts_migrate)
  then have "only (acts_in class_acts) s s3"
    using i by (auto simp: reportIgnoredLabels_def Let_def split: prod.splits if_splits intro!: only_intros)
  then show ?thesis
    using assms(1) unfolding class_status_def c1 p m i Let_def prod.case
    by (auto simp: call_defs split: case_splits elim!: only_call)
qed

lemma acts_class: "class_Reconcile E K C rt pt n s = (r, s') \<Longrightarrow> only (acts_in class_acts) s s'"
  by (auto simp: class_Reconcile_def finalize_def call_defs Let_def
      split: case_splits bool.splits elim!: only_call acts_status_part intro!: only_intros)

text \<open>The host storage controller writes its three gauges only.\<close>

abbreviation host_acts :: "act set" where
  "host_acts \<equiv> insert Reads (insert Reports (Sets ` host_gauges))"

lemma acts_host: "ReconcileHostStorage F K nodeName req st s = (r, st', s') \<Longrightarrow> only (acts_in host_acts) s s'"
  by (auto simp: ReconcileHostStorage_def invalidate_host_def host_gauges_def call_defs Let_def
      split: case_splits elim!: only_call intro!: only_intros)

lemma acts_host_run: "host_run F K nodeName s0 st s \<Longrightarrow> only (acts_in host_acts) s0 s"
proof (induction rule: host_run.induct)
  case (host_wired st s)
  then show ?case by (auto simp: NewHostController_def host_gauges_def intro!: only_intros)
next
  case (host_reconciled st s req r st' s')
  from host_reconciled.IH acts_host [OF host_reconciled.hyps(2)] show ?case by (rule only_trans)
qed (simp_all add: only_def)

section \<open>The status controller\<close>

lemma acts_launched: "launchedNodeClaim E K rd ng s = (r, s') \<Longrightarrow> Reads \<in> S \<Longrightarrow> only (acts_in S) s s'"
  by (auto simp: launchedNodeClaim_def call_defs split: case_splits elim!: only_call intro!: only_intros)

lemma acts_late: "only (acts_in S) s t \<Longrightarrow> Reports \<in> S \<Longrightarrow> only (acts_in S) s (RecordLateRefusal E K c ng t)"
  by (auto simp: RecordLateRefusal_def Let_def split: option.splits intro!: only_intros)

lemma acts_failLaunch:
  "failLaunch E K n s = (r, s') \<Longrightarrow> {Reads, Reports, DeletesClaim} \<subseteq> S \<Longrightarrow> only (acts_in S) s s'"
  by (auto simp: failLaunch_def launchedNodeClaim_def call_defs Let_def split: case_splits
      elim!: only_call intro!: only_intros acts_late)

section \<open>The collector\<close>

lemma acts_overdue_step: "overdue_step clock before ng (o1, s) = (o2, s') \<Longrightarrow> Reports \<in> S \<Longrightarrow> only (acts_in S) s s'"
  by (cases "deletionOperatorState ng")
    (auto simp: overdue_step_def Let_def split: if_splits option.splits intro!: only_intros)

lemma acts_vanish:
  "vanish_step E K names claim (a, s) = (a', s') \<Longrightarrow> {Reads, Reports, DeletesClaim} \<subseteq> S \<Longrightarrow> only (acts_in S) s s'"
  by (auto simp: vanish_step_def call_defs Let_def split: case_splits elim!: only_call intro!: only_intros)

lemma acts_reapVanished:
  assumes r: "reapVanishedNodeClaims E K claims s = (r, s')" and S: "{Reads, Reports, DeletesClaim} \<subseteq> S"
  shows "only (acts_in S) s s'"
proof -
  obtain x s1 where x: "listNG K (peCatalogue E) [] s = (x, s1)" by (meson surj_pair)
  have q: "only (acts_in S) s s1" using x S by (auto simp: listNG_def elim!: only_call)
  show ?thesis
  proof (cases x)
    case (Inr ngs)
    then have "fold (vanish_step E K (map ngName ngs)) claims ([], s1) = (r, s')" using r x by (simp add: reapVanishedNodeClaims_def)
    from q only_fold [OF _ this, of "acts_in S"] S show ?thesis by (metis acts_vanish only_trans)
  qed (use r x q in \<open>simp add: reapVanishedNodeClaims_def\<close>)
qed

lemma acts_alive: "anyClaimAliveUncached E K checked ns s = (r, s') \<Longrightarrow> Reads \<in> S \<Longrightarrow> only (acts_in S) s s'"
proof (induction E K checked ns s arbitrary: r s' rule: anyClaimAliveUncached.induct)
  case (2 E K checked n ns s)
  obtain x s1 where x: "getClaim K (peCatalogue E) Uncached n s = (x, s1)" by (meson surj_pair)
  have q: "only (acts_in S) s s1" using x 2(4) by (auto simp: getClaim_def elim!: only_call)
  show ?case using 2 x q by (auto split: if_splits sum.splits intro: only_trans)
qed simp

lemma acts_deleteGroup: "DeleteNodeGroup E K ng s = (r, s') \<Longrightarrow> {Reports, DeletesNG} \<subseteq> S \<Longrightarrow> only (acts_in S) s s'"
  by (auto simp: DeleteNodeGroup_def call_defs Let_def split: case_splits elim!: only_call intro!: only_intros)

end
