(* ===== verification/Process.thy ===== *)
theory Process
  imports Writes
begin

text \<open>
  The process as a whole, read off its gauges. Each controller, and karpenter-core's calls to the cloud
  provider, is a goroutine with effects in its own program order; what happened is some interleaving of
  them. A gauge tells the truth about the process because one goroutine writes it, with the state that
  goroutine owns. Between two of its calls a goroutine finds the world and the memory of refusals
  whatever the others made of them.
\<close>

section \<open>Who writes which gauge\<close>

definition gauges :: "gauge set \<Rightarrow> act set" where
  "gauges G = - Sets ` (- G)"

text \<open>The effects that set no gauge but those of \<open>G\<close>.\<close>

abbreviation gauges_in :: "gauge set \<Rightarrow> effect \<Rightarrow> bool" where
  "gauges_in G \<equiv> acts_in (gauges G)"

lemma gauges_simps [simp]:
  "Sets g \<in> gauges G \<longleftrightarrow> g \<in> G" "Reads \<in> gauges G" "Reports \<in> gauges G" "CreatesNG \<in> gauges G" "DeletesNG \<in> gauges G"
  "PatchesNG \<in> gauges G" "DeletesClaim \<in> gauges G" "PatchesClass \<in> gauges G" "PatchesClassStatus \<in> gauges G"
  "PatchesNode \<in> gauges G"
  by (auto simp: gauges_def)

lemma gauges_in_iff: "gauges_in G e \<longleftrightarrow> (\<forall>g x. e = SetGauge g x \<longrightarrow> g \<in> G)"
  by (cases e) simp_all

lemma gauges_mono: "only (gauges_in {}) s s' \<Longrightarrow> only (gauges_in G) s s'"
  by (erule acts_mono) (auto simp: gauges_def)

text \<open>What sets no gauge, or only the three of the host, by the kinds of its effects.\<close>

lemma gaugeless: "only (acts_in S) s s' \<Longrightarrow> (\<And>g. Sets g \<notin> S) \<Longrightarrow> only (gauges_in G) s s'"
  by (erule acts_mono) (auto simp: gauges_def)

lemma gauges_host_run: "host_run F K nodeName s0 st s \<Longrightarrow> only (gauges_in host_gauges) s0 s"
  by (rule acts_mono [OF acts_host_run]) (auto simp: gauges_def)

section \<open>What a gauge tells\<close>

text \<open>The gauge shows a count, or was never set while there is nothing to count.\<close>

definition tells :: "gauge \<Rightarrow> nat \<Rightarrow> 'w sys \<Rightarrow> bool" where
  "tells g k s \<longleftrightarrow> (case gauge_value g (trace s) of Some x \<Rightarrow> x = of_nat k | None \<Rightarrow> k = 0)"

lemma gauge_value_unset: "list_all (gauges_in G) es \<Longrightarrow> g \<notin> G \<Longrightarrow> gauge_value g (xs @ es) = gauge_value g xs"
proof (induction es rule: rev_induct)
  case (snoc e es)
  then show ?case
    by (cases e) (auto simp: append_assoc [symmetric] gauge_value_snoc simp del: append_assoc)
qed simp

lemma tells_only: "only (gauges_in G) s s' \<Longrightarrow> g \<notin> G \<Longrightarrow> tells g k s' = tells g k s"
  by (auto simp: only_def tells_def gauge_value_unset)

lemma tells_set [simp]: "tells g k (emit (SetGauge g (of_nat k)) s)"
  by (simp add: tells_def gauge_value_snoc)

text \<open>The status controller.\<close>

lemma status_forget:
  "forget n (st, s) = (st', s') \<Longrightarrow> only (gauges_in {NodeGroupSyncOverdue}) s s' \<and> tells NodeGroupSyncOverdue (length (ssOverdue st')) s'"
  by (auto simp: forget_def Let_def intro!: only_intros)

lemma status_log_once: "log_once kind n (st, s) = (st', s') \<Longrightarrow> only (gauges_in {}) s s' \<and> ssOverdue st' = ssOverdue st"
  by (auto simp: log_once_def firstLog_def split: if_splits intro!: only_intros)

lemma status_reportOverdue:
  assumes "reportOverdue ng c (st, s) = (st', s')"
  shows "only (gauges_in {NodeGroupSyncOverdue}) s s' \<and> tells NodeGroupSyncOverdue (length (ssOverdue st')) s'"
proof -
  obtain st1 s1 where a: "setOverdue (ngName ng) (st, s) = (st1, s1)" by (meson surj_pair)
  obtain st2 s2 where b: "log_once ''overdue'' (ngName ng) (st1, s1) = (st2, s2)" by (meson surj_pair)
  have "only (gauges_in {NodeGroupSyncOverdue}) s s1" "tells NodeGroupSyncOverdue (length (ssOverdue st1)) s1"
    using a by (auto simp: setOverdue_def Let_def intro!: only_intros)
  moreover note status_log_once [OF b]
  moreover have "st' = st2" "only (gauges_in {}) s2 s'"
    using assms a b by (auto simp: reportOverdue_def intro!: only_intros)
  ultimately show ?thesis by (metis empty_iff gauges_mono only_trans tells_only)
qed

lemma status_follow:
  assumes "follow_launch K ng c (st, s) = (r, st', s')"
  shows "only (gauges_in {NodeGroupSyncOverdue}) s s' \<and>
    (tells NodeGroupSyncOverdue (length (ssOverdue st)) s \<longrightarrow> tells NodeGroupSyncOverdue (length (ssOverdue st')) s')"
proof -
  obtain st1 s1 where a: "(case TransientFailure ng of
      Some (reason, message) \<Rightarrow> surfaceTransientFailure ng c reason message (st, s) | None \<Rightarrow> (st, s)) = (st1, s1)"
    by (meson surj_pair)
  have q: "only (gauges_in {}) s s1 \<and> ssOverdue st1 = ssOverdue st"
    using a by (auto simp: surfaceTransientFailure_def split: option.splits prod.splits
        intro!: only_intros dest: status_log_once)
  obtain st2 s2 where b: "reportOverdue ng c (st1, s1) = (st2, s2)" by (meson surj_pair)
  from assms have "(st', s') = (st1, s1) \<or> (st', s') = (st2, s2)"
    unfolding follow_launch_def a Let_def prod.case b by (auto split: if_splits)
  then show ?thesis
    using q status_reportOverdue [OF b] by (auto simp: tells_only dest: gauges_mono intro: only_trans)
qed

lemma status_tells:
  assumes "status_Reconcile E K n (st, s) = (r, st', s')"
  shows "only (gauges_in {NodeGroupSyncOverdue}) s s' \<and>
    (tells NodeGroupSyncOverdue (length (ssOverdue st)) s \<longrightarrow> tells NodeGroupSyncOverdue (length (ssOverdue st')) s')"
proof -
  let ?G = "{NodeGroupSyncOverdue}"
  obtain x s1 where x: "getNG K (peCatalogue E) Cached n s = (x, s1)" by (meson surj_pair)
  have q1: "only (gauges_in {}) s s1" using x by (auto simp: getNG_def elim!: only_call)
  show ?thesis
  proof (cases x)
    case (Inl e)
    then consider "(st', s') = (st, s1)" | "forget n (st, s1) = (st', s')"
      using assms x unfolding status_Reconcile_def by (auto split: if_splits prod.splits)
    then show ?thesis
      by cases (use q1 in \<open>auto simp: tells_only dest: gauges_mono status_forget intro: only_trans\<close>)
  next
    case (Inr ng)
    obtain c s2 where c: "launchedNodeClaim E K Cached ng s1 = (c, s2)" by (meson surj_pair)
    have q2: "only (gauges_in {}) s s2" by (rule only_trans [OF q1 acts_launched [OF c]]) simp
    obtain st3 s3 where f: "forget (ngName ng) (st, s2) = (st3, s3)" by (meson surj_pair)
    obtain r4 s4 where fl: "failLaunch E K (ngName ng) s3 = (r4, s4)" by (meson surj_pair)
    have q4: "only (gauges_in {}) s3 s4" by (rule acts_failLaunch [OF fl]) simp
    consider "(st', s') = (st, s2)" | "(st', s') = (st3, s3)" | "(st', s') = (st3, s4)"
      | claim where "follow_launch K ng claim (st, s2) = (r, st', s')"
      using assms unfolding status_Reconcile_def prod.case Let_def x Inr sum.case c f fl
      by (auto split: sum.splits option.splits if_splits)
    then show ?thesis
    proof cases
      case 4
      from status_follow [OF this] q2 show ?thesis by (auto simp: tells_only dest: gauges_mono intro: only_trans)
    qed (use q2 q4 status_forget [OF f] in \<open>auto simp: tells_only dest: gauges_mono [where G = ?G] intro: only_trans\<close>)
  qed
qed

text \<open>The collector.\<close>

abbreviation gc_gauges :: "gauge set" where
  "gc_gauges \<equiv> {NodeGroupDeletionOverdue, NodeGroupExternalResizes, GCRefusedNodeGroups}"

lemma gc_report_tells:
  assumes "reportOverdueDeletions ngs clock gc s = (gc', s')"
  shows "only (gauges_in {NodeGroupDeletionOverdue}) s s' \<and> tells NodeGroupDeletionOverdue (length (gcDeletionWarned gc')) s'"
proof -
  obtain o1 t where f: "fold (overdue_step clock (gcDeletionWarned gc)) ngs ([], s) = (o1, t)" by (meson surj_pair)
  have "only (gauges_in {NodeGroupDeletionOverdue}) s t" by (rule only_fold [OF _ f]) (simp add: acts_overdue_step)
  then show ?thesis using assms f by (auto simp: reportOverdueDeletions_def intro!: only_intros)
qed

text \<open>A step of the sweep sets no gauge and leaves the overdue deletions alone.\<close>

definition sweeps :: "sweep \<times> 'w sys \<Rightarrow> sweep \<times> 'w sys \<Rightarrow> bool" where
  "sweeps x y \<longleftrightarrow> only (gauges_in {}) (snd x) (snd y) \<and>
     gcDeletionWarned (swState (fst y)) = gcDeletionWarned (swState (fst x))"

lemma sweeps_trans: "sweeps x y \<Longrightarrow> sweeps y z \<Longrightarrow> sweeps x z"
  by (auto simp: sweeps_def intro: only_trans)

lemma sweeps_resize: "resize_check ng x = y \<Longrightarrow> sweeps x y"
  by (cases x) (auto simp: resize_check_def warnResize_def sweeps_def Let_def split: prod.splits if_splits intro!: only_intros)

lemma sweeps_refuse: "refuse_group ng msg x = y \<Longrightarrow> sweeps x y"
  by (cases x) (auto simp: refuse_group_def refuse_def sweeps_def Let_def split: prod.splits if_splits intro!: only_intros)

lemma sweeps_reap:
  assumes "reap_group E K owners ng (sw, s) = y"
  shows "sweeps (sw, s) y"
proof -
  obtain r s1 where a: "anyClaimAliveUncached E K [] (claimNameOf ng # owners) s = (r, s1)" by (meson surj_pair)
  obtain d s2 where d: "DeleteNodeGroup E K ng s1 = (d, s2)" by (meson surj_pair)
  have q1: "only (gauges_in {}) s s1" by (rule acts_alive [OF a]) simp
  have q2: "only (gauges_in {}) s s2" by (rule only_trans [OF q1 acts_deleteGroup [OF d]]) simp
  show ?thesis
    using assms q1 q2 unfolding reap_group_def Let_def prod.case a d
    by (auto simp: sweeps_def split: sum.splits option.splits if_splits intro!: only_intros)
qed

lemma sweeps_step: "sweep_step E K names ng (sw, s) = y \<Longrightarrow> sweeps (sw, s) y"
proof -
  assume y: "sweep_step E K names ng (sw, s) = y"
  obtain sw1 s1 where r: "resize_check ng (sw, s) = (sw1, s1)" by (meson surj_pair)
  note q = sweeps_resize [OF r]
  have "sweeps x x" for x :: "sweep \<times> 'a sys" by (simp add: sweeps_def)
  then show ?thesis
    using y q sweeps_trans [OF q sweeps_refuse [OF refl]] sweeps_trans [OF q sweeps_reap [OF refl]]
    unfolding sweep_step_def r Let_def prod.case by (auto split: if_splits)
qed

lemma sweeps_fold: "fold (sweep_step E K names) ngs x = y \<Longrightarrow> sweeps x y"
proof (induction ngs arbitrary: x)
  case Nil
  then show ?case by (simp add: sweeps_def)
next
  case (Cons ng ngs)
  obtain a b where x: "x = (a, b)" by (cases x)
  have "sweeps (sweep_step E K names ng x) y" using Cons by simp
  with sweeps_step [OF refl] show ?case unfolding x by (rule sweeps_trans)
qed

lemma gc_tells:
  assumes "gc_Reconcile E K gc s = (r, gc', s')"
  shows "only (gauges_in gc_gauges) s s' \<and>
    (tells NodeGroupDeletionOverdue (length (gcDeletionWarned gc)) s \<longrightarrow>
     tells NodeGroupDeletionOverdue (length (gcDeletionWarned gc')) s')"
proof -
  obtain x s1 where x: "ListNodeGroups E K s = (x, s1)" by (meson surj_pair)
  have q1: "only (gauges_in {}) s s1" using x by (auto simp: ListNodeGroups_def call_defs elim!: only_call)
  show ?thesis
  proof (cases x)
    case (Inl e)
    then show ?thesis using assms x q1 by (auto simp: gc_Reconcile_def tells_only dest: gauges_mono)
  next
    case (Inr ngs)
    obtain gc1 s2 where rep: "reportOverdueDeletions ngs (now K s1) gc s1 = (gc1, s2)" by (meson surj_pair)
    note told = gc_report_tells [OF rep]
    obtain c s3 where c: "listClaims K (peCatalogue E) s2 = (c, s3)" by (meson surj_pair)
    have q3: "only (gauges_in {}) s2 s3" using c by (auto simp: call_defs elim!: only_call)
    have told3: "only (gauges_in {NodeGroupDeletionOverdue}) s s3"
      "tells NodeGroupDeletionOverdue (length (gcDeletionWarned gc1)) s3"
      using only_trans [OF gauges_mono [OF q1] only_trans [OF conjunct1 [OF told] gauges_mono [OF q3]]]
        told tells_only [OF q3, of NodeGroupDeletionOverdue] by simp_all
    have sub: "only (gauges_in {NodeGroupDeletionOverdue}) t u \<Longrightarrow> only (gauges_in gc_gauges) t u" for t u :: "'a sys"
      by (erule acts_mono) (auto simp: gauges_def)
    show ?thesis
    proof (cases c)
      case (Inl e)
      then show ?thesis using assms x Inr rep c told3 sub by (auto simp: gc_Reconcile_def Let_def)
    next
      case (Inr claims)
      obtain errs s4 where v: "reapVanishedNodeClaims E K claims s3 = (errs, s4)" by (meson surj_pair)
      obtain sw s5 where sw: "fold (sweep_step E K (map ncName claims)) ngs
          (\<lparr>swRefused = 0, swResized = 0, swErrs = errs, swState = gc1\<rparr>, s4) = (sw, s5)" by (meson surj_pair)
      have q5: "only (gauges_in {}) s3 s5" "gcDeletionWarned (swState sw) = gcDeletionWarned gc1"
        using sweeps_fold [OF sw] acts_reapVanished [OF v, of "gauges {}"] by (auto simp: sweeps_def intro: only_trans)
      have "only (gauges_in {NodeGroupExternalResizes, GCRefusedNodeGroups}) s5 s'" "gc' = swState sw"
        using assms x \<open>x = Inr ngs\<close> rep c Inr v sw by (auto simp: gc_Reconcile_def Let_def intro!: only_intros)
      then have "only (gauges_in {NodeGroupExternalResizes, GCRefusedNodeGroups}) s3 s'" "gc' = swState sw"
        using gauges_mono [OF q5(1)] by (auto intro: only_trans)
      moreover from this have "only (gauges_in gc_gauges) s3 s'" by - (erule acts_mono, auto simp: gauges_def)
      ultimately show ?thesis using told3 sub q5(2) by (auto simp: tells_only intro: only_trans)
    qed
  qed
qed
section \<open>Goroutines\<close>

text \<open>What the constructors of the controllers with a memory of their own start from.\<close>

definition NewGCController :: gc_state where
  "NewGCController = \<lparr>gcWarned = [], gcDeletionWarned = []\<rparr>"

definition NewStatusController :: status_state where
  "NewStatusController = \<lparr>ssOverdue = [], ssLogged = []\<rparr>"

text \<open>
  A goroutine of the process: calls of its own, on its own state; between two calls the world and the
  memory of refusals change as they may.
\<close>

type_synonym ('st, 'w) proc_step = "'st \<times> 'w sys \<Rightarrow> 'st \<times> 'w sys \<Rightarrow> bool"

inductive run :: "('st, 'w) proc_step \<Rightarrow> 'st \<times> 'w sys \<Rightarrow> 'st \<times> 'w sys \<Rightarrow> bool"
  for does :: "('st, 'w) proc_step" and x0 :: "'st \<times> 'w sys" where
  run_start: "run does x0 x0"
| run_does: "run does x0 x \<Longrightarrow> does x y \<Longrightarrow> run does x0 y"
| run_idle: "run does x0 (st, s) \<Longrightarrow> run does x0 (st, s\<lparr>world := w, refs := m\<rparr>)"

inductive status_does :: "provider_env \<Rightarrow> 'w kube \<Rightarrow> (status_state, 'w) proc_step"
  for E :: provider_env and K :: "'w kube" where
  does_follow: "status_Reconcile E K n (st, s) = (r, st', s') \<Longrightarrow> status_does E K (st, s) (st', s')"

inductive gc_does :: "provider_env \<Rightarrow> 'w kube \<Rightarrow> (gc_state, 'w) proc_step"
  for E :: provider_env and K :: "'w kube" where
  does_sweep: "gc_Reconcile E K gc s = (r, gc', s') \<Longrightarrow> gc_does E K (gc, s) (gc', s')"

text \<open>
  Every other goroutine: the calls karpenter-core makes, and the controllers of nodes, NodeClasses and
  capacities. What these share in memory (the flavors warned about, the catalogue) and their own
  deduplication is any at each call.
\<close>

record 'w process =
  pcCloud :: "'w provider_conf"
  pcFeed :: "'w feed"
  pcConds :: cond_ops
  pcRejectionText :: "label_error \<Rightarrow> string"
  pcProbeText :: "api_error \<Rightarrow> string"

inductive other_does :: "'w process \<Rightarrow> 'w kube \<Rightarrow> (unit, 'w) proc_step" for P :: "'w process" and K :: "'w kube" where
  does_create: "CreateClaim (pcCloud P) K claim warned s = (r, warned', s') \<Longrightarrow> other_does P K (u, s) (u, s')"
| does_delete: "DeleteClaim (pcCloud P) K claim s = (r, s') \<Longrightarrow> other_does P K (u, s) (u, s')"
| does_get: "GetClaim (pcCloud P) K pid warned s = (r, warned', s') \<Longrightarrow> other_does P K (u, s) (u, s')"
| does_list: "ListNodeClaims (pcCloud P) K warned s = (r, warned', s') \<Longrightarrow> other_does P K (u, s) (u, s')"
| does_drift: "IsDrifted (pcCloud P) K claim s = (r, s') \<Longrightarrow> other_does P K (u, s) (u, s')"
| does_stamp: "pid_Reconcile K cat n (st, s) = (r, st', s') \<Longrightarrow> other_does P K (u, s) (u, s')"
| does_class: "class_Reconcile (cvEnv (pcCloud P)) K (pcConds P) (pcRejectionText P) (pcProbeText P) n s = (r, s') \<Longrightarrow>
    other_does P K (u, s) (u, s')"
| does_capacity: "ReconcileCapacity (pcFeed P) K n st c s = (r, st', c', s') \<Longrightarrow> other_does P K (u, s) (u, s')"

locale goroutine =
  fixes does :: "('st, 'w) proc_step" and G :: "gauge set"
  assumes writes: "does (st, s) (st', s') \<Longrightarrow> only (gauges_in G) s s'"
begin

lemma run_writes: "run does x y \<Longrightarrow> only (gauges_in G) (snd x) (snd y)"
proof (induction rule: run.induct)
  case (run_does x y)
  then show ?case by (cases x, cases y) (auto dest: writes intro: only_trans)
qed (simp_all add: only_def)

lemma leaves_alone:
  assumes "run does (st0, s0) (st, s)" "trace s0 = []" "g \<notin> G"
  shows "list_all (\<lambda>e. \<not> sets_gauge g e) (trace s)"
  using run_writes [OF assms(1)] assms(2,3) by (auto simp: only_def gauges_in_iff sets_gauge_def list_all_iff)

end

locale reporter = goroutine does G for does :: "('st, 'w) proc_step" and G +
  fixes g :: gauge and held :: "'st \<Rightarrow> nat"
  assumes reports: "does (st, s) (st', s') \<Longrightarrow> tells g (held st) s \<Longrightarrow> tells g (held st') s'"
begin

lemma run_tells: "run does x y \<Longrightarrow> tells g (held (fst x)) (snd x) \<Longrightarrow> tells g (held (fst y)) (snd y)"
proof (induction rule: run.induct)
  case (run_does x y)
  then show ?case by (cases x, cases y) (auto dest: reports)
qed (simp_all add: tells_def)

lemma report_is_true:
  assumes "run does (st0, s0) (st, s)" "trace s0 = []" "held st0 = 0"
  shows "tells g (held st) s"
  using run_tells [OF assms(1)] assms(2,3) by (simp add: tells_def gauge_value_def)

end

inductive_simps status_does_iff: "status_does E K (st, s) (st', s')"
inductive_simps gc_does_iff: "gc_does E K (gc, s) (gc', s')"

interpretation status_run: reporter "status_does E K" "{NodeGroupSyncOverdue}" NodeGroupSyncOverdue "\<lambda>st. length (ssOverdue st)"
  for E :: provider_env and K :: "'w kube"
  by unfold_locales (auto simp: status_does_iff dest: status_tells)

interpretation gc_run: reporter "gc_does E K" gc_gauges NodeGroupDeletionOverdue "\<lambda>gc. length (gcDeletionWarned gc)"
  for E :: provider_env and K :: "'w kube"
  by unfold_locales (auto simp: gc_does_iff dest: gc_tells)

interpretation other_run: goroutine "other_does P K" "{}" for P :: "'w process" and K :: "'w kube"
proof
  fix u u' :: unit and s s' :: "'w sys"
  assume "other_does P K (u, s) (u', s')"
  then show "only (gauges_in {}) s s'"
    by cases (rule gaugeless, erule acts_create acts_delete acts_get acts_list acts_drift acts_pid acts_class acts_capacity, simp)+
qed

section \<open>The gauges and the state\<close>

lemma gauge_of_the_writer:
  assumes "interleaving (xs @ w # ys) es" and "\<forall>z \<in> set xs \<union> set ys. list_all (\<lambda>e. \<not> sets_gauge g e) z"
  shows "gauge_value g es = gauge_value g w"
proof -
  have "list_all (\<lambda>e. \<not> sets_gauge g e) ((xs @ w # ys) ! j)" if j: "j < length (xs @ w # ys)" "j \<noteq> length xs" for j
  proof (cases "j < length xs")
    case True
    then show ?thesis using assms(2) by (simp add: nth_append)
  next
    case False
    then obtain k where "j = length xs + Suc k" using j(2) by (metis add_Suc_right less_natE linorder_neqE_nat)
    then show ?thesis using j(1) assms(2) by (simp add: nth_append)
  qed
  then show ?thesis using gauge_of_its_writer [OF assms(1), of "length xs" g] by simp
qed

definition bad_config :: "(string \<Rightarrow> string + 'd) \<Rightarrow> ('d \<Rightarrow> string + FlavorOverride list) \<Rightarrow> string \<Rightarrow> bool" where
  "bad_config readFile unmarshal path \<longleftrightarrow> path \<noteq> '''' \<and> isl (LoadFlavorsFromFile readFile unmarshal path)"

lemma load_sets:
  assumes "LoadFlavorsOrDegrade readFile unmarshal path s = (overrides, s')" "trace s = []"
  shows "gauge_value FlavorsConfigInvalid (trace s') = Some (if bad_config readFile unmarshal path then 1 else 0)"
    and "g \<noteq> FlavorsConfigInvalid \<Longrightarrow> list_all (\<lambda>e. \<not> sets_gauge g e) (trace s')"
  using assms by (auto simp: LoadFlavorsOrDegrade_def Let_def gauge_value_def sets_gauge_def bad_config_def split: if_splits sum.splits)

text \<open>The controller of the host's disk exists only when a node is configured.\<close>

definition host_part :: "'w feed \<Rightarrow> 'w kube \<Rightarrow> name \<Rightarrow> 'w sys \<Rightarrow> inst_state \<Rightarrow> 'w sys \<Rightarrow> bool" where
  "host_part F K nodeName s0 st s \<longleftrightarrow> (if nodeName = '''' then st = inst0 \<and> s = s0 else host_run F K nodeName s0 st s)"

lemma host_part_gauges:
  assumes "host_part F K nodeName s0 st s" "trace s0 = []"
  shows "g \<notin> host_gauges \<Longrightarrow> list_all (\<lambda>e. \<not> sets_gauge g e) (trace s)"
    and "gauge_value HostEphemeralStorageReady (trace s) =
      (if nodeName = '''' then None else Some (if EphemeralStorageReady st then 1 else 0))"
proof -
  show "g \<notin> host_gauges \<Longrightarrow> list_all (\<lambda>e. \<not> sets_gauge g e) (trace s)"
    using assms gauges_host_run [of F K nodeName s0 st s]
    by (auto simp: host_part_def only_def gauges_in_iff sets_gauge_def list_all_iff split: if_splits)
  show "gauge_value HostEphemeralStorageReady (trace s) =
      (if nodeName = '''' then None else Some (if EphemeralStorageReady st then 1 else 0))"
    using assms host_run_ok [of F K nodeName s0 st s]
    by (auto simp: host_part_def host_ok_def EphemeralStorageReady_def gauge_value_def split: if_splits)
qed

text \<open>
  C13. The gauges tell the state of the process. Let the flavors be loaded, the status controller, the
  collector, the host controller if a node is configured, and any number of other goroutines run as
  they may, and let a scrape come after any interleaving of what they did. Then it shows as many
  overdue launches as the status controller remembers, as many overdue deletions as the collector
  does, whether the flavors in force were degraded to the built-in ones, and whether the disk of the
  host is in force (no such series without a host to read).
\<close>

theorem gauges_tell_the_state:
  assumes "lawful_meter M"
    and "LoadFlavorsOrDegrade readFile unmarshal path s0 = (overrides, sM)" "trace s0 = []"
    and "run (status_does E K) (NewStatusController, s1) (st, sS)" "trace s1 = []"
    and "run (gc_does E K) (NewGCController, s2) (gc, sG)" "trace s2 = []"
    and "host_part F K nodeName s3 inst sH" "trace s3 = []"
    and "\<forall>s \<in> set rest. \<exists>s4. trace s4 = [] \<and> run (other_does P K) ((), s4) ((), s)"
    and "interleaving ([trace sM, trace sS, trace sG, trace sH] @ map trace rest) es"
  shows "scraped M es (GaugeSeries NodeGroupSyncOverdue) = Some (of_nat (length (ssOverdue st))) \<and>
    scraped M es (GaugeSeries NodeGroupDeletionOverdue) = Some (of_nat (length (gcDeletionWarned gc))) \<and>
    scraped M es (GaugeSeries FlavorsConfigInvalid) = Some (if bad_config readFile unmarshal path then 1 else 0) \<and>
    scraped M es (GaugeSeries HostEphemeralStorageReady) =
      (if nodeName = '''' then None else Some (if EphemeralStorageReady inst then 1 else 0))"
proof -
  have quiet: "\<forall>z \<in> set (map trace rest). list_all (\<lambda>e. \<not> sets_gauge g e) z" for g
    using assms(10) other_run.leaves_alone by fastforce
  note status = status_run.leaves_alone [OF assms(4,5)] status_run.report_is_true [OF assms(4,5)]
  note sweeps = gc_run.leaves_alone [OF assms(6,7)] gc_run.report_is_true [OF assms(6,7)]
  note loaded = load_sets [OF assms(2,3)]
  note host = host_part_gauges [OF assms(8,9)]
  let ?o = "map trace rest"
  have "gauge_value NodeGroupSyncOverdue es = gauge_value NodeGroupSyncOverdue (trace sS)"
    by (rule gauge_of_the_writer [of "[trace sM]" _ "trace sG # trace sH # ?o"])
      (use assms(11) quiet sweeps(1) loaded(2) host(1) in \<open>auto simp: host_gauges_def\<close>)
  moreover have "gauge_value NodeGroupDeletionOverdue es = gauge_value NodeGroupDeletionOverdue (trace sG)"
    by (rule gauge_of_the_writer [of "[trace sM, trace sS]" _ "trace sH # ?o"])
      (use assms(11) quiet status(1) loaded(2) host(1) in \<open>auto simp: host_gauges_def\<close>)
  moreover have "gauge_value FlavorsConfigInvalid es = gauge_value FlavorsConfigInvalid (trace sM)"
    by (rule gauge_of_the_writer [of "[]" _ "trace sS # trace sG # trace sH # ?o"])
      (use assms(11) quiet status(1) sweeps(1) host(1) in \<open>auto simp: host_gauges_def\<close>)
  moreover have "gauge_value HostEphemeralStorageReady es = gauge_value HostEphemeralStorageReady (trace sH)"
    by (rule gauge_of_the_writer [of "[trace sM, trace sS, trace sG]" _ ?o])
      (use assms(11) quiet status(1) sweeps(1) loaded(2) in auto)
  moreover have "tells NodeGroupSyncOverdue (length (ssOverdue st)) sS"
    "tells NodeGroupDeletionOverdue (length (gcDeletionWarned gc)) sG"
    using status(2) sweeps(2) by (simp_all add: NewStatusController_def NewGCController_def)
  ultimately show ?thesis
    using loaded(1) host(2)
    by (auto simp: scraped_gauge [OF assms(1)] tells_def host_gauges_def split: option.splits)
qed
section \<open>An example process\<close>

lemma interleaving_skip: "interleaving ess es \<Longrightarrow> interleaving ([] # ess) es"
proof (induction rule: interleaving.induct)
  case (one_step i ess e xs es)
  then show ?case using interleaving.one_step [of "Suc i" "[] # ess" e xs es] by simp
qed (simp add: interleaving.all_done)

lemma interleaving_head: "interleaving (ys # ess) es \<Longrightarrow> interleaving ((xs @ ys) # ess) (xs @ es)"
proof (induction xs)
  case (Cons x xs)
  then show ?case using interleaving.one_step [of 0 "((x # xs) @ ys) # ess" x "xs @ ys" "xs @ es"] by simp
qed simp

text \<open>One goroutine after the other is an interleaving.\<close>

lemma interleaving_concat: "interleaving ess (concat ess)"
proof (induction ess)
  case (Cons xs ess)
  then show ?case using interleaving_head [of "[]" ess "concat ess" xs] interleaving_skip by simp
qed (simp add: interleaving.all_done)

text \<open>A group that did not sync in ten minutes, and a file of flavors that does not parse.\<close>

definition slow_world :: "unit kube" where
  "slow_world = silent\<lparr>kGetNG := \<lambda>rd n w. (Inr example_group, w), kGetClaim := \<lambda>rd n w. (Inr launched_claim, w),
     kNow := \<lambda>w. 10 * minute\<rparr>"

definition slow_run :: "reconcile_result \<times> status_state \<times> unit sys" where
  "slow_run = status_Reconcile example_env slow_world ''c1'' (NewStatusController, start ())"

lemma slow_run_overdue: "ssOverdue (fst (snd slow_run)) = [''c1'']"
proof -
  have w: "kGetNG slow_world rd n x = (Inr example_group, x)" "kGetClaim slow_world rd n x = (Inr launched_claim, x)"
    "kNow slow_world x = 10 * minute" "kOthers slow_world x = []" for rd n x
    by (simp_all add: slow_world_def silent_def)
  have "IsManaged example_group" "TransientFailure example_group = None"
    by (simp_all add: example_group_def meta0_def valOf_def key_neqs IsManaged_def verdict_defs ng_consts status0_def)
  then show ?thesis
    by (simp add: slow_run_def status_Reconcile_def launchedNodeClaim_def follow_launch_def reportOverdue_def setOverdue_def
        insert_name_def log_once_def firstLog_def NewStatusController_def w run_defs start_def dur_defs Let_def)
qed

theorem gauges_tell_the_state_witness:
  "\<exists>es. scraped map_meter es (GaugeSeries NodeGroupSyncOverdue) = Some 1 \<and>
     scraped map_meter es (GaugeSeries FlavorsConfigInvalid) = Some 1 \<and>
     scraped map_meter es (GaugeSeries HostEphemeralStorageReady) = Some 0"
proof -
  let ?load = "LoadFlavorsOrDegrade (\<lambda>p. Inr p) (\<lambda>d. Inl ''syntax'') ''flavors.yaml'' (start ())"
  obtain flavors sM where load: "?load = (flavors, sM)" by (meson surj_pair)
  obtain r st sS where slow: "status_Reconcile example_env slow_world ''c1'' (NewStatusController, start ()) = (r, st, sS)"
    using prod_cases3 by blast
  have follow: "run (status_does example_env slow_world) (NewStatusController, start ()) (st, sS)"
    by (rule run_does [where x = "(NewStatusController, start ())", OF run_start]) (rule does_follow [OF slow])
  have sweep: "run (gc_does example_env slow_world) (NewGCController, start ()) (NewGCController, start ())"
    by (rule run_start)
  let ?inst = "fst (NewHostController inst0 (start ()))" and ?sH = "snd (NewHostController inst0 (start ()))"
  have host: "host_part example_feed slow_world ''cp'' (start ()) ?inst ?sH"
    by (simp add: host_part_def host_run_starts)
  have none: "\<forall>s \<in> set ([] :: unit sys list). \<exists>s4. trace s4 = [] \<and> run (other_does P slow_world) ((), s4) ((), s)" for P
    by simp
  have empty: "trace (start ()) = []" by (simp add: start_def)
  note all = gauges_tell_the_state [OF map_meter_lawful load empty follow empty sweep empty host empty none interleaving_concat]
  have "ssOverdue st = [''c1'']" using slow_run_overdue slow by (simp add: slow_run_def)
  moreover have "bad_config (\<lambda>p. Inr p :: string + string) (\<lambda>d. Inl ''syntax'') ''flavors.yaml''"
    by (simp add: bad_config_def LoadFlavorsFromFile_def ParseFlavorOverrides_def)
  moreover have "\<not> EphemeralStorageReady ?inst"
    by (simp add: NewHostController_def RequireEphemeralStorageReference_def inst0_def EphemeralStorageReady_def)
  ultimately show ?thesis using all by (auto intro!: exI)
qed
end
