(* ===== verification/Wiring.thy ===== *)
theory Wiring
  imports Process CloudExamples
begin

text \<open>
  How the process is put together: \<^verbatim>\<open>src/cmd/controller/main.go\<close>, \<^verbatim>\<open>src/pkg/controllers/controllers.go\<close>, what the
  controllers register for in their \<^verbatim>\<open>Register\<close>, and the \<^verbatim>\<open>init\<close> functions of \<^verbatim>\<open>src/pkg/apis\<close>. The
  environment, the file system, the YAML parser and karpenter-core are parameters.
\<close>

section \<open>The controllers\<close>

datatype controller =
    ProviderIdController
  | GarbageCollectionController
  | NodeGroupStatusController
  | NodeClassController
  | CapacityController
  | HostStorageController name

definition providerid_Name :: string where "providerid_Name = ''node.providerid''"
definition garbagecollection_Name :: string where "garbagecollection_Name = ''nodegroup.garbagecollection''"
definition nodegroupstatus_Name :: string where "nodegroupstatus_Name = ''nodegroup.status''"
definition nodeclass_Name :: string where "nodeclass_Name = ''nodeclass''"
definition instancetypecapacity_Name :: string where "instancetypecapacity_Name = ''instancetype.capacity''"
definition ephemeralstorage_Name :: string where "ephemeralstorage_Name = ''instancetype.ephemeralstorage''"

lemmas name_defs = providerid_Name_def garbagecollection_Name_def nodegroupstatus_Name_def
  nodeclass_Name_def instancetypecapacity_Name_def ephemeralstorage_Name_def

text \<open>With the catalogue the host controller is given, which its constructor changes.\<close>

definition NewControllers :: "name \<Rightarrow> inst_state \<Rightarrow> 'w sys \<Rightarrow> controller list \<times> inst_state \<times> 'w sys" where
  "NewControllers nodeName st s =
     (let controllers =
        [ProviderIdController, GarbageCollectionController, NodeGroupStatusController, NodeClassController,
         CapacityController]
      in if nodeName \<noteq> '''' then
           let (st', s') = NewHostController st s in (controllers @ [HostStorageController nodeName], st', s')
         else (controllers, st, s))"

section \<open>What they register for\<close>

datatype object = NodeObject node | NodeGroupObject nodegroup | NodeClaimObject nodeclaim | NodeClassObject nodeclass

text \<open>\<^verbatim>\<open>predicate.Funcs\<close>: a function that is not given lets the event pass.\<close>

record filter_funcs =
  CreateFunc :: "(object \<Rightarrow> bool) option"
  UpdateFunc :: "(object \<Rightarrow> object \<Rightarrow> bool) option"
  DeleteFunc :: "(object \<Rightarrow> bool) option"
  GenericFunc :: "(object \<Rightarrow> bool) option"

definition nodeNeedsProviderID :: "object \<Rightarrow> bool" where
  "nodeNeedsProviderID obj = (case obj of NodeObject nd \<Rightarrow> needsProviderID nd | _ \<Rightarrow> False)"

definition nodeIsWorkerWithCapacity :: "object \<Rightarrow> bool" where
  "nodeIsWorkerWithCapacity obj = (case obj of NodeObject nd \<Rightarrow> isWorkerWithCapacity nd | _ \<Rightarrow> False)"

definition groupIsManaged :: "object \<Rightarrow> bool" where
  "groupIsManaged obj = (case obj of NodeGroupObject ng \<Rightarrow> IsManaged ng | _ \<Rightarrow> False)"

definition providerIdFilter :: filter_funcs where
  "providerIdFilter =
     \<lparr>CreateFunc = Some nodeNeedsProviderID, UpdateFunc = Some (\<lambda>old new. nodeNeedsProviderID new),
      DeleteFunc = Some (\<lambda>obj. False), GenericFunc = None\<rparr>"

definition capacityFilter :: filter_funcs where
  "capacityFilter =
     \<lparr>CreateFunc = Some nodeIsWorkerWithCapacity, UpdateFunc = Some (\<lambda>old new. nodeIsWorkerWithCapacity new),
      DeleteFunc = Some (\<lambda>obj. False), GenericFunc = None\<rparr>"

definition statusFilter :: filter_funcs where
  "statusFilter =
     \<lparr>CreateFunc = Some groupIsManaged, UpdateFunc = Some (\<lambda>old new. groupIsManaged old \<or> groupIsManaged new),
      DeleteFunc = Some groupIsManaged, GenericFunc = Some groupIsManaged\<rparr>"

text \<open>The map functions of the two controllers that watch other objects: the names they queue.\<close>

definition statusClaimRequests :: "object \<Rightarrow> name list" where
  "statusClaimRequests obj = (case obj of NodeClaimObject claim \<Rightarrow> nodeGroupOfNodeClaim claim | _ \<Rightarrow> [])"

text \<open>
  What \<^verbatim>\<open>Register\<close> asks of the manager: the kind whose objects are reconciled by name, with the filter on their
  events; other kinds, with the function from their objects to names; whether the controller also runs on
  its own (a singleton, which requeues itself under the empty name); and the limit on concurrent reconciles
  where one is set (the manager's default is one).
\<close>

datatype watched = Nodes | NodeGroups | NodeClaims | NodeClasses

record registration =
  rgName :: string
  rgFor :: "watched option"
  rgFilter :: filter_funcs
  rgWatches :: "(watched \<times> (object \<Rightarrow> name list)) list"
  rgSingleton :: bool
  rgMaxConcurrent :: "nat option"

definition every_event :: filter_funcs where
  "every_event = \<lparr>CreateFunc = None, UpdateFunc = None, DeleteFunc = None, GenericFunc = None\<rparr>"

definition providerid_Register :: registration where
  "providerid_Register = \<lparr>rgName = providerid_Name, rgFor = Some Nodes, rgFilter = providerIdFilter, rgWatches = [],
     rgSingleton = False, rgMaxConcurrent = Some 1\<rparr>"

definition garbagecollection_Register :: registration where
  "garbagecollection_Register = \<lparr>rgName = garbagecollection_Name, rgFor = None, rgFilter = every_event, rgWatches = [],
     rgSingleton = True, rgMaxConcurrent = None\<rparr>"

definition nodegroupstatus_Register :: registration where
  "nodegroupstatus_Register = \<lparr>rgName = nodegroupstatus_Name, rgFor = Some NodeGroups, rgFilter = statusFilter,
     rgWatches = [(NodeClaims, statusClaimRequests)], rgSingleton = False, rgMaxConcurrent = None\<rparr>"

definition nodeclass_Register :: registration where
  "nodeclass_Register = \<lparr>rgName = nodeclass_Name, rgFor = Some NodeClasses, rgFilter = every_event, rgWatches = [],
     rgSingleton = False, rgMaxConcurrent = None\<rparr>"

definition instancetypecapacity_Register :: registration where
  "instancetypecapacity_Register = \<lparr>rgName = instancetypecapacity_Name, rgFor = Some Nodes, rgFilter = capacityFilter,
     rgWatches = [], rgSingleton = False, rgMaxConcurrent = None\<rparr>"

definition nameOf :: "object \<Rightarrow> name" where
  "nameOf obj = (case obj of NodeObject nd \<Rightarrow> noName nd | NodeGroupObject ng \<Rightarrow> ngName ng
     | NodeClaimObject claim \<Rightarrow> ncName claim | NodeClassObject class \<Rightarrow> clName class)"

definition ephemeralstorage_Register :: "name \<Rightarrow> registration" where
  "ephemeralstorage_Register nodeName = \<lparr>rgName = ephemeralstorage_Name, rgFor = None, rgFilter = every_event,
     rgWatches = [(Nodes, \<lambda>obj. host_requests nodeName (nameOf obj))], rgSingleton = True, rgMaxConcurrent = None\<rparr>"

fun register :: "controller \<Rightarrow> registration" where
  "register ProviderIdController = providerid_Register"
| "register GarbageCollectionController = garbagecollection_Register"
| "register NodeGroupStatusController = nodegroupstatus_Register"
| "register NodeClassController = nodeclass_Register"
| "register CapacityController = instancetypecapacity_Register"
| "register (HostStorageController nodeName) = ephemeralstorage_Register nodeName"

lemmas register_defs = providerid_Register_def garbagecollection_Register_def nodegroupstatus_Register_def
  nodeclass_Register_def instancetypecapacity_Register_def ephemeralstorage_Register_def

section \<open>The start of the process\<close>

record wired =
  wiEnv :: provider_env
  wiConf :: inst_conf
  wiInst :: inst_state
  wiControllers :: "controller list"

text \<open>
  \<open>withDefault key d\<close> is \<^verbatim>\<open>env.WithDefaultString\<close>; the rules and the hash are the label library of
  \<open>provider_env\<close>.
\<close>

definition main_start ::
  "(string \<Rightarrow> string \<Rightarrow> string) \<Rightarrow> (string \<Rightarrow> string + 'd) \<Rightarrow> ('d \<Rightarrow> string + FlavorOverride list) \<Rightarrow>
   label_rules \<Rightarrow> hasher \<Rightarrow> 'w sys \<Rightarrow> wired \<times> 'w sys" where
  "main_start withDefault readFile unmarshal rules hash s =
     (let region = withDefault ''CLEVER_CLOUD_REGION'' ''par'';
          (overrides, s1) = LoadFlavorsOrDegrade readFile unmarshal (withDefault ''FLAVORS_CONFIG_PATH'' '''') s;
          flavors = NewProvider [] overrides;
          (controllers, inst, s2) = NewControllers (withDefault ''NODE_NAME'' '''') inst0 s1
      in (\<lparr>wiEnv = \<lparr>peRules = rules, peHash = hash, peCatalogue = Some (SizingOf flavors)\<rparr>,
           wiConf = \<lparr>icRegion = region, icFlavors = flavors\<rparr>, wiInst = inst, wiControllers = controllers\<rparr>, s2))"

section \<open>The labels of the process\<close>

text \<open>\<^verbatim>\<open>init\<close> of labels.go, on karpenter-core's two sets.\<close>

record core_labels =
  coRestrictedDomains :: "string set"
  coWellKnown :: "string set"

definition labels_init :: "core_labels \<Rightarrow> core_labels" where
  "labels_init core =
     core\<lparr>coRestrictedDomains := insert Group (coRestrictedDomains core),
          coWellKnown := coWellKnown core \<union>
            {InstanceCPULabelKey, InstanceMemoryLabelKey, FlavorLabelKey, NodeRoleLabelKey}\<rparr>"

text \<open>The labels karpenter-core documents as well known, as far as instance types use them.\<close>

definition core_documented :: "core_labels \<Rightarrow> bool" where
  "core_documented core \<longleftrightarrow>
     {LabelInstanceTypeStable, LabelArchStable, LabelOSStable, LabelTopologyRegion, LabelTopologyZone,
      CapacityTypeLabelKey} \<subseteq> coWellKnown core"

lemma declared_labels_are_well_known:
  assumes "core_documented core"
  shows "rqKey ` set (itRequirements (newInstanceType L conf st f)) \<subseteq> coWellKnown (labels_init core)"
    and "off \<in> set (itOfferings (newInstanceType L conf st f)) \<Longrightarrow>
      rqKey ` set (ofRequirements off) \<subseteq> rqKey ` set (itRequirements (newInstanceType L conf st f))"
  using assms
  by (auto simp: core_documented_def labels_init_def newInstanceType_def type_requirements_def offering_requirements_def
      oneOf_def Let_def split: prod.splits)

section \<open>The API types of the process\<close>

text \<open>
  \<^verbatim>\<open>runtime.Scheme\<close> is apimachinery's: a type of schemes, the two registrations the sources call, and the
  group, version and kind triples it recognises.
\<close>

record 's scheme_lib =
  smAddToGroupVersion :: "string \<times> string \<Rightarrow> 's \<Rightarrow> 's"
  smAddKnownTypes :: "string \<times> string \<Rightarrow> string list \<Rightarrow> 's \<Rightarrow> 's"
  smKnown :: "'s \<Rightarrow> (string \<times> string \<times> string) set"

definition lawful_scheme :: "'s scheme_lib \<Rightarrow> bool" where
  "lawful_scheme S \<longleftrightarrow>
     (\<forall>g v ks sm. smKnown S (smAddKnownTypes S (g, v) ks sm) = smKnown S sm \<union> {(g, v, k) |k. k \<in> set ks}) \<and>
     (\<forall>gv sm. smKnown S sm \<subseteq> smKnown S (smAddToGroupVersion S gv sm))"

definition CleverCloudGroup :: string where
  "CleverCloudGroup = ''api.clever-cloud.com''"

text \<open>The \<^verbatim>\<open>init\<close> of the two \<^verbatim>\<open>doc.go\<close>.\<close>

definition nodegroup_init :: "'s scheme_lib \<Rightarrow> 's \<Rightarrow> 's" where
  "nodegroup_init S sm =
     (let gv = (CleverCloudGroup, ''v1'')
      in smAddKnownTypes S gv [''NodeGroup'', ''NodeGroupList''] (smAddToGroupVersion S gv sm))"

definition nodeclass_init :: "'s scheme_lib \<Rightarrow> 's \<Rightarrow> 's" where
  "nodeclass_init S sm =
     (let gv = (Group, ''v1alpha1'')
      in smAddKnownTypes S gv [''CleverNodeClass'', ''CleverNodeClassList''] (smAddToGroupVersion S gv sm))"

text \<open>\<^verbatim>\<open>GetSupportedNodeClasses\<close>: one empty object of the provider's kind. \<^verbatim>\<open>Name\<close>, and \<^verbatim>\<open>Reboot\<close>, which is not implemented.\<close>

datatype reboot_error = NodeRebootNotImplemented

definition GetSupportedNodeClasses :: "string list" where
  "GetSupportedNodeClasses = [''CleverNodeClass'']"

definition Reboot :: "nodeclaim \<Rightarrow> string \<Rightarrow> reboot_error option" where
  "Reboot claim reason = Some NodeRebootNotImplemented"

definition cloudprovider_Name :: string where
  "cloudprovider_Name = ''clevercloud''"

text \<open>
  In either order of initialisation, the scheme knows both resources and their lists, every node class
  the provider supports is of a kind it knows, and a claim this provider takes as its own refers to one
  it supports.
\<close>

lemma types_are_known:
  assumes "lawful_scheme S" and "sm = nodeclass_init S (nodegroup_init S sm0) \<or> sm = nodegroup_init S (nodeclass_init S sm0)"
  shows "{(CleverCloudGroup, ''v1'', ''NodeGroup''), (CleverCloudGroup, ''v1'', ''NodeGroupList''),
      (Group, ''v1alpha1'', ''CleverNodeClass''), (Group, ''v1alpha1'', ''CleverNodeClassList'')} \<subseteq> smKnown S sm"
    and "\<forall>k \<in> set GetSupportedNodeClasses. (Group, ''v1alpha1'', k) \<in> smKnown S sm"
    and "isOurs claim \<Longrightarrow> \<exists>r. ncClassRef claim = Some r \<and> crGroup r = Group \<and> crKind r \<in> set GetSupportedNodeClasses"
proof -
  have add: "(g, v, k) \<in> smKnown S (smAddKnownTypes S gv ks t)" if "(g, v) = gv \<and> k \<in> set ks \<or> (g, v, k) \<in> smKnown S t" for g v k gv ks t
    using assms(1) that by (cases gv) (auto simp: lawful_scheme_def)
  have keep: "x \<in> smKnown S t \<Longrightarrow> x \<in> smKnown S (smAddToGroupVersion S gv t)" for x t gv
    using assms(1) unfolding lawful_scheme_def by blast
  show known: "{(CleverCloudGroup, ''v1'', ''NodeGroup''), (CleverCloudGroup, ''v1'', ''NodeGroupList''),
      (Group, ''v1alpha1'', ''CleverNodeClass''), (Group, ''v1alpha1'', ''CleverNodeClassList'')} \<subseteq> smKnown S sm"
    using assms(2) by (auto simp: nodegroup_init_def nodeclass_init_def Let_def intro!: add keep)
  then show "\<forall>k \<in> set GetSupportedNodeClasses. (Group, ''v1alpha1'', k) \<in> smKnown S sm"
    by (simp add: GetSupportedNodeClasses_def)
  show "isOurs claim \<Longrightarrow> \<exists>r. ncClassRef claim = Some r \<and> crGroup r = Group \<and> crKind r \<in> set GetSupportedNodeClasses"
    by (auto simp: isOurs_def GetSupportedNodeClasses_def split: option.splits)
qed

text \<open>
  C35. Start-up succeeds whatever the configuration says, and everything is wired once. A missing,
  unreadable or invalid file of flavors still leaves a catalogue that serves every built-in flavor; the
  quota engine sizes flavors by that very catalogue; no two controllers share a name, each is driven by
  the objects it reconciles or by itself, and each reconciles one object at a time; and the disk of new
  machines is taken from a node, with a controller to read it, exactly when one is named.
\<close>

theorem start_up_is_total:
  assumes "main_start withDefault readFile unmarshal rules hash s = (w, s')"
  shows "(\<forall>n. SizingByName n \<noteq> None \<longrightarrow> served (icFlavors (wiConf w)) n \<noteq> None) \<and>
    peCatalogue (wiEnv w) = Some (SizingOf (icFlavors (wiConf w))) \<and>
    distinct (map (rgName \<circ> register) (wiControllers w)) \<and>
    (\<forall>c \<in> set (wiControllers w). (rgFor (register c) \<noteq> None \<or> rgSingleton (register c)) \<and> rgMaxConcurrent (register c) \<in> {None, Some 1}) \<and>
    isRequired (wiInst w) = (withDefault ''NODE_NAME'' '''' \<noteq> '''') \<and>
    (\<forall>n. HostStorageController n \<in> set (wiControllers w) \<longleftrightarrow> n = withDefault ''NODE_NAME'' '''' \<and> n \<noteq> '''') \<and>
    EphemeralStorageReady (wiInst w) = (withDefault ''NODE_NAME'' '''' = '''')"
proof -
  obtain overrides s1 where load: "LoadFlavorsOrDegrade readFile unmarshal (withDefault ''FLAVORS_CONFIG_PATH'' '''') s = (overrides, s1)"
    by (meson surj_pair)
  have "\<forall>n. SizingByName n \<noteq> None \<longrightarrow> served (NewProvider [] overrides) n \<noteq> None"
    using degraded_load_keeps_builtins [OF load] by blast
  then show ?thesis
    using assms load
    by (auto simp: main_start_def NewControllers_def NewHostController_def RequireEphemeralStorageReference_def inst0_def
        EphemeralStorageReady_def register_defs name_defs Let_def split: if_splits)
qed

section \<open>A quota rejection closes the larger flavors\<close>

definition remembers :: "catalogue \<Rightarrow> flavor \<Rightarrow> time \<Rightarrow> refusals \<Rightarrow> bool" where
  "remembers cat f t m \<longleftrightarrow> (\<exists>r. map_of (quotaRejections m) f = Some r \<and> t \<le> qrAt r \<and> qrSize r = sizing cat f)"

text \<open>What the rest of the process may do meanwhile: anything but a DELETE that frees capacity.\<close>

definition no_relief :: "time \<Rightarrow> ref_op \<Rightarrow> bool" where
  "no_relief t x \<longleftrightarrow> (\<forall>k. x \<noteq> ClearQuota k) \<and> (\<forall>f msg t'. x = RecordQuota f msg t' \<longrightarrow> t \<le> t')"

lemma remembers_step: "remembers cat f t m \<Longrightarrow> no_relief t x \<Longrightarrow> remembers cat f t (run_op cat x m)"
  by (cases x) (auto simp: remembers_def no_relief_def recordQuotaRejection_simps recordFlavorRejection_def
      clearFlavorRejection_def Let_def split: option.splits)

lemma remembers_run: "remembers cat f t m \<Longrightarrow> list_all (no_relief t) ops \<Longrightarrow> remembers cat f t (run_ops cat ops m)"
  by (induction ops arbitrary: m) (auto intro: remembers_step)

lemma remembers_unavailable:
  assumes "remembers cat f t m" and "clock < t + minute"
    and "g = f \<or> (\<exists>a b. sizing cat g = Some a \<and> sizing cat f = Some b \<and> AtLeast a b)"
  shows "Unavailable cat clock g m"
proof -
  obtain r where r: "(f, r) \<in> set (quotaRejections m)" "t \<le> qrAt r" "qrSize r = sizing cat f"
    using assms(1) by (auto simp: remembers_def dest: map_of_SomeD)
  have "clock < qrAt r + minute" "clock < qrAt r + 2 * minute" using r(2) assms(2) by (simp_all add: dur_defs)
  then show ?thesis using r assms(3) unfolding Unavailable_coversNow by (auto simp: coversNow_def intro!: bexI [of _ "(f, r)"])
qed

lemma offered_is_served:
  assumes "it \<in> set (fst (instanceTypes C K s))"
  shows "\<exists>g. served (icFlavors (cvConf C)) (itName it) = Some g"
proof -
  have "itName it \<in> set (map flName (icFlavors (cvConf C)))"
    using assms by (auto simp: instanceTypes_def ListForProvisioning_def Let_def split: if_splits)
  then show ?thesis by (cases "served (icFlavors (cvConf C)) (itName it)") (auto simp: served_def find_None_iff)
qed

text \<open>
  C10. A quota rejection closes what is at least as large, and nothing reopens it early. In the process as it
  is wired, take any history of the memory of refusals in which the quota rejected a flavor at some time
  and, since then, no deletion freed capacity. For one minute, every flavor the adapter picks for a claim is
  another one, with less CPU or less memory in the catalogue than the rejected flavor has there.
\<close>

theorem quota_rejection_closes_larger_flavors:
  assumes "main_start withDefault readFile unmarshal rules hash s0 = (w, s1)"
    and "cvEnv C = wiEnv w" "cvConf C = wiConf w" "lawful_sched (cvSched C)"
    and "refs s = run_ops (peCatalogue (wiEnv w)) (before @ RecordQuota f msg t # ops) m" "list_all (no_relief t) ops"
    and "now K s < t + minute"
    and "resolveInstanceType C K claim s = (Inr it, s')"
  shows "itName it \<noteq> f \<and> (\<exists>g. served (icFlavors (wiConf w)) (itName it) = Some g \<and>
    (\<forall>size. SizingOf (icFlavors (wiConf w)) f = Some size \<longrightarrow> flCPU g < CPU size \<or> flMemoryKi g < MemoryKi size))"
proof -
  let ?cat = "peCatalogue (wiEnv w)"
  have cat: "?cat = Some (SizingOf (icFlavors (wiConf w)))"
    using assms(1) by (auto simp: main_start_def Let_def split: prod.splits)
  have "remembers ?cat f t (recordQuotaRejection ?cat t f msg m1)" for m1
    by (simp add: remembers_def recordQuotaRejection_simps)
  then have memory: "remembers ?cat f t (refs s)"
    unfolding assms(5) by (simp add: run_ops_def remembers_run [unfolded run_ops_def] assms(6))
  have "pick_cheapest C claim (fst (instanceTypes C K s)) = Inr it" using resolveInstanceType_cases [OF assms(8)] by auto
  then have best: "launchable C claim it" "it \<in> set (fst (instanceTypes C K s))"
    using pick_cheapest_result [where C = C and claim = claim and its = "fst (instanceTypes C K s)"] by auto
  then have open_now: "\<not> Unavailable ?cat (now K s) (itName it) (refs s)"
    using open_offering_available [OF assms(4)] assms(2) by fastforce
  obtain g where g: "served (icFlavors (wiConf w)) (itName it) = Some g"
    using offered_is_served [OF best(2)] assms(3) by auto
  then have "sizing ?cat (itName it) = Some (Sizing (flCPU g) (flMemoryKi g))" by (simp add: cat sizing_def SizingOf_def)
  then show ?thesis
    using remembers_unavailable [OF memory assms(7), of "itName it"] open_now g
    by (auto simp: cat sizing_def AtLeast_def) (meson linorder_not_le)+
qed

section \<open>The filters\<close>

datatype watch_event = Created object | Updated object object | Gone object | Other object

fun passes :: "filter_funcs \<Rightarrow> watch_event \<Rightarrow> bool" where
  "passes P (Created obj) = (case CreateFunc P of None \<Rightarrow> True | Some f \<Rightarrow> f obj)"
| "passes P (Updated old new) = (case UpdateFunc P of None \<Rightarrow> True | Some f \<Rightarrow> f old new)"
| "passes P (Gone obj) = (case DeleteFunc P of None \<Rightarrow> True | Some f \<Rightarrow> f obj)"
| "passes P (Other obj) = (case GenericFunc P of None \<Rightarrow> True | Some f \<Rightarrow> f obj)"

text \<open>What a read finds that sees what the event tells of.\<close>

fun found_after :: "watch_event \<Rightarrow> object option" where
  "found_after (Created obj) = Some obj"
| "found_after (Updated old new) = Some new"
| "found_after (Gone obj) = None"
| "found_after (Other obj) = Some obj"

text \<open>What there was before, as far as the event tells.\<close>

fun found_before :: "watch_event \<Rightarrow> object option" where
  "found_before (Created obj) = None"
| "found_before (Updated old new) = Some old"
| "found_before (Gone obj) = Some obj"
| "found_before (Other obj) = Some obj"

definition node_seen :: "'w kube \<Rightarrow> name \<Rightarrow> 'w sys \<Rightarrow> watch_event \<Rightarrow> bool" where
  "node_seen K n s ev \<longleftrightarrow>
     (case fst (kGetNode K Cached n (world s)) of
        Inr nd \<Rightarrow> found_after ev = Some (NodeObject nd)
      | Inl e \<Rightarrow> e = NotFound \<and> found_after ev = None)"

definition group_seen :: "'w kube \<Rightarrow> name \<Rightarrow> 'w sys \<Rightarrow> watch_event \<Rightarrow> bool" where
  "group_seen K n s ev \<longleftrightarrow>
     (case fst (kGetNG K Cached n (world s)) of
        Inr ng \<Rightarrow> ngName ng = n \<and> found_after ev = Some (NodeGroupObject ng)
      | Inl e \<Rightarrow> e = NotFound \<and> found_after ev = None)"

lemma call_reads: "call K cat f e s = (r, s') \<Longrightarrow> r = fst (f (world s)) \<and> did s s' = [e r]"
  by (auto simp: did_def call_def returned_def elapse_def emit_def Let_def split: prod.splits)

lemma idle_stamp:
  assumes "\<not> passes (rgFilter providerid_Register) ev" "node_seen K n s ev" "pid_Reconcile K cat n (st, s) = (r, st', s')"
  shows "r = None \<and> st' = st \<and> (\<exists>a. did s s' = [ReadNode Cached n a])"
proof -
  obtain a s1 where g: "getNode K cat Cached n s = (a, s1)" by (meson surj_pair)
  note read = call_reads [OF g [unfolded getNode_def]]
  show ?thesis
    using assms g read by (cases ev) (auto simp: pid_Reconcile_def register_defs providerIdFilter_def node_seen_def nodeNeedsProviderID_def
        needsProviderID_def IgnoreNotFound_def split: sum.splits option.splits if_splits)
qed

lemma idle_capacity:
  assumes "\<not> passes (rgFilter instancetypecapacity_Register) ev" "node_seen K n s ev" "ReconcileCapacity F K n inst c s = (r, inst', c', s')"
  shows "r = None \<and> inst' = host_meanwhile F (world s') inst \<and> c' = c \<and> (\<exists>a. did s s' = [ReadNode Cached n a])"
proof -
  obtain a s1 where g: "getNode K (feCatalogue F) Cached n s = (a, s1)" by (meson surj_pair)
  note read = call_reads [OF g [unfolded getNode_def]]
  show ?thesis
    using assms g read by (cases ev) (auto simp: ReconcileCapacity_def register_defs capacityFilter_def node_seen_def nodeIsWorkerWithCapacity_def
        IgnoreNotFound_def Let_def split: sum.splits option.splits if_splits)
qed

lemma idle_status:
  assumes "\<not> passes (rgFilter nodegroupstatus_Register) ev" "group_seen K n s ev" "status_Reconcile E K n (st, s) = (r, st', s')"
    and "n \<in> set (ssOverdue st) \<longrightarrow> (\<exists>obj. found_before ev = Some obj \<and> groupIsManaged obj)"
  shows "r = Inr None \<and> ssOverdue st' = ssOverdue st \<and>
    (\<exists>a. did s s' = [ReadNG Cached n a, SetGauge NodeGroupSyncOverdue (of_nat (length (ssOverdue st)))])"
proof -
  obtain a s1 where g: "getNG K (peCatalogue E) Cached n s = (a, s1)" by (meson surj_pair)
  note read = call_reads [OF g [unfolded getNG_def]] trace_call [OF g [unfolded getNG_def]]
  have "n \<notin> set (ssOverdue st)" using assms(1,4) by (cases ev) (auto simp: register_defs statusFilter_def)
  then show ?thesis
    using assms g read by (cases ev) (auto simp: status_Reconcile_def launchedNodeClaim_def forget_def register_defs statusFilter_def group_seen_def
        groupIsManaged_def did_def removeAll_id Let_def split: sum.splits option.splits if_splits)
qed
text \<open>
  C30. What the watches leave out would have changed nothing. When a controller's filter drops an event, a
  reconcile that reads the object as the event left it reads it once and ends there, without an error:
  it stamps no node, records no capacity, and neither fails a launch nor changes which launches are overdue,
  as long as only groups that were managed are counted overdue. A claim that queues no group is not a launch the status controller follows, and another node than the
  host queues nothing and would be ignored.
\<close>

theorem filters_drop_only_idle_events:
  assumes "node_seen K n s ev"
    and "n \<in> set (ssOverdue ss) \<longrightarrow> (\<exists>obj. found_before ev' = Some obj \<and> groupIsManaged obj)"
  shows "(\<not> passes (rgFilter providerid_Register) ev \<longrightarrow> (\<exists>s' a. pid_Reconcile K cat n (pst, s) = (None, pst, s') \<and> did s s' = [ReadNode Cached n a])) \<and>
    (\<not> passes (rgFilter instancetypecapacity_Register) ev \<longrightarrow>
       (\<exists>s' a. ReconcileCapacity F K n inst c s = (None, host_meanwhile F (world s') inst, c, s') \<and> did s s' = [ReadNode Cached n a])) \<and>
    (group_seen K n s ev' \<and> \<not> passes (rgFilter nodegroupstatus_Register) ev' \<longrightarrow>
       (\<exists>ss' s' a. status_Reconcile E K n (ss, s) = (Inr None, ss', s') \<and> ssOverdue ss' = ssOverdue ss \<and>
          did s s' = [ReadNG Cached n a, SetGauge NodeGroupSyncOverdue (of_nat (length (ssOverdue ss)))])) \<and>
    (statusClaimRequests (NodeClaimObject claim) = [] \<longrightarrow> \<not> followed_launch ng claim) \<and>
    (host_requests nodeName n = [] \<longrightarrow> n \<noteq> '''' \<longrightarrow> ReconcileHostStorage F K nodeName n inst s = (Inr None, inst, s))"
proof -
  obtain r1 st1 s1 where p: "pid_Reconcile K cat n (pst, s) = (r1, st1, s1)" using prod_cases3 by blast
  obtain r2 i2 c2 s2 where c: "ReconcileCapacity F K n inst c s = (r2, i2, c2, s2)" using prod_cases4 by blast
  obtain r3 st3 s3 where g: "status_Reconcile E K n (ss, s) = (r3, st3, s3)" using prod_cases3 by blast
  show ?thesis
    using idle_stamp [OF _ assms(1) p] idle_capacity [OF _ assms(1) c] idle_status [OF _ _ g assms(2)] p c g
    by (auto simp: statusClaimRequests_def nodeGroupOfNodeClaim_def followed_launch_def host_requests_def
        ReconcileHostStorage_def split: if_splits)
qed

section \<open>Examples\<close>

definition no_env :: "string \<Rightarrow> string \<Rightarrow> string" where
  "no_env key d = (if key = ''NODE_NAME'' then ''cp'' else if key = ''FLAVORS_CONFIG_PATH'' then ''flavors.yaml'' else d)"

definition started :: "wired \<times> unit sys" where
  "started = main_start no_env (\<lambda>p. Inl ''no such file'' :: string + string) (\<lambda>d. Inl ''syntax'') (peRules example_env) (peHash example_env) (start ())"

lemma started_run:
  "main_start no_env (\<lambda>p. Inl ''no such file'' :: string + string) (\<lambda>d. Inl ''syntax'') (peRules example_env) (peHash example_env) (start ()) =
     (fst started, snd started)"
  by (simp add: started_def)

theorem start_up_is_total_witness:
  "served (icFlavors (wiConf (fst started))) ''XL'' \<noteq> None \<and> HostStorageController ''cp'' \<in> set (wiControllers (fst started))"
proof -
  have "SizingByName ''XL'' \<noteq> None" "no_env ''NODE_NAME'' '''' = ''cp''" by (simp_all add: SizingByName_def FlavorSizing_def no_env_def)
  then show ?thesis using start_up_is_total [OF started_run] by auto
qed

definition no_pids :: pid_state where
  "no_pids = \<lparr>piResized = [], piStripped = []\<rparr>"

text \<open>A node of nobody, and a group of nobody, both updated.\<close>

definition bare_node :: node where
  "bare_node = \<lparr>noMeta = meta0\<lparr>omName := ''n''\<rparr>, noProviderID = '''', noCapacity = Map.empty, noAllocatable = Map.empty\<rparr>"

definition bare_group :: nodegroup where
  "bare_group = \<lparr>ngMeta = meta0\<lparr>omName := ''n''\<rparr>,
     ngSpec = \<lparr>nsFlavor = ''M'', nsNodeCount = 1, nsLabels = Map.empty, nsTaints = []\<rparr>, ngStatus = status0\<rparr>"

definition bare_world :: "unit kube" where
  "bare_world = silent\<lparr>kGetNode := \<lambda>rd n w. (Inr bare_node, w), kGetNG := \<lambda>rd n w. (Inr bare_group, w)\<rparr>"

theorem filters_drop_only_idle_events_witness:
  "(\<exists>s' a. pid_Reconcile bare_world None ''n'' (no_pids, start ()) = (None, no_pids, s') \<and> did (start ()) s' = [ReadNode Cached ''n'' a]) \<and>
   (\<exists>ss' s'. status_Reconcile example_env bare_world ''n'' (NewStatusController, start ()) = (Inr None, ss', s'))"
proof -
  let ?node = "Updated (NodeObject bare_node) (NodeObject bare_node)"
  let ?group = "Updated (NodeGroupObject bare_group) (NodeGroupObject bare_group)"
  have seen: "node_seen bare_world ''n'' (start ()) ?node" "group_seen bare_world ''n'' (start ()) ?group"
    by (simp_all add: node_seen_def group_seen_def bare_world_def bare_group_def meta0_def)
  have dropped: "\<not> passes (rgFilter providerid_Register) ?node" "\<not> passes (rgFilter nodegroupstatus_Register) ?group"
    by (simp_all add: register_defs providerIdFilter_def statusFilter_def nodeNeedsProviderID_def needsProviderID_def groupIsManaged_def
        IsManaged_def bare_node_def bare_group_def meta0_def valOf_def)
  have "''n'' \<in> set (ssOverdue NewStatusController) \<longrightarrow> (\<exists>obj. found_before ?group = Some obj \<and> groupIsManaged obj)"
    by (simp add: NewStatusController_def)
  from filters_drop_only_idle_events [OF seen(1) this, where pst = no_pids and cat = None and E = example_env] seen dropped
  show ?thesis by metis
qed

text \<open>The adapter of the example, on the catalogue of the process that started with nothing configured.\<close>

definition wired_shop :: "unit provider_conf" where
  "wired_shop = shop\<lparr>cvEnv := wiEnv (fst started), cvConf := wiConf (fst started)\<rparr>"

definition no_room :: "unit sys" where
  "no_room = (start ())\<lparr>refs := run_ops (peCatalogue (wiEnv (fst started))) ([] @ RecordQuota ''S'' ''quota'' 0 # []) refusals0\<rparr>"

lemma started_sizes:
  "map (\<lambda>f. (flName f, Sizing (flCPU f) (flMemoryKi f))) (icFlavors (wiConf (fst started))) = FlavorSizing"
proof -
  have "icFlavors (wiConf (fst started)) = NewProvider [] []"
    by (simp add: started_def main_start_def no_env_def LoadFlavorsOrDegrade_def LoadFlavorsFromFile_def Let_def split: prod.splits)
  then show ?thesis
    by (simp add: NewProvider_def ApplyOverrides_builtin wanted_cpu_def wanted_memoryKi_def FlavorSizing_def SizingByName_def)
qed

lemma served_sizes:
  "map_option (\<lambda>f. Sizing (flCPU f) (flMemoryKi f)) (served fs n) = map_of (map (\<lambda>f. (flName f, Sizing (flCPU f) (flMemoryKi f))) fs) n"
  by (induction fs) (simp_all add: served_def)

lemma started_sizing: "SizingOf (icFlavors (wiConf (fst started))) = SizingByName"
proof
  fix n
  show "SizingOf (icFlavors (wiConf (fst started))) n = SizingByName n"
    using served_sizes [of "icFlavors (wiConf (fst started))" n] unfolding started_sizes SizingByName_def [symmetric]
    by (auto simp: SizingOf_def split: option.splits)
qed

lemma started_catalogue: "peCatalogue (wiEnv (fst started)) = Some SizingByName"
  unfolding started_sizing [symmetric] by (simp add: started_def main_start_def Let_def split: prod.splits)

lemma wired_shop_chooses: "\<exists>it s'. resolveInstanceType wired_shop closed_shop example_claim no_room = (Inr it, s')"
proof -
  have C: "cvEnv wired_shop = wiEnv (fst started)" "cvConf wired_shop = wiConf (fst started)" "cvSched wired_shop = any_sched"
    "cvInst wired_shop w = inst0" "cvLib wired_shop = exact_lib" for w
    by (simp_all add: wired_shop_def)
  obtain f where f: "f \<in> set (icFlavors (wiConf (fst started)))" "flName f = ''2XS''"
    using arg_cong [OF started_sizes, of "map fst"] by (force simp: FlavorSizing_def comp_def map_eq_Cons_conv)
  have "\<not> Unavailable (Some SizingByName) 0 ''2XS'' (refs no_room)"
    by (simp add: no_room_def started_catalogue Unavailable_coversNow coversNow_def held_def recordQuotaRejection_def refusals0_def
        sizing_def SizingByName_def FlavorSizing_def AtLeast_def)
  moreover have "now closed_shop no_room = 0" by (simp add: now_def)
  ultimately have it: "newInstanceType exact_lib (wiConf (fst started)) inst0 f \<in> set (fst (instanceTypes wired_shop closed_shop no_room))"
    using f by (auto simp: instanceTypes_def ListForProvisioning_def C started_catalogue inst0_def Let_def intro!: rev_image_eqI)
  have "launchable wired_shop example_claim (newInstanceType exact_lib (wiConf (fst started)) inst0 f)"
    by (simp add: launchable_def fitting_def open_offerings_def C)
  then obtain best where "pick_cheapest wired_shop example_claim (fst (instanceTypes wired_shop closed_shop no_room)) = Inr best"
    using it pick_cheapest_result [where C = wired_shop and claim = example_claim and its = "fst (instanceTypes wired_shop closed_shop no_room)"]
    by (cases "pick_cheapest wired_shop example_claim (fst (instanceTypes wired_shop closed_shop no_room))") auto
  moreover have "snd (instanceTypes wired_shop closed_shop no_room)"
    by (simp add: instanceTypes_def ListForProvisioning_def C inst0_def)
  ultimately show ?thesis by (auto simp: resolveInstanceType_def split: prod.splits)
qed

theorem quota_rejection_closes_larger_flavors_witness:
  "\<exists>it s' g. resolveInstanceType wired_shop closed_shop example_claim no_room = (Inr it, s') \<and>
     served (icFlavors (wiConf (fst started))) (itName it) = Some g \<and> itName it \<noteq> ''S'' \<and> (flCPU g < 8 \<or> flMemoryKi g < 11385832)"
proof -
  obtain it s' where r: "resolveInstanceType wired_shop closed_shop example_claim no_room = (Inr it, s')"
    using wired_shop_chooses by blast
  have env: "cvEnv wired_shop = wiEnv (fst started)" "cvConf wired_shop = wiConf (fst started)" "lawful_sched (cvSched wired_shop)"
    by (simp_all add: wired_shop_def any_sched_lawful)
  have memory: "refs no_room = run_ops (peCatalogue (wiEnv (fst started))) ([] @ RecordQuota ''S'' ''quota'' 0 # []) refusals0"
    by (simp add: no_room_def)
  have time: "now closed_shop no_room < 0 + minute" by (simp add: now_def dur_defs)
  from quota_rejection_closes_larger_flavors [OF started_run env memory _ time r] r started_sizing show ?thesis
    by (auto simp: SizingByName_def FlavorSizing_def)
qed
end
