(* ===== verification/Reasons.thy ===== *)
theory Reasons
  imports Process
begin

text \<open>
  What each goroutine has read before it creates or deletes something, as a justification of its
  effects that whole runs keep to: \<open>posted\<close> and \<open>refused_read\<close> for launches, \<open>managed_read\<close> for karpenter-core's
  deletions, \<open>swept\<close> for the collector.
\<close>

text \<open>The claims a group names: its label, or its own name, and its owner references.\<close>

definition claims_of :: "nodegroup \<Rightarrow> name list" where
  "claims_of g = claimNameOf g # NodeClaimOwners g"

section \<open>What a launch reads before it posts\<close>

definition posted :: "effect list \<Rightarrow> effect \<Rightarrow> bool" where
  "posted xs e = (case e of
     CreatedNG p a \<Rightarrow> claims_of p = [ngName p, ngName p] \<and> ReadNG Uncached (ngName p) (Inl NotFound) \<in> set xs \<and>
       (\<exists>c. ReadClaim Uncached (ngName p) (Inr c) \<in> set xs \<and> \<not> ncTerminating c \<and> map orUID (omOwners (ngMeta p)) = [ncUID c])
   | _ \<Rightarrow> True)"

lemma grows_posted: "grows posted"
  by (rule growsI, case_tac e) (auto simp: posted_def)

lemma posted_no_create: "no_create e \<Longrightarrow> posted xs e"
  by (cases e) (simp_all add: posted_def)

lemma payload_claims: "claims_of (newNodeGroup E claim l) = [ncName claim, ncName claim]"
proof -
  have "NodeClaimOwners (newNodeGroup E claim l) = [ncName claim]"
    by (simp add: NodeClaimOwners_def newNodeGroup_def HasPrefix_def)
  moreover have "claimNameOf (newNodeGroup E claim l) = ncName claim"
    by (simp add: claimNameOf_def valOf_def Let_def)
  ultimately show ?thesis by (simp add: claims_of_def)
qed

lemma payload_owner_uid: "map orUID (omOwners (ngMeta (newNodeGroup E claim l))) = [ncUID claim]"
  by (simp add: newNodeGroup_def)

lemma create_posted:
  assumes "CreateClaim C K claim warned s = (r, warned', s')"
  shows "guarded posted s s'"
proof (cases "\<exists>ng a. CreatedNG ng a \<in> set (did s s')")
  case True
  then obtain ng a where c: "CreatedNG ng a \<in> set (did s s')" by blast
  obtain xs ys live l where d: "did s s' = xs @ CreatedNG ng a # ys" "list_all no_create xs" "list_all no_create ys"
    "ReadNG Uncached (ncName claim) (Inl NotFound) \<in> set xs" "ReadClaim Uncached (ncName claim) (Inr live) \<in> set xs"
    "ncUID live = ncUID claim" "\<not> ncTerminating live" "ng = newNodeGroup (cvEnv C) claim l"
    using CreateClaim_posts [OF assms c] by blast
  have always: "list_all no_create zs \<Longrightarrow> justified posted zs" for zs
    by (rule justified_always) (auto simp: list_all_iff posted_no_create)
  have "posted xs (CreatedNG ng a)"
    using d(4-8) payload_claims payload_owner_uid by (auto simp: posted_def)
  from justified_append [OF grows_posted justified_snoc [OF always [OF d(2)] this] always [OF d(3)]]
  have "justified posted (did s s')" by (simp add: d(1))
  moreover have "trace s' = trace s @ did s s'" using acts_create [OF assms] by (auto simp: only_def did_def)
  ultimately show ?thesis by (auto simp: guarded_def)
next
  case False
  have "only no_create s s'"
    using acts_create [OF assms] False by (auto simp: only_def did_def list_all_iff elim!: is_create.elims)
  then show ?thesis by (rule only_guarded) (rule posted_no_create)
qed

section \<open>What the collector reads before it deletes\<close>

text \<open>
  What comes before each deletion of the collector, in this order: the list that showed the object,
  then the uncached reads that found nothing.
\<close>

definition swept :: "effect list \<Rightarrow> effect \<Rightarrow> bool" where
  "swept xs e = (case e of
     DeletedNG n d \<Rightarrow> \<exists>us sel ngs vs ng. xs = us @ ListedNG sel (Inr ngs) # vs \<and> ng \<in> set ngs \<and> ngName ng = n \<and>
       (\<forall>x \<in> set (claims_of ng). ReadClaim Uncached x (Inl NotFound) \<in> set vs)
   | DeletedClaim c p d \<Rightarrow> \<exists>us cs vs. xs = us @ ListedClaims (Inr cs) # vs \<and> c \<in> set cs \<and> vanished c \<and>
       ReadNG Uncached (groupOfClaim c) (Inl NotFound) \<in> set vs
   | _ \<Rightarrow> True)"

lemma swept_prefix:
  assumes "swept ys e"
  shows "swept (xs @ ys) e"
proof (cases e)
  case (DeletedNG n d)
  with assms obtain us sel ngs vs ng where "ys = us @ ListedNG sel (Inr ngs) # vs" "ng \<in> set ngs" "ngName ng = n"
    "\<forall>x \<in> set (claims_of ng). ReadClaim Uncached x (Inl NotFound) \<in> set vs"
    by (auto simp: swept_def)
  then show ?thesis unfolding DeletedNG swept_def effect.case by (metis append_assoc)
next
  case (DeletedClaim c p d)
  with assms obtain us cs vs where "ys = us @ ListedClaims (Inr cs) # vs" "c \<in> set cs" "vanished c"
    "ReadNG Uncached (groupOfClaim c) (Inl NotFound) \<in> set vs"
    by (auto simp: swept_def)
  then show ?thesis unfolding DeletedClaim swept_def effect.case by (metis append_assoc)
qed (simp_all add: swept_def)

lemma grows_swept: "grows swept"
  by (simp add: grows_def swept_prefix)

lemma swept_harmless: "harmless e \<Longrightarrow> swept xs e"
  by (cases e) (simp_all add: swept_def)

lemma gc_swept:
  assumes "gc_Reconcile E K gc s = (r, gc', s')"
  shows "guarded swept s s'"
  using gc_Reconcile_order [OF assms]
proof (elim disjE exE conjE)
  assume "only harmless s s'"
  then show ?thesis by (rule only_guarded) (rule swept_harmless)
next
  fix ngs claims xs es
  let ?groups = "ListedNG [(ManagedLabelKey, ''true'')] (Inr ngs)" and ?claims = "ListedClaims (Inr claims)"
  assume t: "trace s' = trace s @ ?groups # xs @ ?claims # es" and xs: "list_all harmless xs"
    and es: "justified (gc_justifies K ngs claims) es"
  have j: "swept (?groups # xs @ ?claims # us) e" if gj: "gc_justifies K ngs claims us e" for us e
  proof (cases e)
    case (DeletedNG n d)
    then obtain ng where "ng \<in> set ngs" "ngName ng = n"
      "\<forall>x \<in> set (claims_of ng). ReadClaim Uncached x (Inl NotFound) \<in> set us"
      using gj unfolding DeletedNG gc_justifies_def claims_of_def effect.case by blast
    then have "ng \<in> set ngs" "ngName ng = n"
      "\<forall>x \<in> set (claims_of ng). ReadClaim Uncached x (Inl NotFound) \<in> set (xs @ ?claims # us)"
      by simp_all
    then show ?thesis unfolding DeletedNG swept_def effect.case
      by (metis append_Nil)
  next
    case (DeletedClaim c p d)
    then have "c \<in> set claims" "vanished c" "ReadNG Uncached (groupOfClaim c) (Inl NotFound) \<in> set us"
      using gj by (simp_all add: gc_justifies_def)
    then show ?thesis unfolding DeletedClaim swept_def effect.case
      by (metis append_Cons)
  qed (simp_all add: swept_def)
  have "justified swept (?groups # xs @ ?claims # es)"
    unfolding justified_def
  proof (intro allI impI)
    fix us e vs
    assume eq: "?groups # xs @ ?claims # es = us @ e # vs"
    show "swept us e"
    proof (cases "harmless e")
      case False
      with eq xs obtain ws where "us = ?groups # xs @ ?claims # ws" "es = ws @ e # vs"
        by (auto simp: Cons_eq_append_conv append_eq_append_conv2 append_eq_Cons_conv list_all_iff)
      with es j show ?thesis by (simp add: justified_def)
    qed (rule swept_harmless)
  qed
  with t show ?thesis by (auto simp: guarded_def)
qed

section \<open>What a launch and a deletion read before they delete\<close>

text \<open>
  What a launch and a deletion of karpenter-core's have read before they delete a group: a launch has
  seen it refused, neither Ready nor going away; a deletion has seen it managed and not going away.
\<close>

definition refused_read :: "effect list \<Rightarrow> effect \<Rightarrow> bool" where
  "refused_read xs e = (case e of
     DeletedNG n d \<Rightarrow> \<exists>rd g. ReadNG rd n (Inr g) \<in> set xs \<and> IsRefused g \<and> \<not> IsSynced g \<and> \<not> ngTerminating g
   | _ \<Rightarrow> True)"

definition managed_read :: "effect list \<Rightarrow> effect \<Rightarrow> bool" where
  "managed_read xs e = (case e of
     DeletedNG n d \<Rightarrow> \<exists>m g. ReadNG Cached m (Inr g) \<in> set xs \<and> ngName g = n \<and> IsManaged g \<and> \<not> ngTerminating g
   | _ \<Rightarrow> True)"

lemma grows_reads: "grows refused_read" "grows managed_read"
  by (rule growsI, case_tac e, auto simp: refused_read_def) (rule growsI, case_tac e, auto simp: managed_read_def)

lemma deletes_no_group: "act_of e \<noteq> DeletesNG \<Longrightarrow> refused_read xs e" "act_of e \<noteq> DeletesNG \<Longrightarrow> managed_read xs e"
  by (cases e; simp add: refused_read_def managed_read_def)+

lemma acts_refused_read: "only (acts_in S) s s' \<Longrightarrow> DeletesNG \<notin> S \<Longrightarrow> guarded refused_read s s'"
  by (erule only_guarded) (auto simp: acts_in_def intro!: deletes_no_group(1))

lemma poll_refused_read:
  assumes "waitForAcceptance K cat n observed rd s = (a, retried, err, s')"
  shows "guarded refused_read s s'"
proof -
  from waitForAcceptance_spec [OF assms] obtain rs where p: "polled n observed rd (observed \<noteq> None) rs s s'" by blast
  let ?out = "judged observed (observed \<noteq> None) rs" and ?reads = "map (ReadNG rd n) rs"
  have reads: "justified refused_read ?reads" by (rule justified_always) (auto simp: refused_read_def)
  show ?thesis
  proof (cases "is_refusal ?out")
    case False
    then have "trace s' = trace s @ ?reads" using p by (simp add: polled_def)
    with reads show ?thesis by (auto simp: guarded_def)
  next
    case True
    then have "?out \<noteq> Again" by auto
    from judged_from [OF refl this] obtain r sn where r: "r \<in> set rs" "verdict observed sn r = ?out" by blast
    with verdict_refusal [of observed sn r] True obtain g where
      g: "r = Inr g" "IsRefused g" "\<not> IsSynced g" "\<not> ngTerminating g" by auto
    obtain d where t: "trace s' = trace s @ ?reads @ [Count (refusal_counter ?out), DeletedNG n d]"
      using p True by (auto simp: polled_def)
    have "refused_read (?reads @ [Count (refusal_counter ?out)]) (DeletedNG n d)"
      using r(1) g by (auto simp: refused_read_def)
    moreover have "justified refused_read (?reads @ [Count (refusal_counter ?out)])"
      by (rule justified_snoc [OF reads]) (simp add: refused_read_def)
    ultimately have "justified refused_read (?reads @ [Count (refusal_counter ?out)] @ [DeletedNG n d])"
      using justified_snoc by fastforce
    with t show ?thesis by (auto simp: guarded_def)
  qed
qed

lemma follow_refused_read:
  assumes "follow E K claim ng observed rd mark s = (r, s')"
  shows "guarded refused_read s s'"
proof -
  obtain a retried err s1 where w: "waitForAcceptance K (peCatalogue E) (ngName ng) observed rd s = (a, retried, err, s1)"
    using prod_cases4 by blast
  let ?s2 = "case retried of Some t \<Rightarrow> publishTransientFailure claim (ngName ng) t a err s1 | None \<Rightarrow> s1"
  have "only (acts_in {Reports}) s1 ?s2"
    by (auto simp: publishTransientFailure_def split: option.splits prod.splits intro!: only_intros)
  then have "only (acts_in {Reports}) s1 s'"
    using assms unfolding follow_def w Let_def prod.case
    by (auto simp: launch_failed_def publishQuotaEvent_def split: option.splits if_splits wait_error.splits intro!: only_intros)
  then show ?thesis
    using guarded_trans [OF grows_reads(1) poll_refused_read [OF w]] acts_refused_read by blast
qed

lemma launch_refused_read:
  assumes "ResolveAndCreate E K claim (\<lambda>_. (Inr l, t)) s = (r, s')"
  shows "guarded refused_read t s'"
proof (cases rule: ResolveAndCreate_cases [OF refl assms])
  case (2 e)
  show ?thesis by (rule acts_refused_read [OF acts_obtain [OF 2(2), where S = "{Reads, Reports, CreatesNG}"]]) simp_all
next
  case (3 ng seen s2)
  have "guarded refused_read t s2"
    by (rule acts_refused_read [OF acts_obtain [OF 3(2), where S = "{Reads, Reports, CreatesNG}"]]) simp_all
  then show ?thesis by (rule guarded_trans [OF grows_reads(1) _ follow_refused_read [OF 3(3)]])
qed simp

lemma create_refused_read:
  assumes "CreateClaim C K claim warned s = (r, warned', s')"
  shows "guarded refused_read s s'"
proof -
  have resolved: "guarded refused_read s t" if "resolve_create C K claim warned s = (x, w, t)" for x w t
    by (rule acts_refused_read [OF acts_resolve [OF that, where S = describing_acts]]) simp_all
  note trans = guarded_trans [OF grows_reads(1)]
  show ?thesis
  proof (cases rule: CreateClaim_cases [OF assms])
    case (1 e)
    then show ?thesis using resolved by blast
  next
    case (2 l it s1 e)
    show ?thesis by (rule trans [OF resolved [OF 2(1)] launch_refused_read [OF 2(2)]])
  next
    case (3 l it w1 s1 ng s2)
    have "guarded refused_read s2 s'" by (rule only_guarded [OF 3(3)]) (auto simp: noting_def refused_read_def)
    then show ?thesis by (rule trans [OF trans [OF resolved [OF 3(1)] launch_refused_read [OF 3(2)]]])
  qed
qed

lemma delete_managed_read:
  assumes "DeleteClaim C K claim s = (r, s')"
  shows "guarded managed_read s s'"
proof -
  let ?n = "case ParseProviderID (ncProviderID claim) of Some n \<Rightarrow> n | None \<Rightarrow> ncName claim"
  obtain a s1 where g: "GetNodeGroup (cvEnv C) K ?n s = (a, s1)" by (meson surj_pair)
  have t: "trace s1 = trace s @ [ReadNG Cached ?n a]" by (rule trace_call [OF g [unfolded GetNodeGroup_def getNG_def]])
  have read: "justified managed_read [ReadNG Cached ?n a]" by (rule justified_always) (simp add: managed_read_def)
  show ?thesis
  proof (cases "\<exists>ng. a = Inr ng \<and> IsManaged ng \<and> \<not> ngTerminating ng")
    case False
    then have "s' = s1" using assms g by (auto simp: DeleteClaim_def Let_def split: sum.splits if_splits)
    with t read show ?thesis by (auto simp: guarded_def)
  next
    case True
    then obtain ng where ng: "a = Inr ng" "IsManaged ng" "\<not> ngTerminating ng" by blast
    obtain d s2 where d: "deleteNG K (cvCat C) (ngName ng) s1 = (d, s2)" by (meson surj_pair)
    have "trace s2 = trace s1 @ [DeletedNG (ngName ng) d]" by (rule trace_call [OF d [unfolded deleteNG_def]])
    moreover have "trace s' = trace s2"
      using assms g ng d by (auto simp: DeleteClaim_def DeleteNodeGroup_def Let_def split: option.splits if_splits)
    moreover have "justified managed_read ([ReadNG Cached ?n a] @ [DeletedNG (ngName ng) d])"
      by (rule justified_snoc [OF read]) (use ng in \<open>auto simp: managed_read_def\<close>)
    ultimately show ?thesis using t by (auto simp: guarded_def)
  qed
qed

end
