(* ===== verification/ClusterHistory.thy ===== *)
theory ClusterHistory
  imports Reasons
begin

text \<open>
  Histories of a cluster: what NodeClaims and NodeGroups come and go, and between them every effect of
  every goroutine of the process, in the order the API server saw them. The law \<open>legal\<close> of a history is
  what the API server promises of its answers; users, the operator and the platform may do anything:
  reuse the name of a claim, rewrite the labels and the owners of a group, create a group again. What
  the process does is any run of its code. The theorems say why anything is created or destroyed, what
  the collector never does to a claim that is alive, and that no goroutine writes another one's objects.
\<close>

section \<open>The goroutines by name\<close>

datatype actor = Launcher | Remover | Viewer | Collector | StatusFollower | Stamper | ClassKeeper | Feeder

text \<open>
  One call of a goroutine. What a controller remembers from its earlier calls is any at each call: no
  theorem here depends on it.
\<close>

inductive actor_does :: "'w process \<Rightarrow> 'w kube \<Rightarrow> actor \<Rightarrow> (unit, 'w) proc_step" for P :: "'w process" and K :: "'w kube" where
  launches: "CreateClaim (pcCloud P) K claim warned s = (r, warned', s') \<Longrightarrow> actor_does P K Launcher (u, s) (u, s')"
| removes: "DeleteClaim (pcCloud P) K claim s = (r, s') \<Longrightarrow> actor_does P K Remover (u, s) (u, s')"
| views: "GetClaim (pcCloud P) K pid warned s = (r, warned', s') \<Longrightarrow> actor_does P K Viewer (u, s) (u, s')"
| views_all: "ListNodeClaims (pcCloud P) K warned s = (r, warned', s') \<Longrightarrow> actor_does P K Viewer (u, s) (u, s')"
| views_drift: "IsDrifted (pcCloud P) K claim s = (r, s') \<Longrightarrow> actor_does P K Viewer (u, s) (u, s')"
| collects: "gc_Reconcile (cvEnv (pcCloud P)) K gc s = (r, gc', s') \<Longrightarrow> actor_does P K Collector (u, s) (u, s')"
| follows: "status_Reconcile (cvEnv (pcCloud P)) K n (st, s) = (r, st', s') \<Longrightarrow> actor_does P K StatusFollower (u, s) (u, s')"
| stamps: "pid_Reconcile K cat n (pst, s) = (r, pst', s') \<Longrightarrow> actor_does P K Stamper (u, s) (u, s')"
| keeps: "class_Reconcile (cvEnv (pcCloud P)) K (pcConds P) (pcRejectionText P) (pcProbeText P) n s = (r, s') \<Longrightarrow>
    actor_does P K ClassKeeper (u, s) (u, s')"
| feeds: "ReconcileCapacity (pcFeed P) K n cst c s = (r, cst', c', s') \<Longrightarrow> actor_does P K Feeder (u, s) (u, s')"
| feeds_host: "ReconcileHostStorage (pcFeed P) K nodeName req cst s = (e, cst', s') \<Longrightarrow> actor_does P K Feeder (u, s) (u, s')"

text \<open>A goroutine may have these effects: calls from a fresh trace, with anything between them.\<close>

definition performs :: "'w process \<Rightarrow> 'w kube \<Rightarrow> actor \<Rightarrow> effect list \<Rightarrow> bool" where
  "performs P K A es \<longleftrightarrow> (\<exists>s0 s. trace s0 = [] \<and> run (actor_does P K A) ((), s0) ((), s) \<and> trace s = es)"

inductive_cases launcher_does: "actor_does P K Launcher x y"
inductive_cases remover_does: "actor_does P K Remover x y"
inductive_cases follower_does: "actor_does P K StatusFollower x y"
inductive_cases collector_does: "actor_does P K Collector x y"

section \<open>Who writes what\<close>

definition writing :: "act set" where
  "writing = {CreatesNG, DeletesNG, PatchesNG, DeletesClaim, PatchesClass, PatchesClassStatus, PatchesNode}"

fun may :: "actor \<Rightarrow> act set" where
  "may Launcher = {CreatesNG, DeletesNG}"
| "may Remover = {DeletesNG}"
| "may Viewer = {}"
| "may Collector = {DeletesNG, DeletesClaim}"
| "may StatusFollower = {DeletesClaim}"
| "may Stamper = {PatchesNode}"
| "may ClassKeeper = {PatchesNG, PatchesClass, PatchesClassStatus}"
| "may Feeder = {}"

text \<open>The effects a goroutine may have: its own writes, and anything that writes no object.\<close>

abbreviation permitted :: "actor \<Rightarrow> act set" where
  "permitted A \<equiv> may A \<union> - writing"

lemma permitted_gc: "gc_Reconcile E K gc s = (r, gc', s') \<Longrightarrow> only (acts_in (permitted Collector)) s s'"
proof -
  assume "gc_Reconcile E K gc s = (r, gc', s')"
  from gc_Reconcile_guarded [OF this] show ?thesis
  proof
    assume "only harmless s s'"
    then show ?thesis by (rule only_mono) (case_tac e; simp add: writing_def)
  next
    assume "\<exists>ngs claims. ListedNG [(ManagedLabelKey, ''true'')] (Inr ngs) \<in> set (did s s') \<and>
      ListedClaims (Inr claims) \<in> set (did s s') \<and> guarded (gc_justifies K ngs claims) s s'"
    then obtain ngs claims where "guarded (gc_justifies K ngs claims) s s'" by blast
    then show ?thesis by (rule guarded_only) (case_tac e; simp add: writing_def gc_justifies_def)
  qed
qed

lemma permitted_status:
  assumes "status_Reconcile E K n (st, s) = (r, st', s')"
  shows "only (acts_in (permitted StatusFollower)) s s'"
  using guarded_status_Reconcile [OF assms]
  by (rule guarded_only) (case_tac e; simp add: writing_def status_justifies_def)

lemma actor_permitted: "actor_does P K A x y \<Longrightarrow> only (acts_in (permitted A)) (snd x) (snd y)"
proof (induction rule: actor_does.induct)
  case (collects gc s r gc' s' u)
  then show ?case using permitted_gc by simp
next
  case (follows n st s r st' s' u)
  then show ?case using permitted_status by simp
next
  case launches
  then show ?case by (auto intro!: acts_mono [OF acts_create] simp: writing_def)
next
  case removes
  then show ?case by (auto intro!: acts_mono [OF acts_delete] simp: writing_def)
next
  case views
  then show ?case by (auto intro!: acts_mono [OF acts_get] simp: writing_def)
next
  case views_all
  then show ?case by (auto intro!: acts_mono [OF acts_list] simp: writing_def)
next
  case views_drift
  then show ?case by (auto intro!: acts_mono [OF acts_drift] simp: writing_def)
next
  case stamps
  then show ?case by (auto intro!: acts_mono [OF acts_pid] simp: writing_def)
next
  case keeps
  then show ?case by (auto intro!: acts_mono [OF acts_class] simp: writing_def)
next
  case feeds
  then show ?case by (auto intro!: acts_mono [OF acts_capacity] simp: writing_def)
next
  case feeds_host
  then show ?case by (auto intro!: acts_mono [OF acts_host] simp: writing_def)
qed

section \<open>Histories\<close>

datatype happening =
    ClaimBorn name string
  | ClaimGone name
  | GroupStored nodegroup
  | GroupGone name
  | Did actor effect

text \<open>What a goroutine did in a history.\<close>

definition part :: "actor \<Rightarrow> happening list \<Rightarrow> effect list" where
  "part A H = concat (map (\<lambda>h. case h of Did B e \<Rightarrow> if B = A then [e] else [] | _ \<Rightarrow> []) H)"

text \<open>The live claims by name and UID, every version of a NodeGroup ever stored, and the names of those there are.\<close>

fun live_step :: "happening \<Rightarrow> (name \<times> string) list \<Rightarrow> (name \<times> string) list" where
  "live_step (ClaimBorn n u) cs = (n, u) # cs"
| "live_step (ClaimGone n) cs = filter (\<lambda>c. fst c \<noteq> n) cs"
| "live_step _ cs = cs"

definition live :: "happening list \<Rightarrow> (name \<times> string) list" where
  "live H = fold live_step H []"

fun stored_by :: "happening \<Rightarrow> nodegroup list" where
  "stored_by (GroupStored g) = [g]"
| "stored_by (Did A (CreatedNG p (Inr g))) = [g]"
| "stored_by _ = []"

definition versions :: "happening list \<Rightarrow> nodegroup list" where
  "versions H = concat (map stored_by H)"

definition present_step :: "happening \<Rightarrow> name list \<Rightarrow> name list" where
  "present_step h ns = (case h of GroupGone n \<Rightarrow> removeAll n ns | _ \<Rightarrow> map ngName (stored_by h) @ ns)"

definition present :: "happening list \<Rightarrow> name list" where
  "present H = fold present_step H []"

text \<open>
  What the API server promises. A claim is created under a name that is free, and with a UID that no claim
  ever had. An uncached read of a claim or a group tells the present. A list may come from a cache, but
  shows only what was stored once.
\<close>

fun truthful :: "happening list \<Rightarrow> effect \<Rightarrow> bool" where
  "truthful past (ReadClaim Uncached n (Inl NotFound)) \<longleftrightarrow> n \<notin> fst ` set (live past)"
| "truthful past (ReadClaim Uncached n (Inr c)) \<longleftrightarrow> (n, ncUID c) \<in> set (live past)"
| "truthful past (ReadNG Uncached n (Inl NotFound)) \<longleftrightarrow> n \<notin> set (present past)"
| "truthful past (ListedNG sel (Inr ngs)) \<longleftrightarrow> set ngs \<subseteq> set (versions past)"
| "truthful past (ListedClaims (Inr cs)) \<longleftrightarrow> (\<forall>c \<in> set cs. ClaimBorn (ncName c) (ncUID c) \<in> set past)"
| "truthful past _ \<longleftrightarrow> True"

definition used_uids :: "happening list \<Rightarrow> string set" where
  "used_uids past = {u. \<exists>n. ClaimBorn n u \<in> set past}"

fun allowed :: "happening list \<Rightarrow> happening \<Rightarrow> bool" where
  "allowed past (ClaimBorn n u) \<longleftrightarrow> n \<notin> fst ` set (live past) \<and> u \<notin> used_uids past"
| "allowed past (Did A e) \<longleftrightarrow> truthful past e"
| "allowed past _ \<longleftrightarrow> True"

fun legal_after :: "happening list \<Rightarrow> happening list \<Rightarrow> bool" where
  "legal_after past [] \<longleftrightarrow> True"
| "legal_after past (h # H) \<longleftrightarrow> allowed past h \<and> legal_after (past @ [h]) H"

abbreviation legal :: "happening list \<Rightarrow> bool" where
  "legal \<equiv> legal_after []"

text \<open>A history of the process: legal, and every goroutine's part of it is its code's.\<close>

definition history :: "'w process \<Rightarrow> (actor \<Rightarrow> 'w kube) \<Rightarrow> happening list \<Rightarrow> bool" where
  "history P K H \<longleftrightarrow> legal H \<and> (\<forall>A. performs P (K A) A (part A H))"

lemma part_simps [simp]:
  "part A [] = []" "part A (H @ H') = part A H @ part A H'"
  "part A (Did B e # H) = (if B = A then e # part A H else part A H)"
  "part A (ClaimBorn n u # H) = part A H" "part A (ClaimGone n # H) = part A H"
  "part A (GroupStored g # H) = part A H" "part A (GroupGone n # H) = part A H"
  by (simp_all add: part_def)

lemma set_part: "e \<in> set (part A H) \<longleftrightarrow> Did A e \<in> set H"
  by (induction H) (auto simp: part_def split: happening.split)

lemma legal_append: "legal_after past (xs @ ys) \<longleftrightarrow> legal_after past xs \<and> legal_after (past @ xs) ys"
  by (induction xs arbitrary: past) auto

lemma live_simps [simp]: "live [] = []" "live (H @ [h]) = live_step h (live H)"
  by (simp_all add: live_def)

lemma present_simps [simp]: "present [] = []" "present (H @ [h]) = present_step h (present H)"
  by (simp_all add: present_def)

lemma versions_simps [simp]: "versions [] = []" "versions (H @ H') = versions H @ versions H'"
  "versions (h # H) = stored_by h @ versions H"
  by (simp_all add: versions_def)

text \<open>A part's order is the history's.\<close>

lemma part_split:
  "part A H = xs @ e # ys \<Longrightarrow> \<exists>us vs. H = us @ Did A e # vs \<and> part A us = xs \<and> part A vs = ys"
proof (induction H arbitrary: xs)
  case (Cons h H)
  show ?case
  proof (cases "\<exists>d. h = Did A d")
    case False
    then have h: "part A (h # ws) = part A ws" for ws by (cases h) auto
    with Cons.prems have "part A H = xs @ e # ys" by simp
    from Cons.IH [OF this] obtain us vs where "H = us @ Did A e # vs" "part A us = xs" "part A vs = ys" by blast
    then show ?thesis using h [of us] by (intro exI [of _ "h # us"] exI [of _ vs]) simp
  next
    case True
    then obtain d where h: "h = Did A d" by blast
    show ?thesis
    proof (cases xs)
      case Nil
      then show ?thesis using Cons.prems h by (intro exI [of _ "[]"] exI [of _ H]) simp
    next
      case xs: (Cons x xs')
      then have "part A H = xs' @ e # ys" using Cons.prems h by simp
      from Cons.IH [OF this] obtain us vs where "H = us @ Did A e # vs" "part A us = xs'" "part A vs = ys" by blast
      then show ?thesis using Cons.prems h xs by (intro exI [of _ "h # us"] exI [of _ vs]) simp
    qed
  qed
qed simp

text \<open>
  A goroutine that is careful: a justification that every call of it keeps to. Then every effect of it
  in a history is justified by its own earlier effects.
\<close>

locale careful =
  fixes P :: "'w process" and A :: actor and J :: "effect list \<Rightarrow> effect \<Rightarrow> bool"
  assumes grown: "grows J" and keeps: "actor_does P K A ((), s) ((), s') \<Longrightarrow> guarded J s s'"
begin

lemma run_keeps: "run (actor_does P K A) x y \<Longrightarrow> guarded J (snd x) (snd y)"
proof (induction rule: run.induct)
  case (run_does x y)
  then show ?case using keeps [of K "snd x" "snd y"] by (cases x, cases y) (auto intro: guarded_trans [OF grown])
next
  case (run_idle st s w m)
  then show ?case by (simp add: guarded_def)
qed simp

lemma performs_justified: "performs P K A es \<Longrightarrow> justified J es"
  unfolding performs_def by (auto dest!: run_keeps simp: guarded_def)

lemma reasons:
  assumes "history P K H" and "H = us @ Did A e # vs"
  shows "J (part A us) e"
proof -
  have "performs P (K A) A (part A H)" using assms(1) by (simp add: history_def)
  from performs_justified [OF this] have "justified J (part A us @ e # part A vs)" by (simp add: assms(2))
  then show ?thesis by (simp add: justified_def)
qed

end

interpretation launches_posted: careful P Launcher posted for P :: "'w process"
  by unfold_locales (auto elim: launcher_does intro: grows_posted create_posted)

interpretation launches_refused: careful P Launcher refused_read for P :: "'w process"
  by unfold_locales (auto elim: launcher_does intro: grows_reads create_refused_read)

interpretation removes_managed: careful P Remover managed_read for P :: "'w process"
  by unfold_locales (auto elim: remover_does intro: grows_reads delete_managed_read)

interpretation collects_swept: careful P Collector swept for P :: "'w process"
  by unfold_locales (auto elim: collector_does intro: grows_swept gc_swept)

interpretation follows_refused: careful P StatusFollower status_justifies for P :: "'w process"
  by unfold_locales (auto elim: follower_does intro: grows_status guarded_status_Reconcile)

interpretation keeps_to_its_own: careful P A "\<lambda>xs. acts_in (permitted A)" for P :: "'w process" and A
  by unfold_locales (simp add: grows_def, rule only_guarded [where P = "acts_in (permitted A)"], drule actor_permitted, simp_all)

lemma history_legal: "history P K H \<Longrightarrow> legal H"
  by (simp add: history_def)

lemma legal_at: "legal H \<Longrightarrow> H = us @ h # vs \<Longrightarrow> allowed us h"
  by (simp add: legal_append)

lemma legal_prefix: "legal (us @ vs) \<Longrightarrow> legal us"
  by (simp add: legal_append)

lemma goroutines_allow:
  assumes "history P K H" and "Did A e \<in> set H"
  shows "act_of e \<in> permitted A"
proof -
  obtain us vs where "H = us @ Did A e # vs" using assms(2) by (meson split_list)
  from keeps_to_its_own.reasons [OF assms(1) this] show ?thesis by (simp add: acts_in_def)
qed

lemma live_born: "(n, u) \<in> set (live H) \<Longrightarrow> ClaimBorn n u \<in> set H"
proof (induction H rule: rev_induct)
  case (snoc h H)
  then show ?case by (cases h) auto
qed simp

text \<open>
  C14. Every goroutine writes its own objects only. In any history of the process, NodeGroups are created
  by launches alone; they are deleted by launches, karpenter-core's deletions and the collector; their
  annotations and the NodeClasses are patched by the NodeClass controller; NodeClaims are deleted by the
  collector and the status controller; nodes are patched by the provider ID controller; and answering
  karpenter-core, or feeding the catalogue, writes nothing.
\<close>

theorem goroutines_write_their_own:
  assumes "history P K H" and "Did A e \<in> set H" and "act_of e \<in> writing"
  shows "act_of e \<in> may A"
  using goroutines_allow [OF assms(1,2)] assms(3) by simp

section \<open>Claims do not come back\<close>

text \<open>A claim, by name and UID, that existed once and does not now never does again.\<close>

lemma dead_lasts:
  assumes "legal (H @ H')" "ClaimBorn n u \<in> set H" "(n, u) \<notin> set (live H)"
  shows "(n, u) \<notin> set (live (H @ H'))"
  using assms(1)
proof (induction H' rule: rev_induct)
  case (snoc h H')
  have l: "legal ((H @ H') @ [h])" using snoc.prems by simp
  then have "allowed (H @ H') h" by (simp add: legal_append del: append_assoc)
  moreover have "(n, u) \<notin> set (live (H @ H'))" using snoc l legal_prefix by blast
  ultimately have "(n, u) \<notin> set (live ((H @ H') @ [h]))"
    unfolding live_simps using assms(2) by (cases h) (auto simp: used_uids_def simp del: append_assoc)
  then show ?case by simp
qed (use assms in simp)

section \<open>What was read when\<close>

text \<open>
  What one effect of a goroutine precedes in its part, it precedes in the history. \<open>after_that past A d e Q\<close>:
  the goroutine had the effect \<open>d\<close> and later the effect \<open>e\<close>, at a moment of which \<open>Q\<close> holds.
\<close>

definition after_that :: "happening list \<Rightarrow> actor \<Rightarrow> effect \<Rightarrow> effect \<Rightarrow> (happening list \<Rightarrow> bool) \<Rightarrow> bool" where
  "after_that past A d e Q \<longleftrightarrow>
     (\<exists>xs ys zs. past = xs @ Did A d # ys @ Did A e # zs \<and> Q (xs @ Did A d # ys))"

definition at_that :: "happening list \<Rightarrow> actor \<Rightarrow> effect \<Rightarrow> (happening list \<Rightarrow> bool) \<Rightarrow> bool" where
  "at_that past A e Q \<longleftrightarrow> (\<exists>xs ys. past = xs @ Did A e # ys \<and> Q xs)"

lemma part_order:
  assumes "part A H = us @ d # vs" "e \<in> set vs"
  shows "\<exists>xs ys zs. H = xs @ Did A d # ys @ Did A e # zs"
proof -
  obtain xs ws where H: "H = xs @ Did A d # ws" "part A ws = vs" using part_split [OF assms(1)] by blast
  then have "Did A e \<in> set ws" using assms(2) by (simp add: set_part [symmetric])
  with H split_list show ?thesis by fastforce
qed

lemma read_after:
  assumes "legal H" "part A H = us @ d # vs" "e \<in> set vs" and "\<And>now. truthful now e \<Longrightarrow> Q now"
  shows "after_that H A d e Q"
proof -
  obtain xs ys zs where H: "H = xs @ Did A d # ys @ Did A e # zs" using part_order [OF assms(2,3)] by blast
  then have "truthful (xs @ Did A d # ys) e" using legal_at [OF assms(1), of "xs @ Did A d # ys"] by simp
  with assms(4) H show ?thesis unfolding after_that_def by blast
qed

lemma read_at:
  assumes "legal H" "e \<in> set (part A H)" and "\<And>now. truthful now e \<Longrightarrow> Q now"
  shows "at_that H A e Q"
proof -
  obtain xs ys where H: "H = xs @ Did A e # ys" using assms(2) by (auto simp: set_part dest: split_list)
  then have "truthful xs e" using legal_at [OF assms(1) H] by simp
  with assms(3) H show ?thesis unfolding at_that_def by blast
qed

section \<open>The collector in a history\<close>

text \<open>
  C3. No living claim loses its group to the collector. In any history of the process, whatever users, the
  operator, the platform and the other goroutines did meanwhile, a NodeGroup the collector deletes is
  one it had listed, in a version that was stored; and of the claims that existed when that list was
  answered, none under a name that version gives (its label, or failing that its own name, and its
  owners) is alive at the DELETE, or ever after. A claim created later under such a name is another
  claim, with another UID.
\<close>

theorem living_claims_keep_their_groups:
  assumes "history P K H" and "H = past @ Did Collector (DeletedNG n d) # mid @ rest"
  shows "\<exists>xs sel ngs ys g. past = xs @ Did Collector (ListedNG sel (Inr ngs)) # ys \<and>
    g \<in> set ngs \<and> ngName g = n \<and> g \<in> set (versions xs) \<and>
    (\<forall>x \<in> set (claims_of g). \<forall>u. ClaimBorn x u \<in> set xs \<longrightarrow>
       (x, u) \<notin> set (live (past @ Did Collector (DeletedNG n d) # mid)))"
proof -
  let ?now = "past @ Did Collector (DeletedNG n d) # mid"
  have legal: "legal H" "legal ?now"
    using history_legal [OF assms(1)] legal_prefix [of ?now rest] assms(2) by simp_all
  then have past: "legal past" using legal_prefix by blast
  from collects_swept.reasons [OF assms] obtain us sel ngs vs g where g: "part Collector past = us @ ListedNG sel (Inr ngs) # vs"
    "g \<in> set ngs" "ngName g = n" "\<forall>x \<in> set (claims_of g). ReadClaim Uncached x (Inl NotFound) \<in> set vs"
    by (auto simp: swept_def)
  obtain xs ys where split: "past = xs @ Did Collector (ListedNG sel (Inr ngs)) # ys" "part Collector ys = vs"
    using part_split [OF g(1)] by blast
  have gone: "(x, u) \<notin> set (live ?now)" if x: "x \<in> set (claims_of g)" and born: "ClaimBorn x u \<in> set xs" for x u
  proof -
    have "Did Collector (ReadClaim Uncached x (Inl NotFound)) \<in> set ys"
      using g(4) x split(2) by (simp add: set_part [symmetric])
    then obtain ys1 ys2 where ys: "ys = ys1 @ Did Collector (ReadClaim Uncached x (Inl NotFound)) # ys2" by (meson split_list)
    let ?H = "xs @ Did Collector (ListedNG sel (Inr ngs)) # ys1"
    have "x \<notin> fst ` set (live ?H)"
      using legal_at [OF past, of ?H "Did Collector (ReadClaim Uncached x (Inl NotFound))" ys2] split(1) ys by simp
    then have "(x, u) \<notin> set (live ?H)" by force
    then show ?thesis
      using dead_lasts [of ?H "Did Collector (ReadClaim Uncached x (Inl NotFound)) # ys2 @ Did Collector (DeletedNG n d) # mid" x u]
        legal(2) born split(1) ys by simp
  qed
  have "g \<in> set (versions xs)" using legal_at [OF past split(1)] g(2) by auto
  with split(1) g(2,3) gone show ?thesis by blast
qed

section \<open>Why anything is created or destroyed\<close>

lemma history_posted:
  assumes "history P K H" "H = us @ Did A (CreatedNG p a) # vs"
  shows "A = Launcher \<and> claims_of p = [ngName p, ngName p] \<and>
    at_that us A (ReadNG Uncached (ngName p) (Inl NotFound)) (\<lambda>now. ngName p \<notin> set (present now)) \<and>
    (\<exists>c. map orUID (omOwners (ngMeta p)) = [ncUID c] \<and> \<not> ncTerminating c \<and>
       at_that us A (ReadClaim Uncached (ngName p) (Inr c)) (\<lambda>now. (ngName p, ncUID c) \<in> set (live now)))"
proof -
  have A: "A = Launcher"
    using goroutines_allow [OF assms(1), of A "CreatedNG p a"] assms(2) by (cases A) (simp_all add: writing_def)
  have legal: "legal us" using history_legal [OF assms(1)] legal_prefix assms(2) by blast
  have "posted (part Launcher us) (CreatedNG p a)"
    using assms A by (blast intro: launches_posted.reasons)
  then obtain c where p: "claims_of p = [ngName p, ngName p]" "ReadNG Uncached (ngName p) (Inl NotFound) \<in> set (part Launcher us)"
      "ReadClaim Uncached (ngName p) (Inr c) \<in> set (part Launcher us)" "\<not> ncTerminating c" "map orUID (omOwners (ngMeta p)) = [ncUID c]"
    by (auto simp: posted_def)
  have free: "at_that us Launcher (ReadNG Uncached (ngName p) (Inl NotFound)) (\<lambda>now. ngName p \<notin> set (present now))"
    by (rule read_at [OF legal p(2)]) simp
  have wanted: "at_that us Launcher (ReadClaim Uncached (ngName p) (Inr c)) (\<lambda>now. (ngName p, ncUID c) \<in> set (live now))"
    by (rule read_at [OF legal p(3)]) simp
  show ?thesis unfolding A by (intro conjI exI [of _ c] refl free wanted p(1,4,5))
qed

lemma history_collected:
  assumes "history P K H" and "H = past @ Did Collector (DeletedNG n d) # rest"
  shows "\<exists>sel ngs g. g \<in> set ngs \<and> ngName g = n \<and>
    (\<forall>x \<in> set (claims_of g). after_that past Collector (ListedNG sel (Inr ngs)) (ReadClaim Uncached x (Inl NotFound))
       (\<lambda>now. x \<notin> fst ` set (live now)))"
proof -
  have legal: "legal past" using history_legal [OF assms(1)] assms(2) legal_prefix by blast
  from collects_swept.reasons [OF assms] obtain us sel ngs vs g where g: "part Collector past = us @ ListedNG sel (Inr ngs) # vs"
    "g \<in> set ngs" "ngName g = n" "\<forall>x \<in> set (claims_of g). ReadClaim Uncached x (Inl NotFound) \<in> set vs"
    by (auto simp: swept_def)
  have "after_that past Collector (ListedNG sel (Inr ngs)) (ReadClaim Uncached x (Inl NotFound)) (\<lambda>now. x \<notin> fst ` set (live now))"
    if "x \<in> set (claims_of g)" for x
    by (rule read_after [OF legal g(1)]) (use g(4) that in simp_all)
  with g(2,3) show ?thesis by blast
qed

lemma history_written_off:
  assumes "history P K H" and "H = past @ Did Collector (DeletedClaim c p d) # rest"
  shows "vanished c \<and> ClaimBorn (ncName c) (ncUID c) \<in> set past \<and>
    (\<exists>cs. c \<in> set cs \<and> after_that past Collector (ListedClaims (Inr cs)) (ReadNG Uncached (groupOfClaim c) (Inl NotFound))
       (\<lambda>now. groupOfClaim c \<notin> set (present now)))"
proof -
  have legal: "legal past" using history_legal [OF assms(1)] assms(2) legal_prefix by blast
  from collects_swept.reasons [OF assms] obtain us cs vs where c: "part Collector past = us @ ListedClaims (Inr cs) # vs"
    "c \<in> set cs" "vanished c" "ReadNG Uncached (groupOfClaim c) (Inl NotFound) \<in> set vs"
    by (auto simp: swept_def)
  obtain xs ys where split: "past = xs @ Did Collector (ListedClaims (Inr cs)) # ys" using part_split [OF c(1)] by blast
  have "ClaimBorn (ncName c) (ncUID c) \<in> set past" using legal_at [OF legal split] c(2) split by simp
  moreover have "after_that past Collector (ListedClaims (Inr cs)) (ReadNG Uncached (groupOfClaim c) (Inl NotFound))
      (\<lambda>now. groupOfClaim c \<notin> set (present now))"
    by (rule read_after [OF legal c(1,4)]) simp
  ultimately show ?thesis using c(2,3) by blast
qed

lemma history_failed:
  assumes "history P K H" and "H = past @ Did StatusFollower (DeletedClaim c p d) # rest"
  shows "p = Some (ncUID c, omResourceVersion (ncMeta c)) \<and>
    (\<exists>m g. Did StatusFollower (ReadNG Uncached m (Inr g)) \<in> set past \<and> IsRefused g \<and> \<not> IsSynced g \<and>
       at_that past StatusFollower (ReadClaim Uncached (ngName g) (Inr c)) (\<lambda>now. (ngName g, ncUID c) \<in> set (live now)))"
proof -
  have legal: "legal past" using history_legal [OF assms(1)] assms(2) legal_prefix by blast
  from follows_refused.reasons [OF assms] obtain m g where g: "p = Some (ncUID c, omResourceVersion (ncMeta c))"
    "ReadNG Uncached m (Inr g) \<in> set (part StatusFollower past)" "IsRefused g" "\<not> IsSynced g"
    "ReadClaim Uncached (ngName g) (Inr c) \<in> set (part StatusFollower past)"
    by (auto simp: status_justifies_def)
  have "at_that past StatusFollower (ReadClaim Uncached (ngName g) (Inr c)) (\<lambda>now. (ngName g, ncUID c) \<in> set (live now))"
    by (rule read_at [OF legal g(5)]) simp
  with g show ?thesis by (auto simp: set_part)
qed

text \<open>
  C4. Nothing is created or destroyed without a reason. In any history of the process, a NodeGroup is
  posted only by a launch, after the API server told it that no group of that name existed and that the
  claim did, under the very UID the payload names as its one owner, and not being deleted. A NodeGroup is
  deleted by a launch that read it refused, neither Ready nor going away; or because karpenter-core
  asked, after it was read as managed and not going away; or by the collector, after a list showed it,
  and after that list there was, for each claim it names, a moment at which no claim of that name
  existed. A NodeClaim is deleted by the status controller, with a precondition on exactly the claim it
  read alive after reading its group refused and not Ready; or by the collector, if it was
  listed as launched and unregistered, and after that list there was a moment at which its group did
  not exist. No other goroutine creates or deletes either.
\<close>

theorem writes_have_reasons:
  assumes "history P K H" and "H = past @ Did A e # rest"
  shows "case e of
      CreatedNG p a \<Rightarrow> A = Launcher \<and> claims_of p = [ngName p, ngName p] \<and>
        at_that past A (ReadNG Uncached (ngName p) (Inl NotFound)) (\<lambda>now. ngName p \<notin> set (present now)) \<and>
        (\<exists>c. map orUID (omOwners (ngMeta p)) = [ncUID c] \<and> \<not> ncTerminating c \<and>
           at_that past A (ReadClaim Uncached (ngName p) (Inr c)) (\<lambda>now. (ngName p, ncUID c) \<in> set (live now)))
    | DeletedNG n d \<Rightarrow>
        A = Launcher \<and> (\<exists>rd g. Did A (ReadNG rd n (Inr g)) \<in> set past \<and> IsRefused g \<and> \<not> IsSynced g \<and> \<not> ngTerminating g) \<or>
        A = Remover \<and> (\<exists>m g. Did A (ReadNG Cached m (Inr g)) \<in> set past \<and> ngName g = n \<and> IsManaged g \<and> \<not> ngTerminating g) \<or>
        A = Collector \<and> (\<exists>sel ngs g. g \<in> set ngs \<and> ngName g = n \<and>
          (\<forall>x \<in> set (claims_of g). after_that past A (ListedNG sel (Inr ngs)) (ReadClaim Uncached x (Inl NotFound))
             (\<lambda>now. x \<notin> fst ` set (live now))))
    | DeletedClaim c p d \<Rightarrow>
        A = StatusFollower \<and> p = Some (ncUID c, omResourceVersion (ncMeta c)) \<and>
          (\<exists>m g. Did A (ReadNG Uncached m (Inr g)) \<in> set past \<and> IsRefused g \<and> \<not> IsSynced g \<and>
             at_that past A (ReadClaim Uncached (ngName g) (Inr c)) (\<lambda>now. (ngName g, ncUID c) \<in> set (live now))) \<or>
        A = Collector \<and> vanished c \<and> ClaimBorn (ncName c) (ncUID c) \<in> set past \<and>
          (\<exists>cs. c \<in> set cs \<and> after_that past A (ListedClaims (Inr cs)) (ReadNG Uncached (groupOfClaim c) (Inl NotFound))
             (\<lambda>now. groupOfClaim c \<notin> set (present now)))
    | _ \<Rightarrow> True"
proof (cases e)
  case (CreatedNG p a)
  show ?thesis
    unfolding CreatedNG effect.case by (rule history_posted [OF assms(1) assms(2) [unfolded CreatedNG]])
next
  case (DeletedNG n d)
  have "A = Launcher \<or> A = Remover \<or> A = Collector"
    using goroutines_allow [OF assms(1), of A e] assms(2) DeletedNG by (cases A) (simp_all add: writing_def)
  then show ?thesis
    using launches_refused.reasons [OF assms(1), of past e rest] removes_managed.reasons [OF assms(1), of past e rest]
      history_collected [OF assms(1), of past n d rest] assms(2) DeletedNG
    by (auto simp: refused_read_def managed_read_def set_part)
next
  case (DeletedClaim c p d)
  have "A = StatusFollower \<or> A = Collector"
    using goroutines_allow [OF assms(1), of A e] assms(2) DeletedClaim by (cases A) (simp_all add: writing_def)
  then show ?thesis
    using history_failed [OF assms(1), of past c p d rest] history_written_off [OF assms(1), of past c p d rest]
      assms(2) DeletedClaim
    by auto
qed simp_all

end
