(* ===== verification/HistoryExamples.thy ===== *)
theory HistoryExamples
  imports ClusterHistory CloudExamples
begin

text \<open>
  A history in which a claim is launched and deleted and its group collected, while another claim's
  launch, whose group never came, is written off; then another claim takes the first one's name.
\<close>

section \<open>A launch\<close>

definition machine_up :: nodegroup where
  "machine_up = with_condition ConditionTypeReady '''' '''' running"

definition stocked_shop :: "unit kube" where
  "stocked_shop = silent\<lparr>kGetNG := (\<lambda>rd n w. (if rd = Uncached then Inl NotFound else Inr machine_up, w)),
     kGetClaim := (\<lambda>rd n w. (Inr example_claim, w)), kGetClass := (\<lambda>rd n w. (Inr ready_class, w)),
     kCreateNG := (\<lambda>ng w. (Inr ng, w))\<rparr>"

lemma stocked_shop_simps [simp]:
  "kGetNG stocked_shop rd n w = (if rd = Uncached then Inl NotFound else Inr machine_up, w)"
  "kGetClaim stocked_shop rd n w = (Inr example_claim, w)" "kGetClass stocked_shop rd n w = (Inr ready_class, w)"
  "kCreateNG stocked_shop ng w = (Inr ng, w)" "kOthers stocked_shop w = []" "kNow stocked_shop w = 0"
  by (simp_all add: stocked_shop_def silent_def)

lemma machine_up_simps [simp]: "IsSynced machine_up" "TransientFailure machine_up = None" "omDeleted (ngMeta machine_up) = None"
  by (simp_all add: machine_up_def with_condition_def verdict_defs running_def newNodeGroup_def status0_def ng_consts meta0_def)

definition stocked_create :: "(create_error + described) \<times> flavor list \<times> unit sys" where
  "stocked_create = CreateClaim shop stocked_shop example_claim [] (start ())"

lemma stocked_create_resolves:
  "resolve_create shop stocked_shop example_claim [] (start ()) =
     (Inr (launch_of shop None ready_class (on_sale cheap), on_sale cheap), [], resolved)"
  by (simp add: resolve_create_def existingDiskLaunch_def resolveLaunch_def checkNodeClaimWanted_def
      resolveNodeClassFromNodeClaim_def run_defs shop_choice start_def resolved_def)

definition launch_effects :: "effect list" where
  "launch_effects = [ReadNG Uncached ''c1'' (Inl NotFound), ReadClaim Uncached ''c1'' (Inr example_claim),
     ReadClass Uncached ''default'' (Inr ready_class), CreatedNG running (Inr running), ReadNG Cached ''c1'' (Inr machine_up)]"

lemma stocked_create_trace: "trace (snd (snd stocked_create)) = launch_effects"
proof -
  let ?l = "launch_of shop None ready_class (on_sale cheap)"
  have l: "laExisting ?l = None" "laFlavor ?l = ''S''" by (simp_all add: launch_of_def)
  have t: "ticks = Suc k \<Longrightarrow> poll_loop stocked_shop cat ''c1'' None Cached ticks False None s =
      (EndAccepted ready, None, s\<lparr>trace := trace s @ [ReadNG Cached ''c1'' (Inr machine_up)]\<rparr>)" for ticks k cat s
    by (simp add: poll_loop.simps [of _ _ _ _ _ _ False] poll_once_def run_defs)
  obtain s2 where run: "ResolveAndCreate example_env stocked_shop example_claim (\<lambda>_. ((Inr ?l :: resolve_error + launch), resolved)) (start ()) =
      (Inr running, s2)" "trace s2 = launch_effects"
    using l by (auto simp: ResolveAndCreate_def obtain_group_def follow_def waitForAcceptance_def run_defs resolved_def start_def
        launch_reader_def t [of _ 14] quotaCheckTicks_def launch_effects_def release_hold_def running_def [symmetric] Let_def dur_defs)
  have "storable (q_at (itCapacity (on_sale cheap)) ResourceEphemeralStorage) (q_at (it_allocatable exact_lib (on_sale cheap)) ResourceEphemeralStorage)"
    unfolding cheap_disk by (simp add: storable_def ephemeralStorage_def evictionEphemeralThreshold_def)
  then obtain d where "readDiskSnapshot exact_lib unary running = Inr d"
    using launched_disk_reads [of shop "on_sale cheap" running example_claim None ready_class] unary_lawful
    by (auto simp: running_def)
  then show ?thesis
    using run by (simp add: stocked_create_def CreateClaim_def stocked_create_resolves buildNodeClaim_def Let_def split: option.split)
qed

section \<open>The history\<close>

definition example_process :: "unit process" where
  "example_process = \<lparr>pcCloud = shop, pcFeed = example_feed, pcConds = plain_conditions,
     pcRejectionText = (\<lambda>e. []), pcProbeText = (\<lambda>e. [])\<rparr>"

definition example_worlds :: "actor \<Rightarrow> unit kube" where
  "example_worlds A = (if A = Launcher then stocked_shop else orphan_world)"

definition sweep_effects :: "effect list" where
  "sweep_effects = did (start ()) (snd (snd example_sweep))"

text \<open>Up to the sweep, and the sweep.\<close>

definition before_sweep :: "happening list" where
  "before_sweep = ClaimBorn ''c1'' ''u1'' # map (Did Launcher) launch_effects @
     [ClaimBorn ''c2'' ''u2'', GroupStored example_group, ClaimGone ''c1'']"

definition example_history :: "happening list" where
  "example_history = before_sweep @ map (Did Collector) sweep_effects @ [ClaimBorn ''c1'' ''u3'']"

lemma sweep_effects: "sweep_effects =
     [ListedNG [(ManagedLabelKey, ''true'')] (Inr [example_group]),
      SetGauge NodeGroupDeletionOverdue 0, ListedClaims (Inr [lost_claim]), ListedNG [] (Inr [example_group]),
      ReadNG Uncached ''c2'' (Inl NotFound), DeletedClaim lost_claim None None, Count NodeGroupVanished,
      claimEvent True ''NodeGroupVanished'' lost_claim [],
      ReadClaim Uncached ''c1'' (Inl NotFound), DeletedNG ''c1'' None, Count GCReapedNodeGroups,
      groupEvent False ''GarbageCollected'' example_group [] [''c1''],
      SetGauge NodeGroupExternalResizes 0, SetGauge GCRefusedNodeGroups 0]"
  unfolding sweep_effects_def by (rule example_sweep_did)

lemma example_claims [simp]:
  "claims_of running = [''c1'', ''c1'']" "claims_of example_group = [''c1'', ''c1'']"
  "ncName lost_claim = ''c2''" "ncUID lost_claim = ''u2''" "ncName example_claim = ''c1''" "ncUID example_claim = ''u1''"
  by (simp_all add: running_def payload_claims) (simp_all add: claims_of_def lost_claim_def example_claim_def meta0_def)

lemma example_legal: "legal example_history"
  by (simp add: example_history_def before_sweep_def launch_effects_def sweep_effects live_def present_def present_step_def
      used_uids_def claimEvent_def groupEvent_def)

lemma part_map [simp]: "part A (map (Did B) es) = (if A = B then es else [])"
  by (induction es) auto

lemma example_parts: "part A example_history = (case A of Launcher \<Rightarrow> launch_effects | Collector \<Rightarrow> sweep_effects | _ \<Rightarrow> [])"
  by (cases A) (simp_all add: example_history_def before_sweep_def)

lemma performs_call:
  assumes "actor_does P K A ((), start w) ((), s)"
  shows "performs P K A (trace s)"
proof -
  have "run (actor_does P K A) ((), start w) ((), s)"
    by (rule run_does [where x = "((), start w)", OF run_start]) (rule assms)
  moreover have "trace (start w) = []" by (simp add: start_def)
  ultimately show ?thesis unfolding performs_def by blast
qed

lemma performs_nothing: "performs P K A []"
  unfolding performs_def by (intro exI [of _ "start undefined"] conjI run_start) (simp_all add: start_def)

lemma example_is_history: "history example_process example_worlds example_history"
proof -
  have "actor_does example_process stocked_shop Launcher ((), start ()) ((), snd (snd stocked_create))"
    by (rule launches [where claim = example_claim and warned = "[]" and r = "fst stocked_create" and warned' = "fst (snd stocked_create)"])
      (simp add: example_process_def stocked_create_def)
  from performs_call [OF this] have "performs example_process stocked_shop Launcher launch_effects"
    by (simp add: stocked_create_trace)
  moreover have "actor_does example_process orphan_world Collector ((), start ()) ((), snd (snd example_sweep))"
    by (rule collects [where gc = gc0 and r = "fst example_sweep" and gc' = "fst (snd example_sweep)"])
      (simp add: example_process_def example_sweep_run)
  from performs_call [OF this] have "performs example_process orphan_world Collector sweep_effects"
    by (simp add: sweep_effects_def did_def start_def)
  ultimately have "performs example_process (example_worlds A) A (part A example_history)" for A
    by (cases A) (simp_all add: example_parts example_worlds_def performs_nothing)
  with example_legal show ?thesis by (simp add: history_def)
qed

theorem goroutines_write_their_own_witness:
  "act_of (DeletedNG ''c1'' None) \<in> may Collector"
  by (rule goroutines_write_their_own [OF example_is_history])
    (simp_all add: example_history_def sweep_effects writing_def)

theorem living_claims_keep_their_groups_witness:
  "(''c1'', ''u1'') \<notin> set (live example_history) \<and> (''c1'', ''u3'') \<in> set (live example_history)"
proof -
  have "Did Collector (DeletedNG ''c1'' None) \<in> set example_history" by (simp add: example_history_def sweep_effects)
  then obtain past mid where H: "example_history = past @ Did Collector (DeletedNG ''c1'' None) # mid @ []"
    by (auto dest!: split_list)
  from living_claims_keep_their_groups [OF example_is_history H] obtain xs sel ngs ys g where
    w: "past = xs @ Did Collector (ListedNG sel (Inr ngs)) # ys" "g \<in> set (versions xs)" "ngName g = ''c1''"
    "\<forall>x \<in> set (claims_of g). \<forall>u. ClaimBorn x u \<in> set xs \<longrightarrow> (x, u) \<notin> set (live example_history)"
    using H by auto
  have first: "hd example_history = ClaimBorn ''c1'' ''u1''" by (simp add: example_history_def before_sweep_def)
  have split: "example_history = xs @ Did Collector (ListedNG sel (Inr ngs)) # ys @ Did Collector (DeletedNG ''c1'' None) # mid"
    using H w(1) by simp
  then have "hd (xs @ Did Collector (ListedNG sel (Inr ngs)) # ys @ Did Collector (DeletedNG ''c1'' None) # mid) = ClaimBorn ''c1'' ''u1''"
    using first by simp
  then have early: "ClaimBorn ''c1'' ''u1'' \<in> set xs" by (cases xs) simp_all
  have "g = running \<or> g = example_group"
  proof -
    have "set (versions example_history) = {running, example_group}"
      by (auto simp: example_history_def before_sweep_def launch_effects_def sweep_effects claimEvent_def groupEvent_def)
    moreover have "g \<in> set (versions example_history)" unfolding split versions_simps(2) using w(2) by simp
    ultimately show ?thesis by blast
  qed
  then have "''c1'' \<in> set (claims_of g)" by auto
  with w(4) early have "(''c1'', ''u1'') \<notin> set (live example_history)" by blast
  moreover have "(''c1'', ''u3'') \<in> set (live example_history)" by (simp add: example_history_def live_def)
  ultimately show ?thesis ..
qed

theorem writes_have_reasons_witness:
  "\<exists>past rest x. example_history = past @ Did Collector (DeletedNG ''c1'' None) # rest \<and>
     Did Collector (ReadClaim Uncached x (Inl NotFound)) \<in> set past"
proof -
  have "Did Collector (DeletedNG ''c1'' None) \<in> set example_history" by (simp add: example_history_def sweep_effects)
  then obtain past rest where H: "example_history = past @ Did Collector (DeletedNG ''c1'' None) # rest"
    by (auto dest!: split_list)
  from writes_have_reasons [OF example_is_history H] obtain sel ngs g where
    "\<forall>x \<in> set (claims_of g). after_that past Collector (ListedNG sel (Inr ngs)) (ReadClaim Uncached x (Inl NotFound)) (\<lambda>now. x \<notin> fst ` set (live now))"
    by auto
  then have "after_that past Collector (ListedNG sel (Inr ngs)) (ReadClaim Uncached (claimNameOf g) (Inl NotFound)) (\<lambda>now. claimNameOf g \<notin> fst ` set (live now))"
    by (simp add: claims_of_def)
  then have "Did Collector (ReadClaim Uncached (claimNameOf g) (Inl NotFound)) \<in> set past" by (auto simp: after_that_def)
  with H show ?thesis by blast
qed

end
