(* ===== verification/Spec2Isabelle.thy ===== *)
theory Spec2Isabelle
  imports NodeClassController NodeGroupStatus ProviderIdController GarbageCollection CatalogueFeeds CloudExamples DeepCopies
    Metrics Writes Process Wiring Reasons ClusterHistory HistoryExamples
begin

text \<open>
  A model of the Karpenter provider for Clever Cloud, and what makes it correct.

  The program. Karpenter asks the provider for a machine by handing it a NodeClaim. The provider
  creates one NodeGroup custom resource per NodeClaim (\<^verbatim>\<open>src/pkg/providers/nodegroup\<close>), of which the
  platform's operator makes a machine, and waits a moment for the operator's verdict. A refusal or a
  quota rejection of a flavor is remembered for a while, so that the scheduler relaxes to another one.
  What a flavor is and costs comes from a catalogue (\<^verbatim>\<open>src/pkg/providers/instancetype\<close>): a built-in table
  with the operator's overrides, refined by what running nodes report and by the disk of one trusted
  host. The cloud provider (\<^verbatim>\<open>src/pkg/cloudprovider\<close>) puts the two together: it serves the catalogue with
  the refused flavors closed, chooses a flavor under the creation lock after a last look at the claim
  and its class, describes running groups, deletes them, and reports drift.
  Controllers follow the group from there: one fails launches refused late, one stamps the provider ID
  that ties the node to the group, one sweeps orphans on both sides, one validates NodeClasses and
  migrates the drift hash stamped on the groups.

  Theories, each named after what it models:

  \<^item> \<^verbatim>\<open>Prelude\<close>: time as integers of nanoseconds, strings, maps, association lists keyed by flavor.
  \<^item> \<^verbatim>\<open>NodeGroupTypes\<close> (\<^verbatim>\<open>apis/nodegroup/v1/types.go\<close>): the NodeGroup, its conditions, and the reading of
    the operator's verdict: a \<open>ReconcileFailed\<close> is a refusal or transient, never both.
  \<^item> \<^verbatim>\<open>Labels\<close> (\<^verbatim>\<open>apis/v1alpha1/labels.go\<close> and the CRD's CEL rule): which labels reach a NodeGroup.
  \<^item> \<^verbatim>\<open>NodeClassHash\<close> (\<^verbatim>\<open>apis/v1alpha1/clevernodeclass.go\<close>): the generations of the drift hash. The contract
    of a drift digest is the locale \<open>drift_digest\<close>, interpreted on \<open>Hash\<close>.
  \<^item> \<^verbatim>\<open>Sizing\<close> (\<^verbatim>\<open>providers/instancetype\<close>): the built-in sizes and their order.
  \<^item> \<^verbatim>\<open>RefusalMemory\<close> (\<^verbatim>\<open>providers/nodegroup\<close>): the fields guarded by the provider's mutex and every critical
    section on them, as functions of the guarded state. The contract of a log of refusals whose
    clearing respects marks is the locale \<open>refusal_log\<close>, interpreted on the hold-outs and on the
    quota rejections; any interleaving of goroutines is a list of critical sections (\<open>run_ops\<close>).
  \<^item> \<^verbatim>\<open>System\<close>: the Kubernetes objects and the API as a parameter; the process state; effects.
  \<^item> \<^verbatim>\<open>NodeGroupIdentity\<close>, \<^verbatim>\<open>Acceptance\<close>, \<^verbatim>\<open>NodeGroupProvider\<close> (\<^verbatim>\<open>providers/nodegroup\<close>): names, provider IDs and
    labels of a group; the poll for the operator's verdict; create, adopt, delete, late refusals.
  \<^item> \<^verbatim>\<open>GarbageCollection\<close>, \<^verbatim>\<open>NodeGroupStatus\<close>, \<^verbatim>\<open>ProviderIdController\<close>, \<^verbatim>\<open>NodeClassController\<close>
    (\<^verbatim>\<open>controllers/...\<close>): one theory per controller, its state and its whole reconcile. Provider IDs stay unique
    among the nodes that keep their nodegroup label; an example shows what a relabelled node can break.
  \<^item> \<^verbatim>\<open>Float64\<close>, \<^verbatim>\<open>Flavors\<close> (\<^verbatim>\<open>providers/instancetype\<close>): float64 arithmetic as rounding of rationals, prices,
    override files and their merge into the served catalogue.
  \<^item> \<^verbatim>\<open>InstanceTypes\<close>, \<^verbatim>\<open>ObservedCatalogue\<close> (\<^verbatim>\<open>providers/instancetype\<close>): the observed figures, the disk
    reference and the instance types built from them; every history of the provider's critical
    sections keeps the invariant \<open>inst_ok\<close>. The contract of a log that keeps minima is the locale
    \<open>minimum_log\<close>, interpreted on the capacity and the allocatable figures.
  \<^item> \<^verbatim>\<open>CatalogueFeeds\<close> (\<^verbatim>\<open>controllers/ephemeralstorage\<close>, \<^verbatim>\<open>controllers/instancetypecapacity\<close>): the two
    controllers that feed the catalogue, with their runs as inductive predicates.
  \<^item> \<^verbatim>\<open>DiskSnapshot\<close>, \<^verbatim>\<open>CloudProvider\<close>, \<^verbatim>\<open>MachineLifecycle\<close> (\<^verbatim>\<open>cloudprovider\<close>): the disk recorded on a group,
    karpenter's interface, what a launch checks before it posts, and what is told of machines
    afterwards; \<^verbatim>\<open>CloudExamples\<close> has concrete instances, and two inputs the checks let through.
  \<^item> \<^verbatim>\<open>Metrics\<close> (\<^verbatim>\<open>metrics/metrics.go\<close>): the Prometheus series, and what a scrape shows of a trace of effects.
  \<^item> \<^verbatim>\<open>Writes\<close>: the kind of every effect, and for each entry point of the process the kinds it can have.
  \<^item> \<^verbatim>\<open>Process\<close>: the goroutines as runs of their calls, any interleaving of them, and the gauges as reports
    of the state their one writer holds. The contract of a goroutine that leaves all but its own gauges
    alone is the locale \<open>goroutine\<close>, and of one whose gauge reports a count it holds the locale \<open>reporter\<close>,
    interpreted on the status controller, the collector, and everything else.
  \<^item> \<^verbatim>\<open>Wiring\<close> (\<^verbatim>\<open>cmd/controller/main.go\<close>, \<^verbatim>\<open>controllers/controllers.go\<close>, every \<^verbatim>\<open>Register\<close>): start-up, what the
    controllers register for, the types the scheme knows, what the event filters drop, and the catalogue
    that the quota engine and the scheduler share: a quota rejection closes every flavor served as at least as large.
  \<^item> \<^verbatim>\<open>Reasons\<close>, \<^verbatim>\<open>ClusterHistory\<close>: what each goroutine has read before it creates or deletes something, and the
    histories in which NodeClaims and NodeGroups come and go while all goroutines run. What the API server
    promises is the law \<open>legal\<close> of a history: uncached reads tell the present, lists show what was stored once,
    a claim's UID is fresh. Nothing else is asked of the rest of the world: names of claims may be reused,
    labels and owners of groups rewritten, groups created again. The contract of a goroutine that justifies
    its effects by its own earlier ones is the locale \<open>careful\<close>, interpreted on launches, deletions, the
    collector and the status controller. There no claim that lived before a sweep loses its group to it,
    everything created or destroyed has its reason, and nobody writes another's objects. \<^verbatim>\<open>HistoryExamples\<close> has
    such a history, with a name reused.
  \<^item> \<^verbatim>\<open>DeepCopies\<close> (\<^verbatim>\<open>zz_generated.deepcopy.go\<close> of both APIs): the generated copies in an explicit memory of maps
    and arrays. The contract of a deep copy is the locale \<open>deep_copier\<close>, interpreted on the specs and statuses
    and carried to whole objects and lists. Everywhere else objects are values, which these theorems justify.

  How state and effects correspond. A goroutine's run is a function of \<open>'w sys\<close>: the world \<open>'w\<close>, the
  trace of effects in program order, and the memory of refusals. The client and the API server are not
  this repository's code: \<open>'w kube\<close> has one function per verb used, of an arbitrary world type, so a
  theorem holds for every behaviour of the API, every failure, and every change between two calls.
  What other goroutines do to the memory of refusals during a call is an arbitrary list of its critical
  sections (\<open>kOthers\<close>). State a controller owns alone (its log of warnings, its set of overdue groups)
  is a record passed through its reconcile. The catalogue's state is written by two controllers and read
  by the cloud provider: the writers pass it along, with what the other one does meanwhile as an
  arbitrary list of operations (\<open>feReports\<close>, \<open>feHost\<close>); to the reader it is a view of the world (\<open>cvInst\<close>).
  Most safety theorems read the trace: an effect occurs only after the reads that justify it
  (\<open>guarded\<close>), or only effects of a kind occur (\<open>only\<close>).

  Conventions. Fixed wording of events and errors is left out; the values they carry, their reason,
  type and object are kept. Log lines are left out, except those a controller deduplicates with
  state of its own, which are effects (\<open>Logged\<close>). Maps are functions to \<open>option\<close>, or association lists where
  Go iterates over them; errors are datatypes with a constructor per branch of the source.

  Bounds. The acceptance poll has 15 s at one read per second plus the immediate first: 16 reads
  (\<open>quotaCheckTimeout\<close> and \<open>quotaCheckInterval\<close>); \<open>poll_ends_on_first_decision\<close> shows that the model's fuel is
  that number, so it ends by itself and no result depends on running out.

  Parameters with laws. What karpenter-core and Kubernetes' libraries decide is a parameter where the
  code only relies on it: label syntax (\<open>label_rules\<close>), hashing (\<open>hasher\<close>), arithmetic on resource lists
  (\<open>lawful_res\<close>), scheduling (\<open>lawful_sched\<close>), quantities as text (\<open>lawful_quantities\<close>), metrics (\<open>lawful_meter\<close>), the scheme
  (\<open>lawful_scheme\<close>), the copy of object metadata (\<open>lawful_meta_copy\<close>). Each law states documented
  behaviour and holds of the instance the examples use.

  Not modelled: what the manager does with a registration, the operator framework and the decorators of
  karpenter-core, signals, help texts of metrics, and the wording of errors and logs. The YAML parser,
  the file system and the environment are parameters. Between two of its own API calls a goroutine is not interleaved with others;
  during each call anything the others may do can happen.
\<close>

end
